(* ===== verification/Prelude.thy ===== *)
theory Prelude
  imports Main "HOL-Library.Word" "HOL-Library.List_Lexorder" "HOL-Library.Char_ord"
begin

text \<open>
  What the component theories share: bytes and characters, the C string and C library
  functions the program calls (\<open>strlen\<close>-style termination, \<open>isdigit\<close>, \<open>tolower\<close>,
  \<open>strtol\<close>, \<open>atoi\<close>, \<open>std::string::find\<close>, printing of integers by an output stream),
  exceptions as values of a sum type, and the interfaces (locales) that several components
  provide: a codec with a round trip, and a keyed store.
\<close>

section \<open>Collections of rewrite rules\<close>

named_theorems libc_simps \<open>evaluation rules of the C library functions\<close>
named_theorems res_simps \<open>rules of the error results\<close>

section \<open>Bytes and characters\<close>

type_synonym byte = "8 word"
type_synonym u64 = "64 word"

text \<open>A \<open>std::string\<close> is a list of 8-bit characters; \<open>unsigned char\<close> is \<open>byte\<close>.\<close>

definition byte_of :: "char \<Rightarrow> byte" where
  "byte_of c = word_of_nat (of_char c)"

definition char_of_byte :: "byte \<Rightarrow> char" where
  "char_of_byte b = char_of (unat b)"

definition NUL :: char where
  "NUL = CHR 0x00"

lemma char_eq_code: "c = d \<longleftrightarrow> (of_char c :: nat) = of_char d"
  by simp

lemma unat_byte_of [simp]: "unat (byte_of c) = of_char c"
  by (simp add: byte_of_def unat_of_nat take_bit_eq_mod)

lemma char_of_byte_of [simp]: "char_of_byte (byte_of c) = c"
  by (simp add: char_of_byte_def)

lemma of_char_char_of_byte: "(of_char (char_of_byte b) :: nat) = unat b"
proof -
  have "unat b < 256" using unsigned_less [of b] by simp
  then show ?thesis by (simp add: char_of_byte_def)
qed

lemma byte_of_char_of_byte [simp]: "byte_of (char_of_byte b) = b"
  by (simp add: word_unat_eq_iff of_char_char_of_byte)

lemma byte_of_eq_iff [simp]: "byte_of c = byte_of d \<longleftrightarrow> c = d"
  by (metis char_of_byte_of)

section \<open>C strings\<close>

text \<open>The C string that starts at a buffer: everything before the first NUL.\<close>

definition cstr :: "string \<Rightarrow> string" where
  "cstr s = takeWhile (\<lambda>c. c \<noteq> NUL) s"

lemma cstr_no_NUL [simp]: "NUL \<notin> set s \<Longrightarrow> cstr s = s"
  by (auto simp: cstr_def takeWhile_eq_all_conv)

lemma NUL_notin_cstr [simp]: "NUL \<notin> set (cstr s)"
  unfolding cstr_def by (metis (mono_tags, lifting) set_takeWhileD)

lemma cstr_append_NUL [simp]: "NUL \<notin> set s \<Longrightarrow> cstr (s @ NUL # t) = s"
  by (auto simp: cstr_def takeWhile_append takeWhile_eq_all_conv)

lemma cstr_append: "cstr (s @ t) = (if NUL \<in> set s then cstr s else s @ cstr t)"
  by (auto simp: cstr_def takeWhile_append takeWhile_eq_all_conv)

lemma length_cstr_le: "length (cstr s) \<le> length s"
  by (simp add: cstr_def length_takeWhile_le)

section \<open>Character classes of the C locale\<close>

definition in_range :: "nat \<Rightarrow> nat \<Rightarrow> char \<Rightarrow> bool" where
  "in_range lo hi c \<longleftrightarrow> lo \<le> of_char c \<and> of_char c \<le> hi"

definition c_isdigit :: "char \<Rightarrow> bool" where
  "c_isdigit c = in_range 48 57 c"

definition c_isalnum :: "char \<Rightarrow> bool" where
  "c_isalnum c \<longleftrightarrow> c_isdigit c \<or> in_range 65 90 c \<or> in_range 97 122 c"

definition c_isspace :: "char \<Rightarrow> bool" where
  "c_isspace c \<longleftrightarrow> c = CHR '' '' \<or> in_range 9 13 c"

definition c_tolower :: "char \<Rightarrow> char" where
  "c_tolower c = (if in_range 65 90 c then char_of (of_char c + 32 :: nat) else c)"

section \<open>Decimal numbers\<close>

definition digit_char :: "nat \<Rightarrow> char" where
  "digit_char d = char_of (48 + d)"

definition digit_val :: "char \<Rightarrow> nat" where
  "digit_val c = of_char c - 48"

lemma digit_chars [libc_simps]:
  "digit_char 0 = CHR ''0''" "digit_char (Suc 0) = CHR ''1''" "digit_char 1 = CHR ''1''"
  "digit_char 2 = CHR ''2''" "digit_char 3 = CHR ''3''" "digit_char 4 = CHR ''4''"
  "digit_char 5 = CHR ''5''" "digit_char 6 = CHR ''6''" "digit_char 7 = CHR ''7''"
  "digit_char 8 = CHR ''8''" "digit_char 9 = CHR ''9''"
  by (simp_all add: digit_char_def char_of_eq_iff)

text \<open>What \<open>o << n\<close> prints for an unsigned integer, and for a signed one.\<close>

fun string_of_nat :: "nat \<Rightarrow> string" where
  "string_of_nat n = (if n < 10 then [digit_char n]
     else string_of_nat (n div 10) @ [digit_char (n mod 10)])"

declare string_of_nat.simps [simp del]

definition string_of_int :: "int \<Rightarrow> string" where
  "string_of_int i = (if i < 0 then CHR ''-'' # string_of_nat (nat (- i))
     else string_of_nat (nat i))"

definition nat_of_digits :: "string \<Rightarrow> nat" where
  "nat_of_digits ds = foldl (\<lambda>a c. 10 * a + digit_val c) 0 ds"

lemma digit_char_props [simp]:
  "d < 10 \<Longrightarrow> digit_val (digit_char d) = d"
  "d < 10 \<Longrightarrow> c_isdigit (digit_char d)"
  by (simp_all add: digit_char_def digit_val_def c_isdigit_def in_range_def)

lemma nat_of_digits_append [simp]:
  "nat_of_digits (xs @ [c]) = 10 * nat_of_digits xs + digit_val c"
  by (simp add: nat_of_digits_def)

lemma string_of_nat_nonempty [simp]: "string_of_nat n \<noteq> []"
  by (subst string_of_nat.simps) simp

lemma string_of_nat_digits: "c \<in> set (string_of_nat n) \<Longrightarrow> c_isdigit c"
  by (induction n rule: string_of_nat.induct)
    (subst (asm) (2) string_of_nat.simps, auto split: if_splits)

lemma string_of_nat_code [libc_simps]:
  "n < 10 \<Longrightarrow> string_of_nat n = [digit_char n]"
  "10 \<le> n \<Longrightarrow> string_of_nat n = string_of_nat (n div 10) @ [digit_char (n mod 10)]"
  by (subst string_of_nat.simps, simp)+

lemma nat_of_digits_string_of_nat [simp]: "nat_of_digits (string_of_nat n) = n"
proof (induction n rule: string_of_nat.induct)
  case (1 n)
  show ?case
  proof (cases "n < 10")
    case True
    then show ?thesis by (subst string_of_nat.simps) (simp add: nat_of_digits_def)
  next
    case False
    with 1 show ?thesis by (subst string_of_nat.simps) simp
  qed
qed

lemma string_of_nat_inject [simp]: "string_of_nat m = string_of_nat n \<longleftrightarrow> m = n"
  by (metis nat_of_digits_string_of_nat)

text \<open>
  \<open>strtol (s, \<dots>, 10)\<close> on a C string: leading white space, an optional sign, digits;
  the value saturates at the limits of \<open>long\<close>; the second component is the rest of the
  string (\<open>endptr\<close>), the whole string where there is no digit.
\<close>

definition long_min :: int where "long_min = - (2 ^ 63)"
definition long_max :: int where "long_max = 2 ^ 63 - 1"

definition clamp_long :: "int \<Rightarrow> int" where
  "clamp_long v = max long_min (min long_max v)"

definition strtol10 :: "string \<Rightarrow> int \<times> string" where
  "strtol10 s =
     (let t = dropWhile c_isspace s;
          neg = (t \<noteq> [] \<and> hd t = CHR ''-'');
          u = (if t \<noteq> [] \<and> (hd t = CHR ''-'' \<or> hd t = CHR ''+'') then tl t else t);
          ds = takeWhile c_isdigit u
      in if ds = [] then (0, s)
         else (clamp_long (if neg then - int (nat_of_digits ds) else int (nat_of_digits ds)),
               dropWhile c_isdigit u))"

text \<open>\<open>atol\<close> is \<open>strtol\<close>; \<open>atoi\<close> keeps its low 32 bits, as a signed number.\<close>

definition atol :: "string \<Rightarrow> int" where
  "atol s = fst (strtol10 (cstr s))"

definition atoi :: "string \<Rightarrow> int" where
  "atoi s = sint (word_of_int (atol s) :: 32 word)"

lemma c_isdigit_not_sign [simp]:
  "c_isdigit c \<Longrightarrow> c \<noteq> CHR ''-''" "c_isdigit c \<Longrightarrow> c \<noteq> CHR ''+''"
  "c_isdigit c \<Longrightarrow> \<not> c_isspace c" "c_isdigit c \<Longrightarrow> c \<noteq> NUL"
  by (auto simp: c_isdigit_def c_isspace_def in_range_def NUL_def)

lemma strtol10_digits:
  assumes "ds \<noteq> []" "\<forall>c\<in>set ds. c_isdigit c"
  shows "strtol10 ds = (clamp_long (int (nat_of_digits ds)), [])"
proof -
  from assms obtain d es where ds: "ds = d # es" "c_isdigit d" by (cases ds) auto
  then have "dropWhile c_isspace ds = ds" "hd ds \<noteq> CHR ''-''" "hd ds \<noteq> CHR ''+''" by auto
  moreover have "takeWhile c_isdigit ds = ds" "dropWhile c_isdigit ds = []"
    using assms(2) by (simp_all add: takeWhile_eq_all_conv)
  ultimately show ?thesis using assms(1)
    by (simp add: strtol10_def Let_def del: takeWhile_eq_all_conv dropWhile_eq_Nil_conv)
qed

lemma atol_digits:
  assumes "ds \<noteq> []" "\<forall>c\<in>set ds. c_isdigit c"
  shows "atol ds = min long_max (int (nat_of_digits ds))"
proof -
  from assms(2) have "cstr ds = ds" by (intro cstr_no_NUL) (use c_isdigit_not_sign(4) in blast)
  with strtol10_digits [OF assms] show ?thesis
    by (simp add: atol_def clamp_long_def long_min_def long_max_def)
qed

lemma strtol10_digits_then:
  assumes "ds \<noteq> []" "\<forall>c\<in>set ds. c_isdigit c" "r = [] \<or> \<not> c_isdigit (hd r)"
  shows "strtol10 (ds @ r) = (clamp_long (int (nat_of_digits ds)), r)"
proof -
  define s where "s = ds @ r"
  from assms obtain d es where "ds = d # es" "c_isdigit d" by (cases ds) auto
  then have "dropWhile c_isspace s = s" "s \<noteq> []" "hd s \<noteq> CHR ''-''" "hd s \<noteq> CHR ''+''"
    by (auto simp: s_def)
  moreover have "takeWhile c_isdigit r = []" "dropWhile c_isdigit r = r"
    using assms(3) by (cases r; auto)+
  then have "takeWhile c_isdigit s = ds" "dropWhile c_isdigit s = r"
    using assms(2) by (simp_all add: s_def takeWhile_append2 dropWhile_append2)
  ultimately have "strtol10 s = (clamp_long (int (nat_of_digits ds)), r)"
    using assms(1) by (simp add: strtol10_def)
  then show ?thesis by (simp add: s_def)
qed

lemma atoi_digits_then:
  assumes "ds \<noteq> []" "\<forall>c\<in>set ds. c_isdigit c" "r = [] \<or> \<not> c_isdigit (hd r)"
    "NUL \<notin> set (ds @ r)" "nat_of_digits ds < 2 ^ 31"
  shows "atoi (ds @ r) = int (nat_of_digits ds)"
proof -
  have "atol (ds @ r) = int (nat_of_digits ds)"
    using strtol10_digits_then [OF assms(1-3)] assms(4,5)
    by (simp only: atol_def cstr_no_NUL) (simp add: clamp_long_def long_min_def long_max_def)
  moreover have "signed_take_bit 31 (int (nat_of_digits ds)) = int (nat_of_digits ds)"
    using assms(5) by (simp add: signed_take_bit_int_eq_self_iff)
  ultimately show ?thesis by (simp only: atoi_def sint_sbintrunc') simp
qed

section \<open>Searching in a string\<close>

text \<open>
  \<open>s.find_first_of (c, pos)\<close>, \<open>s.find (c)\<close> and \<open>s.rfind (c)\<close>: the index of the first
  occurrence from \<open>pos\<close> on, or of the last one; \<open>npos\<close> is \<open>None\<close>.
\<close>

definition find_first_of :: "string \<Rightarrow> char \<Rightarrow> nat \<Rightarrow> nat option" where
  "find_first_of s c pos =
     (if c \<in> set (drop pos s) then Some (pos + length (takeWhile (\<lambda>x. x \<noteq> c) (drop pos s)))
      else None)"

lemma length_takeWhile_lt: "c \<in> set xs \<Longrightarrow> length (takeWhile (\<lambda>x. x \<noteq> c) xs) < length xs"
  by (induction xs) auto

lemma find_first_of_bounds: "find_first_of s c p = Some i \<Longrightarrow> p \<le> i \<and> i < length s"
  using length_takeWhile_lt [of c "drop p s"] by (auto simp: find_first_of_def split: if_splits)

lemma find_first_of_at [simp]:
  "c \<notin> set k \<Longrightarrow> find_first_of (pre @ k @ c # t) c (length pre) = Some (length pre + length k)"
  by (auto simp: find_first_of_def takeWhile_append)

lemma find_first_of_None: "c \<notin> set (drop p s) \<Longrightarrow> find_first_of s c p = None"
  by (simp add: find_first_of_def)

definition find_last_of :: "string \<Rightarrow> char \<Rightarrow> nat option" where
  "find_last_of s c =
     (if c \<in> set s then Some (length s - 1 - length (takeWhile (\<lambda>x. x \<noteq> c) (rev s))) else None)"

definition substr :: "string \<Rightarrow> nat \<Rightarrow> nat \<Rightarrow> string" where
  "substr s pos n = take n (drop pos s)"

text \<open>\<open>s.find (t) != npos\<close> for a string \<open>t\<close>.\<close>

lemma substr_middle [simp]: "substr (pre @ k @ t) (length pre) (length k) = k"
  by (simp add: substr_def)

fun starts_with :: "string \<Rightarrow> string \<Rightarrow> bool" where
  "starts_with [] s = True"
| "starts_with (x # xs) [] = False"
| "starts_with (x # xs) (y # ys) = (x = y \<and> starts_with xs ys)"

fun has_substr :: "string \<Rightarrow> string \<Rightarrow> bool" where
  "has_substr t [] = (t = [])"
| "has_substr t (y # ys) = (starts_with t (y # ys) \<or> has_substr t ys)"

lemma starts_with_iff: "starts_with t s \<longleftrightarrow> (\<exists>u. s = t @ u)"
  by (induction t s rule: starts_with.induct) auto

lemma has_substr_iff: "has_substr t s \<longleftrightarrow> (\<exists>u v. s = u @ t @ v)"
proof (induction s)
  case Nil
  then show ?case by auto
next
  case (Cons y ys)
  have "(\<exists>u v. y # ys = u @ t @ v) \<longleftrightarrow> (\<exists>v. y # ys = t @ v) \<or> (\<exists>u v. ys = u @ t @ v)"
    by (auto simp: Cons_eq_append_conv)
  with Cons show ?case by (simp only: has_substr.simps starts_with_iff)
qed

section \<open>Exceptions as values\<close>

text \<open>
  The standard exceptions the program raises or lets pass, with their \<open>what ()\<close>; a result
  is either an exception or a value.
\<close>

datatype exn =
    Domain_error string
  | Invalid_argument string
  | Out_of_range string
  | Foreign_exn string

type_synonym 'a res = "exn + 'a"

definition res_bind :: "'e + 'a \<Rightarrow> ('a \<Rightarrow> 'e + 'b) \<Rightarrow> 'e + 'b" where
  "res_bind m f = (case m of Inl e \<Rightarrow> Inl e | Inr x \<Rightarrow> f x)"

fun what :: "exn \<Rightarrow> string" where
  "what (Domain_error s) = s"
| "what (Invalid_argument s) = s"
| "what (Out_of_range s) = s"
| "what (Foreign_exn s) = s"

lemma res_bind_simps [simp]:
  "res_bind (Inl e) f = Inl e" "res_bind (Inr x) f = f x"
  by (simp_all add: res_bind_def)

lemma res_bind_eq_Inr [res_simps]:
  "res_bind m f = Inr y \<longleftrightarrow> (\<exists>x. m = Inr x \<and> f x = Inr y)"
  by (cases m) auto

lemma res_bind_eq_Inl [res_simps]:
  "res_bind m f = Inl e \<longleftrightarrow> m = Inl e \<or> (\<exists>x. m = Inr x \<and> f x = Inl e)"
  by (cases m) auto

lemma res_bind_cong [fundef_cong]:
  "m = m' \<Longrightarrow> (\<And>x. m' = Inr x \<Longrightarrow> f x = g x) \<Longrightarrow> res_bind m f = res_bind m' g"
  by (cases m') auto

section \<open>Interfaces\<close>

text \<open>
  A codec: what is encoded decodes to itself. Providers are the base64 codec, the string
  escaping of the JSON serializer and the JSON serializer itself.
\<close>

locale codec =
  fixes enc :: "'a \<Rightarrow> 'b"
    and dec :: "'b \<Rightarrow> 'a option"
    and wf :: "'a \<Rightarrow> bool"
  assumes dec_enc: "wf x \<Longrightarrow> dec (enc x) = Some x"
begin

lemma enc_inject: "wf x \<Longrightarrow> wf y \<Longrightarrow> enc x = enc y \<longleftrightarrow> x = y"
  by (metis dec_enc option.inject)

lemma enc_inj_on: "inj_on enc {x. wf x}"
  by (auto simp: inj_on_def enc_inject)

lemma map_enc_inject:
  "\<forall>x\<in>set xs. wf x \<Longrightarrow> \<forall>y\<in>set ys. wf y \<Longrightarrow> map enc xs = map enc ys \<longleftrightarrow> xs = ys"
  by (rule inj_on_map_eq_map) (rule inj_on_subset [OF enc_inj_on], auto)

end

text \<open>
  A keyed store (a \<open>std::map\<close> and what is built on it): an insertion changes the binding of
  its key and no other.
\<close>

locale keyed_store =
  fixes empty :: "'m"
    and ins :: "'k \<Rightarrow> 'v \<Rightarrow> 'm \<Rightarrow> 'm"
    and look :: "'m \<Rightarrow> 'k \<Rightarrow> 'v option"
    and inv :: "'m \<Rightarrow> bool"
  assumes inv_empty: "inv empty"
    and inv_ins: "inv m \<Longrightarrow> inv (ins k v m)"
    and look_empty: "look empty k = None"
    and look_ins: "inv m \<Longrightarrow> look (ins k v m) k' = (if k' = k then Some v else look m k')"
begin

definition ins_all :: "('k \<times> 'v) list \<Rightarrow> 'm \<Rightarrow> 'm" where
  "ins_all kvs m = fold (\<lambda>(k, v). ins k v) kvs m"

lemma inv_ins_all: "inv m \<Longrightarrow> inv (ins_all kvs m)"
  by (induction kvs arbitrary: m) (auto simp: ins_all_def inv_ins)

lemma look_ins_all:
  "inv m \<Longrightarrow> look (ins_all kvs m) k =
     (case map_of (rev kvs) k of None \<Rightarrow> look m k | Some v \<Rightarrow> Some v)"
proof (induction kvs arbitrary: m)
  case Nil
  then show ?case by (simp add: ins_all_def)
next
  case (Cons kv kvs)
  obtain k0 v0 where kv: "kv = (k0, v0)" by (cases kv)
  have "look (ins_all (kv # kvs) m) k = look (ins_all kvs (ins k0 v0 m)) k"
    by (simp add: ins_all_def kv)
  with Cons kv show ?case
    by (auto simp: inv_ins look_ins map_add_def split: option.splits)
qed

lemma look_last_wins:
  "look (ins_all kvs empty) k = map_of (rev kvs) k"
  by (auto simp: look_ins_all inv_empty look_empty split: option.splits)

end

text \<open>
  Assignment by copy and swap. Providers are the classes of the cookies and the JSON values.
\<close>

locale copy_swap =
  fixes copy :: "'a \<Rightarrow> 'a"
    and swap :: "'a \<Rightarrow> 'a \<Rightarrow> 'a \<times> 'a"
    and assign :: "'a \<Rightarrow> 'a \<Rightarrow> 'a"
  assumes copy_id: "copy x = x"
    and swap_swaps: "swap x y = (y, x)"
    and assign_copy_swap: "assign this y = fst (swap this (copy y))"
begin

lemma assign_eq: "assign this y = y"
  by (simp add: assign_copy_swap swap_swaps copy_id)

lemma self_assign: "assign x x = x"
  by (rule assign_eq)

lemma swap_twice: "(let (a, b) = swap x y in swap a b) = (x, y)"
  by (simp add: swap_swaps)

end

text \<open>A transition system with an invariant: it holds in every state a run reaches.\<close>

locale invariant_system =
  fixes init :: "'s \<Rightarrow> bool"
    and step :: "'s \<Rightarrow> 's \<Rightarrow> bool"
    and inv :: "'s \<Rightarrow> bool"
  assumes inv_init: "init s \<Longrightarrow> inv s"
    and inv_step: "inv s \<Longrightarrow> step s t \<Longrightarrow> inv t"
begin

lemma inv_run: "step\<^sup>*\<^sup>* s t \<Longrightarrow> inv s \<Longrightarrow> inv t"
  by (induction rule: rtranclp_induct) (auto intro: inv_step)

lemma inv_reachable: "init s \<Longrightarrow> step\<^sup>*\<^sup>* s t \<Longrightarrow> inv t"
  by (blast intro: inv_run inv_init)

end

end
