(* ===== verification/Base64.thy ===== *)
theory Base64
  imports Prelude
begin

unbundle bit_operations_syntax

text \<open>
  \<open>src/base64.cpp\<close>: the URL-safe base64 codec. The encoder collects input bytes in a
  three-byte group (\<open>char_array_3\<close>, whose fill is \<open>i\<close>) and emits four alphabet characters
  per group; the decoder collects alphabet characters in groups of four (\<open>char_array_4\<close>).
  The main result is the round trip; the others are the length of the code, its alphabet,
  and where decoding stops.
\<close>

section \<open>The alphabet\<close>

definition base64_chars :: string where
  "base64_chars = ''ABCDEFGHIJKLMNOPQRSTUVWXYZabcdefghijklmnopqrstuvwxyz0123456789-_''"

definition is_base64 :: "char \<Rightarrow> bool" where
  "is_base64 c \<longleftrightarrow> c_isalnum c \<or> c = CHR ''-'' \<or> c = CHR ''_''"

text \<open>
  \<open>base64_chars.find (c)\<close> stored in an \<open>unsigned char\<close>: the position, or \<open>npos\<close> cut to
  its low byte.
\<close>

definition b64_index :: "char \<Rightarrow> byte" where
  "b64_index c = (case find_first_of base64_chars c 0 of None \<Rightarrow> 255 | Some i \<Rightarrow> word_of_nat i)"

definition b64_char :: "byte \<Rightarrow> char" where
  "b64_char b = base64_chars ! unat b"

section \<open>Encoding\<close>

text \<open>The four sextets of a group of three bytes.\<close>

definition group4 :: "byte \<Rightarrow> byte \<Rightarrow> byte \<Rightarrow> byte list" where
  "group4 c0 c1 c2 =
     [drop_bit 2 (c0 AND 0xfc),
      push_bit 4 (c0 AND 0x03) + drop_bit 4 (c1 AND 0xf0),
      push_bit 2 (c1 AND 0x0f) + drop_bit 6 (c2 AND 0xc0),
      c2 AND 0x3f]"

text \<open>The loop: \<open>buf\<close> is the filled part of \<open>char_array_3\<close>, \<open>ret\<close> the output so far.\<close>

fun b64_enc_loop :: "string \<Rightarrow> byte list \<Rightarrow> byte list \<Rightarrow> string \<times> byte list" where
  "b64_enc_loop ret buf [] = (ret, buf)"
| "b64_enc_loop ret buf (x # xs) =
     (let buf' = buf @ [x]
      in if length buf' = 3
         then b64_enc_loop (ret @ map b64_char (group4 (buf' ! 0) (buf' ! 1) (buf' ! 2))) [] xs
         else b64_enc_loop ret buf' xs)"

text \<open>The last, incomplete group: zero padding, \<open>i + 1\<close> characters, \<open>3 - i\<close> times \<open>=\<close>.\<close>

definition b64_enc_tail :: "byte list \<Rightarrow> string" where
  "b64_enc_tail buf =
     (let i = length buf; a = buf @ replicate (3 - i) 0
      in if i = 0 then []
         else map b64_char (take (i + 1) (group4 (a ! 0) (a ! 1) (a ! 2)))
              @ replicate (3 - i) CHR ''='')"

text \<open>
  The length is an \<open>unsigned int\<close>, into which the length of a string is cut: as many bytes are encoded.
\<close>

definition base64_encode_bytes :: "byte list \<Rightarrow> 32 word \<Rightarrow> string" where
  "base64_encode_bytes bs in_len =
     (let (ret, buf) = b64_enc_loop [] [] (take (unat in_len) bs) in ret @ b64_enc_tail buf)"

definition base64_encode :: "string \<Rightarrow> string" where
  "base64_encode s = base64_encode_bytes (map byte_of s) (word_of_nat (length s))"

section \<open>Decoding\<close>

definition group3 :: "byte \<Rightarrow> byte \<Rightarrow> byte \<Rightarrow> byte \<Rightarrow> byte list" where
  "group3 d0 d1 d2 d3 =
     [push_bit 2 d0 + drop_bit 4 (d1 AND 0x30),
      push_bit 4 (d1 AND 0xf) + drop_bit 2 (d2 AND 0x3c),
      push_bit 6 (d2 AND 0x3) + d3]"

fun b64_dec_loop :: "string \<Rightarrow> string \<Rightarrow> string \<Rightarrow> string \<times> string" where
  "b64_dec_loop ret buf [] = (ret, buf)"
| "b64_dec_loop ret buf (c # cs) =
     (if c \<noteq> CHR ''='' \<and> is_base64 c
      then let buf' = buf @ [c]
           in if length buf' = 4
              then b64_dec_loop
                     (ret @ map char_of_byte
                        (group3 (b64_index (buf' ! 0)) (b64_index (buf' ! 1))
                                (b64_index (buf' ! 2)) (b64_index (buf' ! 3)))) [] cs
              else b64_dec_loop ret buf' cs
      else (ret, buf))"

text \<open>The incomplete last group is filled with NULs, which \<open>find\<close> does not find.\<close>

definition b64_dec_tail :: "string \<Rightarrow> string" where
  "b64_dec_tail buf =
     (let i = length buf; a = map b64_index (buf @ replicate (4 - i) NUL)
      in if i = 0 then []
         else map char_of_byte (take (i - 1) (group3 (a ! 0) (a ! 1) (a ! 2) (a ! 3))))"

text \<open>The loop over the characters and the rest of it, for characters that are all looked at.\<close>

definition decode_chars :: "string \<Rightarrow> string" where
  "decode_chars s = (let (ret, buf) = b64_dec_loop [] [] s in ret @ b64_dec_tail buf)"

text \<open>
  The length is kept in an \<open>int\<close>, which is counted down before every look at a character. If it starts
  as a negative number, the loop ends at the first character that is not in the code, at the latest at
  the NUL behind the text; \<open>None\<close>: before that the counter leaves the range of \<open>int\<close>, which is undefined.
\<close>

definition base64_decode :: "string \<Rightarrow> string option" where
  "base64_decode s =
     (let in_len = sint (word_of_nat (length s) :: 32 word);
          looks = length (takeWhile (\<lambda>c. c \<noteq> CHR ''='' \<and> is_base64 c) s) + 1
      in if 0 \<le> in_len then Some (decode_chars (take (nat in_len) s))
         else if int looks \<le> in_len + 2 ^ 31 then Some (decode_chars s)
         else None)"

section \<open>The arithmetic of one group\<close>

lemma byte_eqI:
  fixes a b :: byte
  assumes "bit a 0 = bit b 0" "bit a 1 = bit b 1" "bit a 2 = bit b 2" "bit a 3 = bit b 3"
    "bit a 4 = bit b 4" "bit a 5 = bit b 5" "bit a 6 = bit b 6" "bit a 7 = bit b 7"
  shows "a = b"
proof (rule bit_word_eqI)
  fix n assume "n < LENGTH(8)"
  then have "n \<in> {0, 1, 2, 3, 4, 5, 6, 7}" by auto
  with assms show "bit a n = bit b n" by auto
qed

lemma add_eq_or:
  fixes a b :: byte
  assumes "a AND b = 0"
  shows "a + b = a OR b"
  using assms by (rule disjunctive_add_eq_or)

lemma group4_or:
  "group4 c0 c1 c2 =
     [drop_bit 2 (c0 AND 0xfc),
      push_bit 4 (c0 AND 0x03) OR drop_bit 4 (c1 AND 0xf0),
      push_bit 2 (c1 AND 0x0f) OR drop_bit 6 (c2 AND 0xc0),
      c2 AND 0x3f]"
proof -
  have "push_bit 4 (c0 AND 0x03) AND drop_bit 4 (c1 AND 0xf0) = 0"
    by (rule byte_eqI) (simp_all add: bit_simps)
  moreover have "push_bit 2 (c1 AND 0x0f) AND drop_bit 6 (c2 AND 0xc0) = 0"
    by (rule byte_eqI) (simp_all add: bit_simps)
  ultimately show ?thesis by (simp add: group4_def add_eq_or)
qed

lemma group3_or:
  assumes "d0 AND 0xc0 = 0" "d1 AND 0xc0 = 0" "d2 AND 0xc0 = 0" "d3 AND 0xc0 = 0"
  shows "group3 d0 d1 d2 d3 =
     [push_bit 2 d0 OR drop_bit 4 (d1 AND 0x30),
      push_bit 4 (d1 AND 0xf) OR drop_bit 2 (d2 AND 0x3c),
      push_bit 6 (d2 AND 0x3) OR d3]"
proof -
  have 1: "push_bit 2 d0 AND drop_bit 4 (d1 AND 0x30) = 0"
    by (rule byte_eqI) (simp_all add: bit_simps)
  have 2: "push_bit 4 (d1 AND 0xf) AND drop_bit 2 (d2 AND 0x3c) = 0"
    by (rule byte_eqI) (simp_all add: bit_simps)
  have "bit (d3 AND 0xc0) 6 = False" "bit (d3 AND 0xc0) 7 = False" using assms(4) by simp_all
  then have 3: "push_bit 6 (d2 AND 0x3) AND d3 = 0"
    by - (rule byte_eqI, simp_all add: bit_simps)
  show ?thesis unfolding group3_def add_eq_or [OF 1] add_eq_or [OF 2] add_eq_or [OF 3] ..
qed

lemma group4_sextets: "d \<in> set (group4 c0 c1 c2) \<Longrightarrow> d AND 0xc0 = 0"
  by (auto simp: group4_or intro!: byte_eqI simp: bit_simps)

lemma group3_group4:
  "group3 (group4 c0 c1 c2 ! 0) (group4 c0 c1 c2 ! 1) (group4 c0 c1 c2 ! 2) (group4 c0 c1 c2 ! 3)
   = [c0, c1, c2]"
proof -
  have "group3 (group4 c0 c1 c2 ! 0) (group4 c0 c1 c2 ! 1) (group4 c0 c1 c2 ! 2) (group4 c0 c1 c2 ! 3)
    = [push_bit 2 (group4 c0 c1 c2 ! 0) OR drop_bit 4 ((group4 c0 c1 c2 ! 1) AND 0x30),
      push_bit 4 ((group4 c0 c1 c2 ! 1) AND 0xf) OR drop_bit 2 ((group4 c0 c1 c2 ! 2) AND 0x3c),
      push_bit 6 ((group4 c0 c1 c2 ! 2) AND 0x3) OR (group4 c0 c1 c2 ! 3)]"
    by (rule group3_or; rule group4_sextets [of _ c0 c1 c2], simp add: group4_def)
  also have "\<dots> = [c0, c1, c2]"
    by (auto simp: group4_or intro!: byte_eqI simp: bit_simps)
  finally show ?thesis .
qed

section \<open>The alphabet is a bijection with the sextets\<close>

lemma sextet_cases: "(d :: byte) AND 0xc0 = 0 \<Longrightarrow> d \<in> set (map word_of_nat [0..<64])"
proof -
  assume *: "d AND 0xc0 = 0"
  have "d AND 0x3f = d"
  proof (rule byte_eqI)
    have "bit (d AND 0xc0) 6 = False" "bit (d AND 0xc0) 7 = False" using * by simp_all
    then show "bit (d AND 0x3f) 6 = bit d 6" "bit (d AND 0x3f) 7 = bit d 7"
      by (simp_all add: bit_simps)
  qed (simp_all add: bit_simps)
  moreover have "unat (d AND 0x3f) \<le> unat (0x3f :: byte)"
    by (rule word_and_le1 [THEN word_le_nat_alt [THEN iffD1]])
  ultimately have "unat d \<le> 63" by simp
  then show ?thesis by (auto simp: image_iff intro!: bexI [of _ "unat d"])
qed

lemma alphabet_table:
  "\<forall>d\<in>set (map word_of_nat [0..<64]).
     b64_index (b64_char d) = d \<and> is_base64 (b64_char d) \<and> b64_char d \<noteq> CHR ''=''
     \<and> b64_char d \<in> set base64_chars"
  by code_simp

lemma b64_char_props:
  assumes "d AND 0xc0 = 0"
  shows "b64_index (b64_char d) = d" "is_base64 (b64_char d)" "b64_char d \<noteq> CHR ''=''"
    "b64_char d \<in> set base64_chars"
  using sextet_cases [OF assms] alphabet_table by blast+

section \<open>The loops against a reference by groups\<close>

fun b64_groups :: "byte list \<Rightarrow> string" where
  "b64_groups [] = []"
| "b64_groups [x] = map b64_char (take 2 (group4 x 0 0)) @ ''==''"
| "b64_groups [x, y] = map b64_char (take 3 (group4 x y 0)) @ ''=''"
| "b64_groups (x # y # z # xs) = map b64_char (group4 x y z) @ b64_groups xs"

lemma b64_enc_loop_acc:
  "b64_enc_loop (ret @ ret') buf xs =
     (let (r, b) = b64_enc_loop ret' buf xs in (ret @ r, b))"
  by (induction ret' buf xs rule: b64_enc_loop.induct) (auto simp: Let_def)

lemma encode_loop_groups: "(let (ret, buf) = b64_enc_loop [] [] bs in ret @ b64_enc_tail buf) = b64_groups bs"
proof (induction bs rule: b64_groups.induct)
  case (4 x y z xs)
  have "b64_enc_loop [] [] (x # y # z # xs) =
      b64_enc_loop (map b64_char (group4 x y z) @ []) [] xs"
    by (simp add: Let_def)
  with 4 show ?case unfolding b64_enc_loop_acc by (simp add: case_prod_unfold Let_def)
qed (simp_all add: b64_enc_tail_def Let_def numeral_2_eq_2 numeral_3_eq_3)

lemma encode_bytes_groups: "base64_encode_bytes bs n = b64_groups (take (unat n) bs)"
  unfolding base64_encode_bytes_def by (rule encode_loop_groups)

lemma b64_dec_loop_acc:
  "b64_dec_loop (ret @ ret') buf xs =
     (let (r, b) = b64_dec_loop ret' buf xs in (ret @ r, b))"
  by (induction ret' buf xs rule: b64_dec_loop.induct) (auto simp: Let_def)

lemma b64_dec_group:
  assumes "d0 AND 0xc0 = 0" "d1 AND 0xc0 = 0" "d2 AND 0xc0 = 0" "d3 AND 0xc0 = 0"
  shows "decode_chars (map b64_char [d0, d1, d2, d3] @ cs) =
    map char_of_byte (group3 d0 d1 d2 d3) @ decode_chars cs"
proof -
  have "b64_dec_loop [] [] (map b64_char [d0, d1, d2, d3] @ cs) =
      b64_dec_loop (map char_of_byte (group3 d0 d1 d2 d3) @ []) [] cs"
    using assms by (simp add: Let_def b64_char_props)
  then show ?thesis
    unfolding decode_chars_def b64_dec_loop_acc by (simp add: case_prod_unfold Let_def)
qed

lemma group3_prefix:
  "take 1 (group3 d0 d1 d2 d3) = take 1 (group3 d0 d1 e2 e3)"
  "take 2 (group3 d0 d1 d2 d3) = take 2 (group3 d0 d1 d2 e3)"
  by (simp_all add: group3_def)

lemma NUL_not_in_alphabet: "b64_index NUL = 255"
  by code_simp

lemma b64_dec_two:
  assumes "d0 AND 0xc0 = 0" "d1 AND 0xc0 = 0"
  shows "decode_chars (map b64_char [d0, d1] @ CHR ''='' # cs) =
    map char_of_byte (take 1 (group3 d0 d1 0 0))"
  using assms group3_prefix(1) [of d0 d1 255 255 0 0]
  by (simp add: decode_chars_def b64_dec_tail_def Let_def b64_char_props numeral_2_eq_2
      NUL_not_in_alphabet)

lemma b64_dec_three:
  assumes "d0 AND 0xc0 = 0" "d1 AND 0xc0 = 0" "d2 AND 0xc0 = 0"
  shows "decode_chars (map b64_char [d0, d1, d2] @ CHR ''='' # cs) =
    map char_of_byte (take 2 (group3 d0 d1 d2 0))"
  using assms group3_prefix(2) [of d0 d1 d2 255 0]
  by (simp add: decode_chars_def b64_dec_tail_def Let_def b64_char_props numeral_2_eq_2
      numeral_3_eq_3 NUL_not_in_alphabet)

lemma group4_masked [simp]:
  "i < 4 \<Longrightarrow> (group4 x y z ! i) AND 0xc0 = 0"
  by (rule group4_sextets [of _ x y z], rule nth_mem) (simp add: group4_def)

lemma decode_groups: "decode_chars (b64_groups bs) = map char_of_byte bs"
proof (induction bs rule: b64_groups.induct)
  case 1
  show ?case by (simp add: decode_chars_def b64_dec_tail_def)
next
  case (2 x)
  have "b64_groups [x] = map b64_char [group4 x 0 0 ! 0, group4 x 0 0 ! 1] @ CHR ''='' # ''=''"
    by (simp add: group4_def numeral_2_eq_2)
  then have "decode_chars (b64_groups [x]) =
      map char_of_byte (take 1 (group3 (group4 x 0 0 ! 0) (group4 x 0 0 ! 1) 0 0))"
    by (simp add: b64_dec_two del: list.map append.simps)
  also have "\<dots> = map char_of_byte (take 1 [x, 0, 0])"
    by (subst group3_group4 [symmetric], subst group3_prefix(1)) (rule refl)
  finally show ?case by simp
next
  case (3 x y)
  have "b64_groups [x, y] = map b64_char [group4 x y 0 ! 0, group4 x y 0 ! 1, group4 x y 0 ! 2] @ CHR ''='' # []"
    by (simp add: group4_def numeral_2_eq_2 numeral_3_eq_3)
  then have "decode_chars (b64_groups [x, y]) =
      map char_of_byte (take 2 (group3 (group4 x y 0 ! 0) (group4 x y 0 ! 1) (group4 x y 0 ! 2) 0))"
    by (simp add: b64_dec_three del: list.map append.simps)
  also have "\<dots> = map char_of_byte (take 2 [x, y, 0])"
    by (subst group3_group4 [symmetric], subst group3_prefix(2)) (rule refl)
  finally show ?case by simp
next
  case (4 x y z xs)
  let ?d = "\<lambda>i. group4 x y z ! i"
  have "b64_groups (x # y # z # xs) = map b64_char [?d 0, ?d 1, ?d 2, ?d 3] @ b64_groups xs"
    by (simp add: group4_def)
  then have "decode_chars (b64_groups (x # y # z # xs)) =
      map char_of_byte (group3 (?d 0) (?d 1) (?d 2) (?d 3)) @ decode_chars (b64_groups xs)"
    by (simp add: b64_dec_group del: list.map append.simps b64_groups.simps)
  with 4 group3_group4 [of x y z] show ?case by simp
qed

section \<open>Properties\<close>

lemma encode_groups: "length s < 2 ^ 32 \<Longrightarrow> base64_encode s = b64_groups (map byte_of s)"
  by (simp add: base64_encode_def encode_bytes_groups unat_of_nat take_bit_nat_eq_self)

lemma decode_encode: "length s < 2 ^ 32 \<Longrightarrow> decode_chars (base64_encode s) = s"
  by (simp add: encode_groups decode_groups map_idI)

lemma decode_short: "length s < 2 ^ 31 \<Longrightarrow> base64_decode s = Some (decode_chars s)"
proof -
  assume s: "length s < 2 ^ 31"
  have "sint (word_of_nat (length s) :: 32 word) = signed_take_bit 31 (int (length s))"
    by (simp add: signed_of_nat)
  also have "\<dots> = int (length s)" using s by (intro signed_take_bit_int_eq_self) simp_all
  finally have "sint (word_of_nat (length s) :: 32 word) = int (length s)" .
  then show ?thesis by (simp add: base64_decode_def)
qed

lemma length_b64_groups: "length (b64_groups bs) = 4 * ((length bs + 2) div 3)"
proof (induction bs rule: b64_groups.induct)
  case (4 x y z xs)
  have "(5 + length xs) div 3 = Suc ((2 + length xs) div 3)" by presburger
  with 4 show ?case by (simp add: group4_def)
qed (simp_all add: group4_def)

lemma group4_chars: "set (map b64_char (group4 x y z)) \<subseteq> set base64_chars"
  using b64_char_props(4) [OF group4_sextets] by auto

lemma set_b64_groups: "set (b64_groups bs) \<subseteq> set base64_chars \<union> {CHR ''=''}"
proof (induction bs rule: b64_groups.induct)
  case (2 x)
  then show ?case using group4_chars [of x 0 0] set_take_subset [of 2 "group4 x 0 0"] by auto
next
  case (3 x y)
  then show ?case using group4_chars [of x y 0] set_take_subset [of 3 "group4 x y 0"] by auto
next
  case (4 x y z xs)
  then show ?case using group4_chars [of x y z] by auto
qed simp

lemma b64_dec_loop_stop:
  "c = CHR ''='' \<or> \<not> is_base64 c \<Longrightarrow>
    b64_dec_loop ret buf (xs @ c # ys) = b64_dec_loop ret buf xs"
  by (induction ret buf xs rule: b64_dec_loop.induct) (auto simp: Let_def)

lemma dec_loop_prefix: "b64_dec_loop ret buf xs = b64_dec_loop ret buf (takeWhile (\<lambda>c. c \<noteq> CHR ''='' \<and> is_base64 c) xs)"
  by (induction ret buf xs rule: b64_dec_loop.induct) (auto simp: Let_def)

lemma groups_padding: "length bs mod 3 \<noteq> 0 \<Longrightarrow> \<exists>xs ys. b64_groups bs = xs @ CHR ''='' # ys"
proof (induction bs rule: b64_groups.induct)
  case (4 x y z bs)
  have "length (x # y # z # bs) mod 3 = length bs mod 3"
    by (simp add: mod_add_self2 numeral_3_eq_3 flip: numeral_3_eq_3)
  with 4 obtain xs ys where "b64_groups bs = xs @ CHR ''='' # ys" by auto
  then have "b64_groups (x # y # z # bs) = (map b64_char (group4 x y z) @ xs) @ CHR ''='' # ys" by simp
  then show ?case by blast
qed (simp_all, blast+)

lemma decode_padded:
  assumes "length s < 2 ^ 32" "length s mod 3 \<noteq> 0"
  shows "decode_chars (base64_encode s @ rest) = s"
proof -
  obtain xs ys where e: "base64_encode s = xs @ CHR ''='' # ys"
    using groups_padding [of "map byte_of s"] assms by (auto simp: encode_groups)
  have "decode_chars (xs @ CHR ''='' # zs) = decode_chars xs" for zs
    unfolding decode_chars_def by (simp add: b64_dec_loop_stop)
  then show ?thesis using decode_encode [OF assms(1)] by (simp add: e)
qed

lemma length_encode: "length s < 2 ^ 32 \<Longrightarrow> length (base64_encode s) = 4 * ((length s + 2) div 3)"
  by (simp add: encode_groups length_b64_groups)

interpretation b64: codec base64_encode base64_decode "\<lambda>s. length s \<le> 1610612733"
proof
  fix s :: string
  assume "length s \<le> 1610612733"
  then show "base64_decode (base64_encode s) = Some s"
    by (simp add: decode_short length_encode decode_encode)
qed

text \<open>
  Property C37: a string of less than 2^32 bytes survives the codec, if its code and what follows it have
  less than 2^31 characters (strings of up to 1610612733 bytes have such codes): decoding the code, whatever
  follows it after a padding character, gives the string, and no counter overflows.
\<close>

theorem base64_roundtrip:
  assumes "length s < 2 ^ 32" "length (base64_encode s @ rest) < 2 ^ 31" "length s mod 3 = 0 \<longrightarrow> rest = []"
  shows "base64_decode (base64_encode s @ rest) = Some s"
  using assms decode_short [OF assms(2)]
  by (cases "length s mod 3 = 0") (simp_all add: decode_encode decode_padded)

theorem base64_roundtrip_witness: "base64_decode (base64_encode ''ab'' @ ''x='') = Some ''ab''"
  by (rule base64_roundtrip) (simp_all add: length_encode)

text \<open>
  The code is four characters of the URL-safe alphabet (or padding) for every group of
  three bytes, and different strings have different codes, as long as the decoder can read them.
\<close>

theorem base64_code_shape:
  assumes "length s \<le> 1610612733" "length t \<le> 1610612733"
  shows "length (base64_encode s) = 4 * ((length s + 2) div 3)
   \<and> set (base64_encode s) \<subseteq> set base64_chars \<union> {CHR ''=''}
   \<and> (base64_encode s = base64_encode t \<longleftrightarrow> s = t)"
  using b64.enc_inject [of s t] assms
  by (auto simp: encode_groups length_b64_groups dest: subsetD [OF set_b64_groups])

theorem base64_code_shape_witness: "base64_encode ''ab'' \<noteq> base64_encode ''ac''"
  using base64_code_shape [of "''ab''" "''ac''"] by simp

text \<open>
  A string of 2^32 bytes is cut to no byte at all: its code is empty.
\<close>

theorem base64_long_lost:
  assumes "length s = 2 ^ 32"
  shows "base64_encode s = []"
  using assms by (simp add: base64_encode_def encode_bytes_groups)

theorem base64_long_lost_witness: "base64_encode (replicate (2 ^ 32) NUL) = []"
  by (rule base64_long_lost) (rule length_replicate)

text \<open>
  The decoder reads the longest prefix of characters of the alphabet and ignores
  everything after it, without an error.
\<close>

theorem base64_decode_prefix:
  assumes "length s < 2 ^ 31"
  shows "base64_decode s = base64_decode (takeWhile (\<lambda>c. c \<noteq> CHR ''='' \<and> is_base64 c) s)"
proof -
  have "length (takeWhile (\<lambda>c. c \<noteq> CHR ''='' \<and> is_base64 c) s) < 2 ^ 31"
    using assms length_takeWhile_le le_less_trans by blast
  moreover have "decode_chars s = decode_chars (takeWhile (\<lambda>c. c \<noteq> CHR ''='' \<and> is_base64 c) s)"
    unfolding decode_chars_def by (subst dec_loop_prefix) (rule refl)
  ultimately show ?thesis using assms by (simp add: decode_short)
qed

theorem base64_decode_prefix_witness: "base64_decode ''YQ==YQ'' = base64_decode ''YQ''"
  using base64_decode_prefix [of "''YQ==YQ''"] by (simp add: is_base64_def c_isalnum_def c_isdigit_def in_range_def)

end
