(* ===== verification/UrlParser.thy ===== *)
theory UrlParser
  imports Prelude
begin

unbundle bit_operations_syntax

text \<open>
  \<open>src/UrlParser.cpp\<close>: splitting a query string into a map of parameters, and the
  percent decoding of a value as a three-state machine. Main results: the machine against a
  recursive reference, the decoding of any percent-encoded text, and the parameters of a query
  string built from name/value pairs.
\<close>

section \<open>Hexadecimal digits\<close>

definition is_hex_digit :: "char \<Rightarrow> bool" where
  "is_hex_digit c \<longleftrightarrow> c \<in> set ''0123456789aAbBcCdDeEfF''"

definition hex_digit_to_int :: "char \<Rightarrow> nat" where
  "hex_digit_to_int c =
     (if c_isdigit c then of_char c - 48
      else if in_range 97 102 c then of_char c - 87
      else if in_range 65 70 c then of_char c - 55
      else 0)"

section \<open>Percent decoding\<close>

datatype pct_state = General | FirstPercentEncodedDigit | SecondPercentEncodedDigit

record pct =
  pct_state :: pct_state
  first_char :: char
  second_char :: char
  pct_result :: string

definition pct_init :: pct where
  "pct_init = \<lparr>pct_state = General, first_char = NUL, second_char = NUL, pct_result = []\<rparr>"

text \<open>One round of the loop: the \<open>switch\<close> over the state.\<close>

definition pct_step :: "pct \<Rightarrow> char \<Rightarrow> pct" where
  "pct_step s c = (case pct_state s of
     General \<Rightarrow>
       (if c \<noteq> CHR ''%'' then s\<lparr>pct_result := pct_result s @ [c]\<rparr>
        else s\<lparr>pct_state := FirstPercentEncodedDigit, first_char := NUL, second_char := NUL\<rparr>)
   | FirstPercentEncodedDigit \<Rightarrow>
       (let s = s\<lparr>first_char := c\<rparr> in
        if is_hex_digit (first_char s) then s\<lparr>pct_state := SecondPercentEncodedDigit\<rparr>
        else s\<lparr>pct_result := pct_result s @ [CHR ''%'', first_char s], pct_state := General\<rparr>)
   | SecondPercentEncodedDigit \<Rightarrow>
       (let s = s\<lparr>second_char := c\<rparr> in
        if is_hex_digit (second_char s)
        then s\<lparr>pct_result := pct_result s @
                 [char_of (or (push_bit 4 (hex_digit_to_int (first_char s)))
                              (hex_digit_to_int (second_char s)))],
               pct_state := General\<rparr>
        else s\<lparr>pct_result := pct_result s @ [CHR ''%'', first_char s, second_char s],
               pct_state := General\<rparr>))"

definition percent_decode :: "string \<Rightarrow> string" where
  "percent_decode str = pct_result (foldl pct_step pct_init str)"

section \<open>The parameters of a query string\<close>

type_synonym params_map = "string \<Rightarrow> string option"

text \<open>
  \<open>parse ()\<close>: \<open>pos\<close> is the position of the last separator, \<open>-1\<close> before the first character
  when there is no question mark.
\<close>

function url_parse_loop :: "string \<Rightarrow> int \<Rightarrow> params_map \<Rightarrow> params_map" where
  "url_parse_loop url pos params =
     (if - 1 \<le> pos \<and> pos < int (length url)
      then let p = nat (pos + 1) in
        (case find_first_of url CHR ''='' p of
           None \<Rightarrow> params
         | Some stop \<Rightarrow>
             let param_name = substr url p (stop - p);
                 p = stop + 1;
                 stop = (case find_first_of url CHR ''&'' p of None \<Rightarrow> length url | Some e \<Rightarrow> e);
                 param_value = substr url p (stop - p)
             in url_parse_loop url (int stop) (params(param_name \<mapsto> percent_decode param_value)))
      else params)"
  by pat_completeness auto

termination
proof (relation "measure (\<lambda>(url, pos, params). nat (int (length url) - pos))", goal_cases)
  case (2 url pos params p e name p' e' v)
  then show ?case
    by (auto dest!: find_first_of_bounds split: option.splits)
qed simp

declare url_parse_loop.simps [simp del]

definition url_parse :: "string \<Rightarrow> params_map" where
  "url_parse url =
     url_parse_loop url (case find_first_of url CHR ''?'' 0 of None \<Rightarrow> - 1 | Some p \<Rightarrow> int p) Map.empty"

record url_parser =
  up_url :: string
  up_params :: params_map

definition UrlParser_new :: "string \<Rightarrow> url_parser" where
  "UrlParser_new url = \<lparr>up_url = url, up_params = url_parse url\<rparr>"

definition param :: "url_parser \<Rightarrow> string \<Rightarrow> string" where
  "param u par = (case up_params u par of Some v \<Rightarrow> v | None \<Rightarrow> [])"

section \<open>The decoding machine against a reference\<close>

fun pct_ref :: "string \<Rightarrow> string" where
  "pct_ref [] = []"
| "pct_ref (c # s) =
     (if c \<noteq> CHR ''%'' then c # pct_ref s
      else case s of
        [] \<Rightarrow> []
      | h # s1 \<Rightarrow>
          if is_hex_digit h
          then (case s1 of
                  [] \<Rightarrow> []
                | l # s2 \<Rightarrow>
                    (if is_hex_digit l
                     then [char_of (16 * hex_digit_to_int h + hex_digit_to_int l)]
                     else [CHR ''%'', h, l]) @ pct_ref s2)
          else CHR ''%'' # h # pct_ref s1)"

lemma hex_digit_less_16: "is_hex_digit c \<Longrightarrow> hex_digit_to_int c < 16"
  by (auto simp: is_hex_digit_def hex_digit_to_int_def c_isdigit_def in_range_def)

lemma hex_byte: "l < 16 \<Longrightarrow> or (push_bit 4 h) l = 16 * h + (l :: nat)"
proof -
  assume "l < 16"
  then have "take_bit 4 l = l" by (simp add: take_bit_nat_eq_self)
  then have "\<not> bit l n" if "4 \<le> n" for n
    using that by (metis bit_take_bit_iff not_le)
  then have "and (push_bit 4 h) l = 0"
    by (intro bit_eqI) (auto simp: bit_simps)
  then show ?thesis by (simp add: disjunctive_add_eq_or [symmetric] push_bit_eq_mult)
qed

lemma pct_fold_ref:
  "pct_state s = General \<Longrightarrow> pct_result (foldl pct_step s str) = pct_result s @ pct_ref str"
proof (induction str arbitrary: s rule: pct_ref.induct)
  case 1
  then show ?case by simp
next
  case (2 c str)
  show ?case
  proof (cases "c = CHR ''%''")
    case False
    with 2 show ?thesis by (simp add: pct_step_def)
  next
    case True
    with 2 show ?thesis
      by (auto simp: pct_step_def hex_byte hex_digit_less_16 split: list.splits)
  qed
qed

lemma percent_decode_ref: "percent_decode str = pct_ref str"
  unfolding percent_decode_def by (subst pct_fold_ref) (simp_all add: pct_init_def)

section \<open>Decoding encoded text\<close>

text \<open>The encoding of RFC 3986, for any choice of the characters that are left as they are.\<close>

definition hex_char :: "nat \<Rightarrow> char" where
  "hex_char n = ''0123456789ABCDEF'' ! n"

definition pct_encode :: "(char \<Rightarrow> bool) \<Rightarrow> string \<Rightarrow> string" where
  "pct_encode keep s = concat (map (\<lambda>c. if keep c \<and> c \<noteq> CHR ''%'' then [c]
     else [CHR ''%'', hex_char (of_char c div 16), hex_char (of_char c mod 16)]) s)"

lemma hex_char_table: "\<forall>n\<in>set [0..<16]. is_hex_digit (hex_char n) \<and> hex_digit_to_int (hex_char n) = n"
  by code_simp

lemma hex_char_props [simp]:
  "n < 16 \<Longrightarrow> is_hex_digit (hex_char n)" "n < 16 \<Longrightarrow> hex_digit_to_int (hex_char n) = n"
  using hex_char_table by simp_all

lemma percent_decode_encode: "percent_decode (pct_encode keep s) = s"
proof (induction s)
  case Nil
  then show ?case by (simp add: percent_decode_ref pct_encode_def)
next
  case (Cons c s)
  have "(of_char c :: nat) div 16 < 16"
    using nat_of_char_less_256 [of c] by (intro less_mult_imp_div_less) simp
  moreover have "16 * (of_char c div 16) + of_char c mod 16 = (of_char c :: nat)"
    by simp
  ultimately show ?case
    using Cons by (simp add: percent_decode_ref pct_encode_def)
qed

interpretation pct: codec "pct_encode keep" "\<lambda>t. Some (percent_decode t)" "\<lambda>_. True" for keep
  by unfold_locales (simp add: percent_decode_encode)

section \<open>Parsing a query string\<close>

fun query_of :: "(string \<times> string) list \<Rightarrow> string" where
  "query_of [] = []"
| "query_of [(k, v)] = k @ CHR ''='' # v"
| "query_of ((k, v) # kvs) = k @ CHR ''='' # v @ CHR ''&'' # query_of kvs"

definition plain_pair :: "string \<times> string \<Rightarrow> bool" where
  "plain_pair kv \<longleftrightarrow> CHR ''='' \<notin> set (fst kv) \<and> CHR ''&'' \<notin> set (snd kv)"

text \<open>The map of the parser as a keyed store: an assignment replaces the binding of its key.\<close>

definition set_param :: "string \<Rightarrow> string \<Rightarrow> params_map \<Rightarrow> params_map" where
  "set_param k v m = m(k \<mapsto> v)"

interpretation url_store: keyed_store "Map.empty :: params_map" set_param "\<lambda>m k. m k" "\<lambda>_. True"
  by unfold_locales (auto simp: set_param_def)

lemma query_of_Cons:
  "query_of ((k, v) # kvs) =
     k @ CHR ''='' # v @ (if kvs = [] then [] else CHR ''&'' # query_of kvs)"
  by (cases kvs) auto

lemma url_loop_first:
  assumes "CHR ''='' \<notin> set k" "CHR ''&'' \<notin> set v" "url = pre @ k @ CHR ''='' # v @ t"
    "t = [] \<or> hd t = CHR ''&''"
  shows "url_parse_loop url (int (length pre) - 1) m =
    url_parse_loop url (int (length pre + length k + 1 + length v)) (set_param k (percent_decode v) m)"
proof -
  let ?e = "length pre + length k"
  have e: "find_first_of url CHR ''='' (length pre) = Some ?e"
    using assms(1,3) by simp
  have url: "url = (pre @ k @ ''='') @ v @ t" using assms(3) by simp
  have stop: "(case find_first_of url CHR ''&'' (?e + 1) of None \<Rightarrow> length url | Some e \<Rightarrow> e) =
      ?e + 1 + length v"
  proof (cases t)
    case Nil
    then have "find_first_of url CHR ''&'' (?e + 1) = None"
      using assms(2,3) by (intro find_first_of_None) simp
    with Nil assms(3) show ?thesis by simp
  next
    case (Cons x t')
    with assms(4) have "t = CHR ''&'' # t'" by simp
    with find_first_of_at [OF assms(2), of "pre @ k @ ''=''" t'] url show ?thesis by simp
  qed
  have name: "substr url (length pre) (length k) = k" using assms(3) by simp
  have val: "substr url (?e + 1) (length v) = v"
    using substr_middle [of "pre @ k @ ''=''" v t] url by simp
  have "int (length pre) - 1 < int (length url)" using assms(3) by simp
  then show ?thesis
    using e stop name val
    by (subst url_parse_loop.simps) (simp add: Let_def set_param_def)
qed

lemma url_loop_query:
  assumes "\<forall>kv\<in>set kvs. plain_pair kv"
  shows "url_parse_loop (pre @ query_of kvs) (int (length pre) - 1) m =
    url_store.ins_all (map (apsnd percent_decode) kvs) m"
  using assms
proof (induction kvs arbitrary: pre m)
  case Nil
  then show ?case
    by (subst url_parse_loop.simps) (simp add: url_store.ins_all_def find_first_of_None)
next
  case (Cons kv kvs)
  obtain k v where kv: "kv = (k, v)" by (cases kv)
  let ?t = "if kvs = [] then [] else CHR ''&'' # query_of kvs"
  let ?m = "set_param k (percent_decode v) m"
  have url: "pre @ query_of (kv # kvs) = pre @ k @ CHR ''='' # v @ ?t"
    by (simp only: kv query_of_Cons)
  have 1: "url_parse_loop (pre @ query_of (kv # kvs)) (int (length pre) - 1) m =
      url_parse_loop (pre @ query_of (kv # kvs)) (int (length pre + length k + 1 + length v)) ?m"
    using Cons.prems by (intro url_loop_first [OF _ _ url]) (auto simp: kv plain_pair_def)
  show ?case
  proof (cases kvs)
    case Nil
    with 1 url show ?thesis
      by (simp add: kv url_store.ins_all_def) (subst url_parse_loop.simps, simp)
  next
    case (Cons kv' kvs')
    let ?pre = "pre @ k @ CHR ''='' # v @ ''&''"
    have "pre @ query_of (kv # kvs) = ?pre @ query_of kvs" using url Cons by simp
    moreover have "int (length pre + length k + 1 + length v) = int (length ?pre) - 1" by simp
    ultimately have "url_parse_loop (pre @ query_of (kv # kvs)) (int (length pre) - 1) m =
        url_parse_loop (?pre @ query_of kvs) (int (length ?pre) - 1) ?m"
      using 1 by metis
    also have "\<dots> = url_store.ins_all (map (apsnd percent_decode) kvs) ?m"
      using Cons.prems by (intro Cons.IH) simp
    finally show ?thesis by (simp add: kv url_store.ins_all_def)
  qed
qed

lemma map_of_map_snd: "map_of (map (apsnd f) kvs) k = map_option f (map_of kvs k)"
  by (induction kvs) auto

lemma url_parse_after_question_mark:
  assumes "CHR ''?'' \<notin> set pre"
  shows "url_parse (pre @ CHR ''?'' # q) = url_parse_loop (pre @ CHR ''?'' # q) (int (length pre)) Map.empty"
  using find_first_of_at [OF assms, of "[]" q] by (simp add: url_parse_def)

lemma url_parse_query:
  assumes "\<forall>kv\<in>set kvs. plain_pair kv" "CHR ''?'' \<notin> set pre"
  shows "url_parse (pre @ CHR ''?'' # query_of kvs) k =
    map_option percent_decode (map_of (rev kvs) k)"
proof -
  have "url_parse (pre @ CHR ''?'' # query_of kvs) =
      url_parse_loop ((pre @ ''?'') @ query_of kvs) (int (length (pre @ ''?'')) - 1) Map.empty"
    using url_parse_after_question_mark [OF assms(2)] by simp
  also have "\<dots> = url_store.ins_all (map (apsnd percent_decode) kvs) Map.empty"
    by (rule url_loop_query [OF assms(1)])
  finally show ?thesis
    by (simp add: url_store.look_last_wins rev_map map_of_map_snd)
qed

lemma url_parse_bare_query:
  assumes "\<forall>kv\<in>set kvs. plain_pair kv" "CHR ''?'' \<notin> set (query_of kvs)"
  shows "url_parse (query_of kvs) k = map_option percent_decode (map_of (rev kvs) k)"
proof -
  have "url_parse (query_of kvs) = url_parse_loop ([] @ query_of kvs) (int (length ([] :: string)) - 1) Map.empty"
    using assms(2) by (simp add: url_parse_def find_first_of_None)
  also have "\<dots> = url_store.ins_all (map (apsnd percent_decode) kvs) Map.empty"
    by (rule url_loop_query [OF assms(1)])
  finally show ?thesis
    by (simp add: url_store.look_last_wins rev_map map_of_map_snd)
qed

lemma hex_char_plain [simp]:
  "n < 16 \<Longrightarrow> hex_char n \<noteq> CHR ''&''" "n < 16 \<Longrightarrow> CHR ''&'' \<noteq> hex_char n"
  using hex_char_props(1) [of n] by (auto simp: is_hex_digit_def)

lemma pct_encode_plain: "\<not> keep CHR ''&'' \<Longrightarrow> CHR ''&'' \<notin> set (pct_encode keep v)"
proof (induction v)
  case (Cons c v)
  have "(of_char c :: nat) div 16 < 16"
    using nat_of_char_less_256 [of c] by (intro less_mult_imp_div_less) simp
  with Cons show ?case
    by (auto simp: pct_encode_def)
qed (simp add: pct_encode_def)

text \<open>The loop does not look at the text before its position.\<close>

lemma find_first_of_shift:
  "find_first_of (pre @ u) c (length pre + p) = map_option ((+) (length pre)) (find_first_of u c p)"
  by (simp add: find_first_of_def)

lemma url_loop_shift:
  "0 \<le> p \<Longrightarrow> url_parse_loop (pre @ u) (int (length pre) + p) m = url_parse_loop u p m"
proof (induction u p m rule: url_parse_loop.induct)
  case (1 u p m)
  show ?case
  proof (cases "p < int (length u)")
    case False
    with 1 show ?thesis by (simp add: url_parse_loop.simps)
  next
    case True
    let ?q = "nat (p + 1)"
    have q: "nat (int (length pre) + p + 1) = length pre + ?q" using 1 by simp
    show ?thesis
    proof (cases "find_first_of u CHR ''='' ?q")
      case None
      with True 1 q find_first_of_shift [of pre u "CHR ''=''" ?q] show ?thesis
        by (simp add: url_parse_loop.simps)
    next
      case (Some e)
      let ?stop = "case find_first_of u CHR ''&'' (e + 1) of None \<Rightarrow> length u | Some i \<Rightarrow> i"
      have stop: "(case find_first_of (pre @ u) CHR ''&'' (length pre + e + 1) of
          None \<Rightarrow> length (pre @ u) | Some i \<Rightarrow> i) = length pre + ?stop"
        using find_first_of_shift [of pre u "CHR ''&''" "e + 1"]
        by (auto simp: add.assoc split: option.splits)
      have sub: "substr (pre @ u) (length pre + i) n = substr u i n" for i n
        by (simp add: substr_def)
      have IH: "url_parse_loop (pre @ u) (int (length pre) + int ?stop) m' = url_parse_loop u (int ?stop) m'"
        if "m' = m(substr u ?q (e - ?q) \<mapsto> percent_decode (substr u (e + 1) (?stop - (e + 1))))" for m'
        using "1.IH" [OF _ refl Some refl refl refl refl] True "1.prems" that
        by (simp add: fun_upd_def)
      have "url_parse_loop (pre @ u) (int (length pre) + p) m =
          url_parse_loop (pre @ u) (int (length pre) + int ?stop)
            (m(substr u ?q (e - ?q) \<mapsto> percent_decode (substr u (e + 1) (?stop - (e + 1)))))"
        using True "1.prems" q Some stop sub sub [of "Suc e"] find_first_of_shift [of pre u "CHR ''=''" ?q]
        by (subst url_parse_loop.simps) (simp add: Let_def add.assoc)
      also have "\<dots> = url_parse_loop u p m"
        using True "1.prems" Some IH [OF refl]
        by (subst (2) url_parse_loop.simps) (simp add: Let_def)
      finally show ?thesis .
    qed
  qed
qed

section \<open>Properties\<close>

text \<open>
  Property C36: the parameters of a query string. For a URL whose query is built from name/value
  pairs with percent-encoded values (names without \<open>=\<close>, the encoding not keeping \<open>&\<close>), \<open>param\<close>
  returns the value last given for a name, whatever bytes it has, and the empty string for a
  name that does not occur.
\<close>

theorem url_param_roundtrip:
  assumes "\<forall>kv\<in>set kvs. CHR ''='' \<notin> set (fst kv)" "\<not> keep CHR ''&''" "CHR ''?'' \<notin> set pre"
  shows "param (UrlParser_new (pre @ CHR ''?'' # query_of (map (apsnd (pct_encode keep)) kvs))) k =
    (case map_of (rev kvs) k of None \<Rightarrow> [] | Some v \<Rightarrow> v)"
proof -
  have "\<forall>kv\<in>set (map (apsnd (pct_encode keep)) kvs). plain_pair kv"
    using assms(1,2) by (auto simp: plain_pair_def pct_encode_plain)
  then show ?thesis
    using assms(3)
    by (auto simp: param_def UrlParser_new_def url_parse_query rev_map map_of_map_snd
        percent_decode_encode split: option.splits)
qed

theorem url_param_roundtrip_witness:
  "param (UrlParser_new (''/log?show=status&q=%261'')) ''q'' = ''&1''"
  using url_param_roundtrip [of "[(''show'', ''status''), (''q'', ''&1'')]" "\<lambda>c. c \<noteq> CHR ''&''" "''/log''" "''q''"]
  by (simp add: pct_encode_def hex_char_def)

text \<open>
  The three-state decoding machine computes the recursive reading of percent
  encoding: a complete escape is one byte, a broken one is copied, an escape cut off by the end
  of the text is dropped.
\<close>

theorem percent_decode_machine: "percent_decode str = pct_ref str"
  by (rule percent_decode_ref)

text \<open>
  Decoding is a left inverse of percent encoding, for every text and every choice
  of characters that the encoder leaves as they are.
\<close>

theorem percent_decode_inverse: "percent_decode (pct_encode keep s) = s"
  by (rule percent_decode_encode)

text \<open>
  Everything up to the first question mark is ignored, also inside a query string
  that has no leading question mark: a value with a raw \<open>?\<close> hides all parameters before it.
\<close>

theorem url_question_mark_restarts:
  assumes "CHR ''?'' \<notin> set pre"
  shows "url_parse (pre @ CHR ''?'' # q) = url_parse (CHR ''?'' # q)"
proof -
  have shift: "url_parse_loop (pre @ u) (int (length pre) + p) m = url_parse_loop u p m"
    if "0 \<le> p" for u p m
    using that by (rule url_loop_shift)
  show ?thesis
    using url_parse_after_question_mark [OF assms, of q] url_parse_after_question_mark [of "[]" q]
      shift [of 0 "CHR ''?'' # q" Map.empty] by simp
qed

theorem url_question_mark_restarts_witness:
  "url_parse (''show=status&x=?y=1'') = url_parse (''?y=1'')"
  using url_question_mark_restarts [of "''show=status&x=''" "''y=1''"] by simp

end
