(* ===== verification/Cookies.thy ===== *)
theory Cookies
  imports Prelude
begin

text \<open>
  \<open>include/Cookie.h\<close> and \<open>src/Cookie.cpp\<close>: a cookie is a name, a value and credentials
  (domain, path, expiry and two flags). The classes \<open>Authority\<close>, \<open>Path\<close> and \<open>Expires\<close> wrap one
  string each. Assignment is copy-and-swap; its law is proved once in a locale and used for
  every class. The main result is the header line that \<open>to_string\<close> builds and what it can be
  read back as.
\<close>

section \<open>Authority\<close>

record authority =
  au_string :: string

definition Authority_default :: authority where
  "Authority_default = \<lparr>au_string = []\<rparr>"

text \<open>From a C string pointer (a null pointer is \<open>None\<close>), from a string, and the copy.\<close>

definition Authority_cstr :: "string option \<Rightarrow> authority" where
  "Authority_cstr a = \<lparr>au_string = (case a of Some s \<Rightarrow> s | None \<Rightarrow> [])\<rparr>"

definition Authority_string :: "string \<Rightarrow> authority" where
  "Authority_string a = \<lparr>au_string = a\<rparr>"

definition Authority_copy :: "authority \<Rightarrow> authority" where
  "Authority_copy a = \<lparr>au_string = au_string a\<rparr>"

definition Authority_swap :: "authority \<Rightarrow> authority \<Rightarrow> authority \<times> authority" where
  "Authority_swap this a = (this\<lparr>au_string := au_string a\<rparr>, a\<lparr>au_string := au_string this\<rparr>)"

definition Authority_assign :: "authority \<Rightarrow> authority \<Rightarrow> authority" where
  "Authority_assign this a = (let a' = Authority_copy a; (this', a'') = Authority_swap this a' in this')"

definition Authority_empty :: "authority \<Rightarrow> bool" where
  "Authority_empty a \<longleftrightarrow> au_string a = []"

definition Authority_call :: "authority \<Rightarrow> string" where
  "Authority_call a = au_string a"

interpretation authority: copy_swap Authority_copy Authority_swap Authority_assign
  by unfold_locales
    (simp_all add: Authority_copy_def Authority_swap_def Authority_assign_def case_prod_unfold)

section \<open>Path\<close>

record cpath =
  pa_string :: string

definition Path_default :: cpath where
  "Path_default = \<lparr>pa_string = []\<rparr>"

definition Path_cstr :: "string option \<Rightarrow> cpath" where
  "Path_cstr p = \<lparr>pa_string = (case p of Some s \<Rightarrow> s | None \<Rightarrow> [])\<rparr>"

definition Path_string :: "string \<Rightarrow> cpath" where
  "Path_string p = \<lparr>pa_string = p\<rparr>"

definition Path_copy :: "cpath \<Rightarrow> cpath" where
  "Path_copy p = \<lparr>pa_string = pa_string p\<rparr>"

definition Path_swap :: "cpath \<Rightarrow> cpath \<Rightarrow> cpath \<times> cpath" where
  "Path_swap this p = (this\<lparr>pa_string := pa_string p\<rparr>, p\<lparr>pa_string := pa_string this\<rparr>)"

definition Path_assign :: "cpath \<Rightarrow> cpath \<Rightarrow> cpath" where
  "Path_assign this p = (let p' = Path_copy p; (this', p'') = Path_swap this p' in this')"

definition Path_empty :: "cpath \<Rightarrow> bool" where
  "Path_empty p \<longleftrightarrow> pa_string p = []"

definition Path_call :: "cpath \<Rightarrow> string" where
  "Path_call p = pa_string p"

interpretation cpath: copy_swap Path_copy Path_swap Path_assign
  by unfold_locales (simp_all add: Path_copy_def Path_swap_def Path_assign_def case_prod_unfold)

section \<open>Expires\<close>

text \<open>
  The time library is a parameter: parsing of a time, conversion from \<open>time_t\<close>, the point in
  time of a date and a time of day (which may throw), and formatting by a pattern.
\<close>

record 'p time_lib =
  time_from_string :: "string \<Rightarrow> 'p res"
  from_time_t :: "int \<Rightarrow> 'p"
  mk_ptime :: "int \<times> int \<times> int \<Rightarrow> int \<times> int \<times> int \<Rightarrow> 'p res"
  format_time :: "string \<Rightarrow> 'p \<Rightarrow> string"

record tm =
  tm_sec :: int
  tm_min :: int
  tm_hour :: int
  tm_mday :: int
  tm_mon :: int
  tm_year :: int

definition convert :: "'p time_lib \<Rightarrow> 'p \<Rightarrow> string" where
  "convert lib t = format_time lib ''%a, %d-%b-%Y %T GMT'' t"

record expires =
  ex_string :: string

definition Expires_default :: expires where
  "Expires_default = \<lparr>ex_string = []\<rparr>"

definition Expires_string :: "'p time_lib \<Rightarrow> string \<Rightarrow> expires res" where
  "Expires_string lib e = res_bind (time_from_string lib e) (\<lambda>t. Inr \<lparr>ex_string = convert lib t\<rparr>)"

text \<open>From a C string: \<open>None\<close> is a null pointer, of which no \<open>std::string\<close> may be made.\<close>

definition Expires_cstr :: "'p time_lib \<Rightarrow> string option \<Rightarrow> expires res option" where
  "Expires_cstr lib e = map_option (Expires_string lib) e"

definition Expires_time_t :: "'p time_lib \<Rightarrow> int \<Rightarrow> expires" where
  "Expires_time_t lib t = \<lparr>ex_string = convert lib (from_time_t lib t)\<rparr>"

definition Expires_tm :: "'p time_lib \<Rightarrow> tm \<Rightarrow> expires res" where
  "Expires_tm lib tm =
     res_bind (mk_ptime lib (tm_year tm, tm_mon tm, tm_mday tm) (tm_hour tm, tm_min tm, tm_sec tm))
       (\<lambda>t. Inr \<lparr>ex_string = convert lib t\<rparr>)"

definition Expires_ptime :: "'p time_lib \<Rightarrow> 'p \<Rightarrow> expires" where
  "Expires_ptime lib t = \<lparr>ex_string = convert lib t\<rparr>"

definition Expires_copy :: "expires \<Rightarrow> expires" where
  "Expires_copy e = \<lparr>ex_string = ex_string e\<rparr>"

definition Expires_assign :: "expires \<Rightarrow> expires \<Rightarrow> expires" where
  "Expires_assign this e = this\<lparr>ex_string := ex_string e\<rparr>"

definition Expires_swap :: "expires \<Rightarrow> expires \<Rightarrow> expires \<times> expires" where
  "Expires_swap this e = (this\<lparr>ex_string := ex_string e\<rparr>, e\<lparr>ex_string := ex_string this\<rparr>)"

definition Expires_bool :: "expires \<Rightarrow> bool" where
  "Expires_bool e \<longleftrightarrow> ex_string e \<noteq> []"

definition Expires_empty :: "expires \<Rightarrow> bool" where
  "Expires_empty e \<longleftrightarrow> ex_string e = []"

definition Expires_call :: "expires \<Rightarrow> string" where
  "Expires_call e = ex_string e"

interpretation expires: copy_swap Expires_copy Expires_swap Expires_assign
  by unfold_locales (simp_all add: Expires_copy_def Expires_swap_def Expires_assign_def)

section \<open>Credentials\<close>

record credentials =
  cr_authority :: authority
  cr_path :: cpath
  cr_expires :: expires
  cr_persist :: bool
  cr_secure :: bool

definition Credentials_default :: credentials where
  "Credentials_default = \<lparr>cr_authority = Authority_default, cr_path = Path_default,
     cr_expires = Expires_default, cr_persist = False, cr_secure = False\<rparr>"

definition Credentials_a :: "authority \<Rightarrow> credentials" where
  "Credentials_a a = \<lparr>cr_authority = Authority_copy a, cr_path = Path_default,
     cr_expires = Expires_default, cr_persist = False, cr_secure = False\<rparr>"

definition Credentials_p :: "cpath \<Rightarrow> credentials" where
  "Credentials_p p = \<lparr>cr_authority = Authority_default, cr_path = Path_copy p,
     cr_expires = Expires_default, cr_persist = False, cr_secure = False\<rparr>"

definition Credentials_e :: "expires \<Rightarrow> credentials" where
  "Credentials_e e = \<lparr>cr_authority = Authority_default, cr_path = Path_default,
     cr_expires = Expires_copy e, cr_persist = True, cr_secure = False\<rparr>"

definition Credentials_ap :: "authority \<Rightarrow> cpath \<Rightarrow> credentials" where
  "Credentials_ap a p = \<lparr>cr_authority = Authority_copy a, cr_path = Path_copy p,
     cr_expires = Expires_default, cr_persist = False, cr_secure = False\<rparr>"

definition Credentials_ape :: "authority \<Rightarrow> cpath \<Rightarrow> expires \<Rightarrow> credentials" where
  "Credentials_ape a p e = \<lparr>cr_authority = Authority_copy a, cr_path = Path_copy p,
     cr_expires = Expires_copy e, cr_persist = True, cr_secure = False\<rparr>"

definition Credentials_copy :: "credentials \<Rightarrow> credentials" where
  "Credentials_copy c = \<lparr>cr_authority = Authority_copy (cr_authority c),
     cr_path = Path_copy (cr_path c), cr_expires = Expires_copy (cr_expires c),
     cr_persist = cr_persist c, cr_secure = cr_secure c\<rparr>"

text \<open>
  \<open>std::swap\<close> on a member copies it and assigns twice: \<open>tmp (a); a = b; b = tmp\<close>, with the
  copy and the assignment of the member's class.
\<close>

definition std_swap :: "('a \<Rightarrow> 'a) \<Rightarrow> ('a \<Rightarrow> 'a \<Rightarrow> 'a) \<Rightarrow> 'a \<Rightarrow> 'a \<Rightarrow> 'a \<times> 'a" where
  "std_swap copy assign a b = (let tmp = copy a; a' = assign a b; b' = assign b tmp in (a', b'))"

definition Credentials_swap :: "credentials \<Rightarrow> credentials \<Rightarrow> credentials \<times> credentials" where
  "Credentials_swap this c =
     (let (a, a') = std_swap Authority_copy Authority_assign (cr_authority this) (cr_authority c);
          (p, p') = std_swap Path_copy Path_assign (cr_path this) (cr_path c);
          (e, e') = std_swap Expires_copy Expires_assign (cr_expires this) (cr_expires c)
      in (this\<lparr>cr_authority := a, cr_path := p, cr_expires := e,
               cr_persist := cr_persist c, cr_secure := cr_secure c\<rparr>,
          c\<lparr>cr_authority := a', cr_path := p', cr_expires := e',
            cr_persist := cr_persist this, cr_secure := cr_secure this\<rparr>))"

definition Credentials_assign :: "credentials \<Rightarrow> credentials \<Rightarrow> credentials" where
  "Credentials_assign this c =
     (let c' = Credentials_copy c; (this', c'') = Credentials_swap this c' in this')"

text \<open>The reading accessors return copies.\<close>

definition Credentials_authority :: "credentials \<Rightarrow> authority" where
  "Credentials_authority c = Authority_copy (cr_authority c)"

definition Credentials_path :: "credentials \<Rightarrow> cpath" where
  "Credentials_path c = Path_copy (cr_path c)"

definition Credentials_expires :: "credentials \<Rightarrow> expires" where
  "Credentials_expires c = Expires_copy (cr_expires c)"

definition Credentials_persist :: "credentials \<Rightarrow> bool" where
  "Credentials_persist c = cr_persist c"

definition Credentials_secure :: "credentials \<Rightarrow> bool" where
  "Credentials_secure c = cr_secure c"

text \<open>
  The writable references: \<open>f\<close> is what the caller writes through them. That to the expiry marks the
  cookie as persistent when it is taken.
\<close>

definition Credentials_authority_ref :: "credentials \<Rightarrow> (authority \<Rightarrow> authority) \<Rightarrow> credentials" where
  "Credentials_authority_ref c f = c\<lparr>cr_authority := f (cr_authority c)\<rparr>"

definition Credentials_path_ref :: "credentials \<Rightarrow> (cpath \<Rightarrow> cpath) \<Rightarrow> credentials" where
  "Credentials_path_ref c f = c\<lparr>cr_path := f (cr_path c)\<rparr>"

definition Credentials_expires_ref :: "credentials \<Rightarrow> (expires \<Rightarrow> expires) \<Rightarrow> credentials" where
  "Credentials_expires_ref c f = c\<lparr>cr_persist := True, cr_expires := f (cr_expires c)\<rparr>"

definition Credentials_secure_ref :: "credentials \<Rightarrow> (bool \<Rightarrow> bool) \<Rightarrow> credentials" where
  "Credentials_secure_ref c f = c\<lparr>cr_secure := f (cr_secure c)\<rparr>"

definition Credentials_to_string :: "credentials \<Rightarrow> string" where
  "Credentials_to_string c =
     ''Path='' @ Path_call (cr_path c) @ ''; Version=1; Max-Age=31536000; Domain=''
     @ Authority_call (cr_authority c) @ ''; HttpOnly;''"

lemma std_swap_members [simp]:
  "std_swap Authority_copy Authority_assign a b = (b, a)"
  "std_swap Path_copy Path_assign p q = (q, p)"
  "std_swap Expires_copy Expires_assign e e' = (e', e)"
  by (simp_all add: std_swap_def authority.assign_eq authority.copy_id cpath.assign_eq
      cpath.copy_id expires.assign_eq expires.copy_id)

interpretation credentials: copy_swap Credentials_copy Credentials_swap Credentials_assign
  by unfold_locales
    (simp_all add: Credentials_copy_def Credentials_swap_def Credentials_assign_def
      authority.copy_id cpath.copy_id expires.copy_id case_prod_unfold)

section \<open>Cookies\<close>

record cookie =
  ck_name :: string
  ck_value :: string
  ck_credentials :: credentials

definition Cookie_default :: cookie where
  "Cookie_default = \<lparr>ck_name = [], ck_value = [], ck_credentials = Credentials_default\<rparr>"

definition Cookie_n :: "string \<Rightarrow> cookie" where
  "Cookie_n name = \<lparr>ck_name = name, ck_value = [], ck_credentials = Credentials_default\<rparr>"

definition Cookie_nc :: "string \<Rightarrow> credentials \<Rightarrow> cookie" where
  "Cookie_nc name c = \<lparr>ck_name = name, ck_value = [], ck_credentials = Credentials_copy c\<rparr>"

definition Cookie_nv :: "string \<Rightarrow> string \<Rightarrow> cookie" where
  "Cookie_nv name v = \<lparr>ck_name = name, ck_value = v, ck_credentials = Credentials_default\<rparr>"

definition Cookie_nvc :: "string \<Rightarrow> string \<Rightarrow> credentials \<Rightarrow> cookie" where
  "Cookie_nvc name v c = \<lparr>ck_name = name, ck_value = v, ck_credentials = Credentials_copy c\<rparr>"

text \<open>
  The constructors from C strings. No case is made for a null pointer (\<open>None\<close>), unlike in \<open>Authority\<close> and
  \<open>Path\<close>: the behaviour is undefined.
\<close>

definition Cookie_cn :: "string option \<Rightarrow> cookie option" where
  "Cookie_cn name = map_option Cookie_n name"

definition Cookie_cnc :: "string option \<Rightarrow> credentials \<Rightarrow> cookie option" where
  "Cookie_cnc name c = map_option (\<lambda>name. Cookie_nc name c) name"

definition Cookie_cnv :: "string option \<Rightarrow> string option \<Rightarrow> cookie option" where
  "Cookie_cnv name v = (case (name, v) of (Some name, Some v) \<Rightarrow> Some (Cookie_nv name v) | _ \<Rightarrow> None)"

definition Cookie_cnvc :: "string option \<Rightarrow> string option \<Rightarrow> credentials \<Rightarrow> cookie option" where
  "Cookie_cnvc name v c =
     (case (name, v) of (Some name, Some v) \<Rightarrow> Some (Cookie_nvc name v c) | _ \<Rightarrow> None)"

definition Cookie_copy :: "cookie \<Rightarrow> cookie" where
  "Cookie_copy c = \<lparr>ck_name = ck_name c, ck_value = ck_value c,
     ck_credentials = Credentials_copy (ck_credentials c)\<rparr>"

definition Cookie_swap :: "cookie \<Rightarrow> cookie \<Rightarrow> cookie \<times> cookie" where
  "Cookie_swap this c =
     (let (cr, cr') = std_swap Credentials_copy Credentials_assign (ck_credentials this) (ck_credentials c)
      in (this\<lparr>ck_name := ck_name c, ck_value := ck_value c, ck_credentials := cr\<rparr>,
          c\<lparr>ck_name := ck_name this, ck_value := ck_value this, ck_credentials := cr'\<rparr>))"

definition Cookie_assign :: "cookie \<Rightarrow> cookie \<Rightarrow> cookie" where
  "Cookie_assign this c = (let c' = Cookie_copy c; (this', c'') = Cookie_swap this c' in this')"

definition Cookie_name :: "cookie \<Rightarrow> string" where
  "Cookie_name c = ck_name c"

definition Cookie_value :: "cookie \<Rightarrow> string" where
  "Cookie_value c = ck_value c"

definition Cookie_credentials :: "cookie \<Rightarrow> credentials" where
  "Cookie_credentials c = Credentials_copy (ck_credentials c)"

definition Cookie_credentials_ref :: "cookie \<Rightarrow> (credentials \<Rightarrow> credentials) \<Rightarrow> cookie" where
  "Cookie_credentials_ref c f = c\<lparr>ck_credentials := f (ck_credentials c)\<rparr>"

definition Cookie_to_string :: "cookie \<Rightarrow> string" where
  "Cookie_to_string c =
     ck_name c @ ''='' @ ck_value c @ ''; '' @ Credentials_to_string (ck_credentials c)"

lemma std_swap_credentials [simp]:
  "std_swap Credentials_copy Credentials_assign c d = (d, c)"
  by (simp add: std_swap_def credentials.assign_eq credentials.copy_id)

interpretation cookie: copy_swap Cookie_copy Cookie_swap Cookie_assign
  by unfold_locales
    (simp_all add: Cookie_copy_def Cookie_swap_def Cookie_assign_def credentials.copy_id
      case_prod_unfold)

section \<open>Reading a header line back\<close>

text \<open>
  What a browser stores of a \<open>Set-Cookie\<close> line is the pair before the first semicolon, and
  the name ends at the first equals sign.
\<close>

definition header_pair :: "string \<Rightarrow> string \<times> string" where
  "header_pair h =
     (let p = takeWhile (\<lambda>c. c \<noteq> CHR '';'') h
      in (takeWhile (\<lambda>c. c \<noteq> CHR ''='') p, drop 1 (dropWhile (\<lambda>c. c \<noteq> CHR ''='') p)))"

lemma header_pair_to_string:
  assumes "CHR '';'' \<notin> set (ck_name c)" "CHR ''='' \<notin> set (ck_name c)" "CHR '';'' \<notin> set (ck_value c)"
  shows "header_pair (Cookie_to_string c) = (ck_name c, ck_value c)"
proof -
  have 1: "takeWhile (\<lambda>x. x \<noteq> CHR '';'') (ck_name c @ ''='' @ ck_value c @ CHR '';'' # t) =
      ck_name c @ ''='' @ ck_value c" for t
    using assms(1,3) by (auto simp: takeWhile_append)
  have 2: "takeWhile (\<lambda>x. x \<noteq> CHR ''='') (ck_name c @ ''='' @ ck_value c) = ck_name c"
    using assms(2) by (auto simp: takeWhile_append)
  have 3: "dropWhile (\<lambda>x. x \<noteq> CHR ''='') (ck_name c @ ''='' @ ck_value c) = ''='' @ ck_value c"
    using assms(2) by (auto simp: dropWhile_append)
  show ?thesis using 1 [of "'' '' @ Credentials_to_string (ck_credentials c)"] 2 3
    by (simp add: header_pair_def Cookie_to_string_def Let_def)
qed

section \<open>Properties\<close>

text \<open>
  The header line carries the cookie's name and value: with no semicolon in them and
  no equals sign in the name, what is stored from the line is exactly the pair.
\<close>

theorem cookie_header_pair:
  assumes "CHR '';'' \<notin> set name" "CHR ''='' \<notin> set name" "CHR '';'' \<notin> set v"
  shows "header_pair (Cookie_to_string (Cookie_nvc name v c)) = (name, v)"
  using header_pair_to_string [of "Cookie_nvc name v c"] assms by (simp add: Cookie_nvc_def)

theorem cookie_header_pair_witness:
  "header_pair (Cookie_to_string (Cookie_nvc ''yottos_unique_id'' ''1500000000''
     (Credentials_ap (Authority_string ''.yottos.com'') (Path_string ''/''))))
   = (''yottos_unique_id'', ''1500000000'')"
  by (rule cookie_header_pair) simp_all

text \<open>
  The header line does not depend on the expiry time, the persistence mark or the
  secure flag that the credentials hold: it is fixed by name, value, path and domain, with a
  constant life time of one year.
\<close>

theorem cookie_header_ignores_expiry:
  "Cookie_to_string (Cookie_nvc name v (Credentials_ape a p e)) =
     name @ ''='' @ v @ ''; Path='' @ Path_call p
       @ ''; Version=1; Max-Age=31536000; Domain='' @ Authority_call a @ ''; HttpOnly;''
   \<and> Cookie_to_string (Cookie_nvc name v (Credentials_secure_ref (Credentials_expires_ref (Credentials_ap a p) f) g))
     = Cookie_to_string (Cookie_nvc name v (Credentials_ape a p e))"
  by (simp add: Cookie_to_string_def Cookie_nvc_def Credentials_copy_def Credentials_ape_def
      Credentials_ap_def Credentials_to_string_def Credentials_expires_ref_def
      Credentials_secure_ref_def authority.copy_id cpath.copy_id expires.copy_id)

text \<open>
  Assignment by copy and swap is assignment: the target becomes equal to the source,
  self-assignment changes nothing, and swapping twice restores both cookies.
\<close>

theorem cookie_assignment:
  "Cookie_assign this c = c \<and> Cookie_assign c c = c
   \<and> (let (a, b) = Cookie_swap this c in Cookie_swap a b) = (this, c)"
  using cookie.assign_eq cookie.swap_twice by blast

text \<open>
  Taking the writable reference to the expiry makes a cookie persistent even if nothing is written, while
  assigning the whole credentials does not; the other references change what is written only.
\<close>

theorem expires_reference_persists:
  "Credentials_persist (Credentials_expires_ref c (\<lambda>e. e))
   \<and> Credentials_expires (Credentials_expires_ref c (\<lambda>e. e)) = Credentials_expires c
   \<and> Credentials_persist (Credentials_authority_ref c f) = Credentials_persist c
   \<and> Cookie_credentials (Cookie_credentials_ref k (\<lambda>_. c)) = c"
  by (simp add: Credentials_persist_def Credentials_expires_ref_def Credentials_expires_def
      Credentials_authority_ref_def Cookie_credentials_def Cookie_credentials_ref_def credentials.copy_id)

end
