(* ===== verification/Offers.thy ===== *)
theory Offers
  imports Prelude
begin

text \<open>
  \<open>include/EBranch.h\<close>, \<open>src/EBranch.cpp\<close>, \<open>include/Offer.h\<close> and \<open>src/Offer.cpp\<close>: the
  logical branches of the selection algorithm, the advertising offer and the choice of its
  branch. The main results are the table of \<open>setBranch\<close> (one closed form and the two entries
  that leave it), what it changes, and the names of the branches.
\<close>

section \<open>Branches\<close>

datatype EBranchT = T1 | T2 | T3 | T4 | T5 | TMAX

datatype EBranchL =
  L0 | L1 | L2 | L3 | L4 | L5 | L6 | L7 | L8 | L9 | L10 | L11 | L12 | L13 | L14 | L15 | L16
  | L17 | L18 | L19 | L20 | L21 | L22 | L23 | L24 | L25 | L26 | L27 | L28 | L29 | L30 | L31
  | L32 | L33 | L34 | L35 | L36 | L37 | LMAX

primrec EBranchL2String :: "EBranchL \<Rightarrow> string" where
  "EBranchL2String L0 = ''NL0''"
| "EBranchL2String L1 = ''NL1''"
| "EBranchL2String L2 = ''NL2''"
| "EBranchL2String L3 = ''NL3''"
| "EBranchL2String L4 = ''NL4''"
| "EBranchL2String L5 = ''NL5''"
| "EBranchL2String L6 = ''NL6''"
| "EBranchL2String L7 = ''NL7''"
| "EBranchL2String L8 = ''NL8''"
| "EBranchL2String L9 = ''NL9''"
| "EBranchL2String L10 = ''NL10''"
| "EBranchL2String L11 = ''NL11''"
| "EBranchL2String L12 = ''NL12''"
| "EBranchL2String L13 = ''NL13''"
| "EBranchL2String L14 = ''NL14''"
| "EBranchL2String L15 = ''NL15''"
| "EBranchL2String L16 = ''NL16''"
| "EBranchL2String L17 = ''NL17''"
| "EBranchL2String L18 = ''NL18''"
| "EBranchL2String L19 = ''NL19''"
| "EBranchL2String L20 = ''NL20''"
| "EBranchL2String L21 = ''NL21''"
| "EBranchL2String L22 = ''NL22''"
| "EBranchL2String L23 = ''NL23''"
| "EBranchL2String L24 = ''NL24''"
| "EBranchL2String L25 = ''NL25''"
| "EBranchL2String L26 = ''NL26''"
| "EBranchL2String L27 = ''NL27''"
| "EBranchL2String L28 = ''NL28''"
| "EBranchL2String L29 = ''NL29''"
| "EBranchL2String L30 = ''NL30''"
| "EBranchL2String L31 = ''NL31''"
| "EBranchL2String L32 = ''NL32''"
| "EBranchL2String L33 = ''NL33''"
| "EBranchL2String L34 = ''NL34''"
| "EBranchL2String L35 = ''NL35''"
| "EBranchL2String L36 = ''NL36''"
| "EBranchL2String L37 = ''NL37''"
| "EBranchL2String LMAX = ''NOP''"

text \<open>The value of the enumerator.\<close>

primrec branch_index :: "EBranchL \<Rightarrow> nat" where
  "branch_index L0 = 0"
| "branch_index L1 = 1"
| "branch_index L2 = 2"
| "branch_index L3 = 3"
| "branch_index L4 = 4"
| "branch_index L5 = 5"
| "branch_index L6 = 6"
| "branch_index L7 = 7"
| "branch_index L8 = 8"
| "branch_index L9 = 9"
| "branch_index L10 = 10"
| "branch_index L11 = 11"
| "branch_index L12 = 12"
| "branch_index L13 = 13"
| "branch_index L14 = 14"
| "branch_index L15 = 15"
| "branch_index L16 = 16"
| "branch_index L17 = 17"
| "branch_index L18 = 18"
| "branch_index L19 = 19"
| "branch_index L20 = 20"
| "branch_index L21 = 21"
| "branch_index L22 = 22"
| "branch_index L23 = 23"
| "branch_index L24 = 24"
| "branch_index L25 = 25"
| "branch_index L26 = 26"
| "branch_index L27 = 27"
| "branch_index L28 = 28"
| "branch_index L29 = 29"
| "branch_index L30 = 30"
| "branch_index L31 = 31"
| "branch_index L32 = 32"
| "branch_index L33 = 33"
| "branch_index L34 = 34"
| "branch_index L35 = 35"
| "branch_index L36 = 36"
| "branch_index L37 = 37"
| "branch_index LMAX = 38"

definition all_branches :: "EBranchL list" where
  "all_branches =
   [L0, L1, L2, L3, L4, L5, L6, L7, L8, L9, L10, L11, L12, L13, L14, L15, L16, L17, L18, L19,
    L20, L21, L22, L23, L24, L25, L26, L27, L28, L29, L30, L31, L32, L33, L34, L35, L36, L37,
    LMAX]"

lemma branch_index_less: "branch_index b < 39"
  by (cases b) simp_all

lemma all_branches_nth: "all_branches ! branch_index b = b"
  by (cases b) (simp_all add: all_branches_def)

lemma branch_index_inject [simp]: "branch_index a = branch_index b \<longleftrightarrow> a = b"
  by (metis all_branches_nth)

instantiation EBranchL :: linorder
begin

definition less_eq_EBranchL :: "EBranchL \<Rightarrow> EBranchL \<Rightarrow> bool" where
  "less_eq_EBranchL a b \<longleftrightarrow> branch_index a \<le> branch_index b"

definition less_EBranchL :: "EBranchL \<Rightarrow> EBranchL \<Rightarrow> bool" where
  "less_EBranchL a b \<longleftrightarrow> branch_index a < branch_index b"

instance
  by standard (auto simp: less_eq_EBranchL_def less_EBranchL_def)

end

section \<open>Offers\<close>

datatype offer_type = banner | teazer | unknown

definition typeFromString :: "string \<Rightarrow> offer_type" where
  "typeFromString stype =
     (if stype = ''banner'' then banner else if stype = ''teaser'' then teazer else unknown)"

definition typeFromInt :: "int \<Rightarrow> offer_type" where
  "typeFromInt stype = (if stype = 0 then banner else if stype = 1 then teazer else unknown)"

primrec typeToString :: "offer_type \<Rightarrow> string" where
  "typeToString banner = ''banner''"
| "typeToString teazer = ''teaser''"
| "typeToString unknown = ''unknown''"

text \<open>
  The members of \<open>Offer\<close>; \<open>'f\<close> is the type of \<open>float\<close> values. Members that the constructor
  does not mention are default-initialised: strings are empty, \<open>showCount\<close> and
  \<open>category_id\<close> keep whatever the memory held.
\<close>

record 'f offer =
  of_id :: string
  id_int :: u64
  title :: string
  description :: string
  of_url :: string
  image_url :: string
  swf :: string
  campaign_id :: u64
  of_type :: offer_type
  conformity :: string
  branch :: EBranchL
  matching :: string
  rating :: 'f
  uniqueHits :: int
  height :: "32 word"
  width :: "32 word"
  isOnClick :: bool
  social :: bool
  campaign_guid :: string
  account_id :: string
  campaign_title :: string
  project :: string
  unique_by_campaign :: "32 word"
  Recommended :: string
  retid :: string
  retargeting_type :: string
  retargeting :: bool
  brending :: bool
  is_recommended :: bool
  html_notification :: bool
  loaded :: bool
  token_int :: int
  ms :: int
  token :: string
  redirect_url :: string
  showCount :: "32 word"
  category_id :: u64

text \<open>\<open>now\<close> is the clock at construction, \<open>junk\<close> the contents of the uninitialised members.\<close>

definition Offer_new ::
  "int \<Rightarrow> 32 word \<times> u64 \<Rightarrow> u64 \<Rightarrow> u64 \<Rightarrow> int \<Rightarrow> 'f \<Rightarrow> int \<Rightarrow> int \<Rightarrow> int \<Rightarrow> bool \<Rightarrow> bool \<Rightarrow> string \<Rightarrow>
   int \<Rightarrow> string \<Rightarrow> string \<Rightarrow> string \<Rightarrow> bool \<Rightarrow> bool \<Rightarrow> bool \<Rightarrow> bool \<Rightarrow> 'f offer" where
  "Offer_new now junk p_id_int p_campaign_id type_int p_rating p_uniqueHits p_height p_width p_isOnClick
     p_social p_account_id p_unique_by_campaign p_Recommended p_retid p_retargeting_type p_retargeting
     p_brending p_is_recommended p_html_notification =
   \<lparr>of_id = [], id_int = p_id_int, title = [], description = [], of_url = [], image_url = [],
    swf = [], campaign_id = p_campaign_id, of_type = typeFromInt type_int, conformity = [],
    branch = L30, matching = [], rating = p_rating, uniqueHits = p_uniqueHits,
    height = word_of_int p_height, width = word_of_int p_width, isOnClick = p_isOnClick,
    social = p_social, campaign_guid = [], account_id = p_account_id, campaign_title = [],
    project = [], unique_by_campaign = word_of_int p_unique_by_campaign,
    Recommended = p_Recommended, retid = p_retid, retargeting_type = p_retargeting_type,
    retargeting = p_retargeting, brending = p_brending, is_recommended = p_is_recommended,
    html_notification = p_html_notification, loaded = False, token_int = 0, ms = now,
    token = [], redirect_url = [], showCount = fst junk, category_id = snd junk\<rparr>"

definition getBranch :: "'f offer \<Rightarrow> string" where
  "getBranch o' = EBranchL2String (branch o')"

text \<open>
  \<open>setBranch\<close>: the offer afterwards and the result; \<open>mul1000\<close> is \<open>1000 * rating\<close> in
  \<open>float\<close> arithmetic.
\<close>

definition setBranch :: "('f \<Rightarrow> 'f) \<Rightarrow> 'f offer \<Rightarrow> EBranchT \<Rightarrow> 'f offer \<times> bool" where
  "setBranch mul1000 o' tbranch = (case tbranch of
     T1 \<Rightarrow> (case of_type o' of
         banner \<Rightarrow>
           (if isOnClick o' then (o'\<lparr>branch := L7\<rparr>, True)
            else (o'\<lparr>branch := L2, rating := mul1000 (rating o')\<rparr>, True))
       | teazer \<Rightarrow>
           (if isOnClick o' then (o'\<lparr>branch := L17\<rparr>, True)
            else (o'\<lparr>branch := L12, rating := mul1000 (rating o')\<rparr>, True))
       | unknown \<Rightarrow> (o', False))
   | T2 \<Rightarrow> (case of_type o' of
         banner \<Rightarrow>
           (if isOnClick o' then (o'\<lparr>branch := L8\<rparr>, True)
            else (o'\<lparr>branch := L3, rating := mul1000 (rating o')\<rparr>, True))
       | teazer \<Rightarrow>
           (if isOnClick o' then (o'\<lparr>branch := L18\<rparr>, True) else (o'\<lparr>branch := L13\<rparr>, True))
       | unknown \<Rightarrow> (o', False))
   | T3 \<Rightarrow> (case of_type o' of
         banner \<Rightarrow>
           (if isOnClick o' then (o'\<lparr>branch := L4, rating := mul1000 (rating o')\<rparr>, True)
            else (o'\<lparr>branch := L3, rating := mul1000 (rating o')\<rparr>, True))
       | teazer \<Rightarrow>
           (if isOnClick o' then (o'\<lparr>branch := L19\<rparr>, True) else (o'\<lparr>branch := L14\<rparr>, True))
       | unknown \<Rightarrow> (o', False))
   | T4 \<Rightarrow> (case of_type o' of
         banner \<Rightarrow>
           (if isOnClick o' then (o'\<lparr>branch := L10\<rparr>, True)
            else (o'\<lparr>branch := L5, rating := mul1000 (rating o')\<rparr>, True))
       | teazer \<Rightarrow>
           (if isOnClick o' then (o'\<lparr>branch := L20\<rparr>, True) else (o'\<lparr>branch := L15\<rparr>, True))
       | unknown \<Rightarrow> (o', False))
   | T5 \<Rightarrow> (case of_type o' of
         banner \<Rightarrow>
           (if isOnClick o' then (o'\<lparr>branch := L11\<rparr>, True)
            else (o'\<lparr>branch := L6, rating := mul1000 (rating o')\<rparr>, True))
       | teazer \<Rightarrow>
           (if isOnClick o' then (o'\<lparr>branch := L21\<rparr>, True) else (o'\<lparr>branch := L16\<rparr>, True))
       | unknown \<Rightarrow> (o', False))
   | TMAX \<Rightarrow> (o', False))"

section \<open>Names\<close>

lemma EBranchL2String_eq:
  "EBranchL2String b = (if b = LMAX then ''NOP'' else ''NL'' @ string_of_nat (branch_index b))"
  by (cases b) (simp_all add: libc_simps)

lemma EBranchL2String_inject: "EBranchL2String a = EBranchL2String b \<longleftrightarrow> a = b"
  by (auto simp: EBranchL2String_eq split: if_splits)

section \<open>The scheme of the branch numbers\<close>

primrec topic :: "EBranchT \<Rightarrow> nat" where
  "topic T1 = 1"
| "topic T2 = 2"
| "topic T3 = 3"
| "topic T4 = 4"
| "topic T5 = 5"
| "topic TMAX = 6"

text \<open>
  The numbering of the table in \<open>EBranch.cpp\<close>: blocks of five for banners by impressions,
  banners by clicks, teasers by impressions and teasers by clicks.
\<close>

definition documented_branch :: "offer_type \<Rightarrow> bool \<Rightarrow> EBranchT \<Rightarrow> nat" where
  "documented_branch ty click t =
     (if ty = banner then (if click then 6 else 1) else (if click then 16 else 11)) + topic t"

definition known :: "'f offer \<Rightarrow> EBranchT \<Rightarrow> bool" where
  "known o' t \<longleftrightarrow> of_type o' \<noteq> unknown \<and> t \<noteq> TMAX"

definition boosted :: "'f offer \<Rightarrow> EBranchT \<Rightarrow> bool" where
  "boosted o' t \<longleftrightarrow> known o' t \<and>
     (of_type o' = banner \<and> (\<not> isOnClick o' \<or> t = T3) \<or>
      of_type o' = teazer \<and> \<not> isOnClick o' \<and> t = T1)"

lemma setBranch_unknown: "\<not> known o' t \<Longrightarrow> setBranch f o' t = (o', False)"
  by (auto simp: known_def setBranch_def split: EBranchT.splits offer_type.splits)

lemma setBranch_known:
  "known o' t \<Longrightarrow> setBranch f o' t =
     (o'\<lparr>branch := branch (fst (setBranch f o' t)),
         rating := (if boosted o' t then f (rating o') else rating o')\<rparr>, True)"
  by (cases t; cases "of_type o'"; cases "isOnClick o'")
    (simp_all add: known_def setBranch_def boosted_def)

lemma branch_setBranch:
  "known o' t \<Longrightarrow> branch_index (branch (fst (setBranch f o' t))) =
     (if of_type o' = banner \<and> t = T3 then (if isOnClick o' then 4 else 3)
      else documented_branch (of_type o') (isOnClick o') t)"
  by (cases t; cases "of_type o'"; cases "isOnClick o'")
    (simp_all add: known_def setBranch_def documented_branch_def)

section \<open>Properties\<close>

text \<open>
  \<open>setBranch\<close> succeeds exactly for a banner or teaser and a real branch; then it
  changes the branch and, in the boosted cases, multiplies the rating by 1000, and nothing else;
  otherwise the offer is unchanged.
\<close>

theorem setBranch_frame:
  "setBranch f o' t =
     (if known o' t
      then (o'\<lparr>branch := branch (fst (setBranch f o' t)),
               rating := (if boosted o' t then f (rating o') else rating o')\<rparr>, True)
      else (o', False))"
  using setBranch_unknown setBranch_known by metis

text \<open>
  The branch chosen is the one that the table in \<open>EBranch.cpp\<close> numbers, except for
  banners of branch \<open>T3\<close>: those by clicks get the number of banners by impressions (4 for 9), and
  those by impressions get the one of branch \<open>T2\<close> (3 for 4).
\<close>

theorem setBranch_scheme:
  assumes "known o' t"
  shows "branch_index (branch (fst (setBranch f o' t))) =
    (if of_type o' = banner \<and> t = T3 then (if isOnClick o' then 4 else 3)
     else documented_branch (of_type o') (isOnClick o') t)"
  using assms by (rule branch_setBranch)

theorem setBranch_scheme_witness:
  "branch_index (branch (fst (setBranch (\<lambda>r. 1000 * r)
      (Offer_new 0 (0, 0) 1 2 0 (3 :: int) 1 60 80 True False [] 1 [] [] [] False False False False) T3))) = 4"
  by (subst setBranch_scheme) (simp_all add: known_def Offer_new_def typeFromInt_def)

text \<open>
  A branch is printed as \<open>NL\<close> and its number, \<open>LMAX\<close> as \<open>NOP\<close>, so that different
  branches have different names in the log.
\<close>

theorem branch_names:
  "EBranchL2String b = (if b = LMAX then ''NOP'' else ''NL'' @ string_of_nat (branch_index b))
   \<and> (EBranchL2String b = EBranchL2String b' \<longleftrightarrow> b = b')"
  using EBranchL2String_eq EBranchL2String_inject by metis

end
