(* ===== verification/JsonValue.thy ===== *)
theory JsonValue
  imports Prelude
begin

text \<open>
  \<open>include/json.h\<close>, the value type: \<open>basic_json\<close> with its type tag, the accessors the program
  uses (\<open>operator[]\<close>, \<open>count\<close>, \<open>size\<close>, \<open>empty\<close>, \<open>push_back\<close>, the \<open>is_\<close> tests), the
  conversions \<open>get\<close> (with this repository's change: null and booleans convert to strings, null
  to the number 0) and the comparison. Objects are \<open>std::map\<close>s: association lists in strictly
  ascending order of their keys, an invariant that every operation keeps.
\<close>

section \<open>Floating-point numbers\<close>

text \<open>
  The operations on \<open>double\<close> that the library uses; \<open>'d\<close> is the type of finite and infinite
  doubles. \<open>d_strtod\<close> reads a number, \<open>d_print\<close> is the stream output with 15 digits.
\<close>

record 'd dbl_lib =
  d_of_i64 :: "u64 \<Rightarrow> 'd"
  d_of_u64 :: "u64 \<Rightarrow> 'd"
  d_to_i64 :: "'d \<Rightarrow> u64"
  d_to_u64 :: "'d \<Rightarrow> u64"
  d_eq :: "'d \<Rightarrow> 'd \<Rightarrow> bool"
  d_lt :: "'d \<Rightarrow> 'd \<Rightarrow> bool"
  d_is_zero :: "'d \<Rightarrow> bool"
  d_signbit :: "'d \<Rightarrow> bool"
  d_isfinite :: "'d \<Rightarrow> bool"
  d_strtod :: "string \<Rightarrow> 'd"
  d_print :: "'d \<Rightarrow> string"
  d_zero :: 'd

text \<open>An instance for concrete computations: numbers without a fraction.\<close>

definition int_dbl :: "int dbl_lib" where
  "int_dbl = \<lparr>d_of_i64 = sint, d_of_u64 = uint, d_to_i64 = word_of_int, d_to_u64 = word_of_int,
     d_eq = (=), d_lt = (<), d_is_zero = (\<lambda>d. d = 0), d_signbit = (\<lambda>d. d < 0), d_isfinite = (\<lambda>d. True),
     d_strtod = (\<lambda>s. fst (strtol10 s)), d_print = string_of_int, d_zero = 0\<rparr>"

section \<open>Types of values\<close>

datatype value_t =
    V_null | V_object | V_array | V_string | V_boolean
  | V_number_integer | V_number_unsigned | V_number_float | V_discarded

text \<open>The ordering of types: null, boolean, number, object, array, string.\<close>

primrec type_order :: "value_t \<Rightarrow> nat" where
  "type_order V_null = 0"
| "type_order V_object = 3"
| "type_order V_array = 4"
| "type_order V_string = 5"
| "type_order V_boolean = 1"
| "type_order V_number_integer = 2"
| "type_order V_number_unsigned = 2"
| "type_order V_number_float = 2"
| "type_order V_discarded = 6"

definition type_less :: "value_t \<Rightarrow> value_t \<Rightarrow> bool" where
  "type_less lhs rhs \<longleftrightarrow>
     (if lhs = V_discarded \<or> rhs = V_discarded then False else type_order lhs < type_order rhs)"

section \<open>Values\<close>

text \<open>
  Integers are 64-bit words, the signed ones in two's complement. An object is the list of its
  entries in the order of the map.
\<close>

datatype (json_doubles: 'd) json =
    JNull
  | JObject "(string \<times> 'd json) list"
  | JArray "'d json list"
  | JString string
  | JBool bool
  | JInt u64
  | JUint u64
  | JFloat 'd
  | JDiscarded

primrec json_type :: "'d json \<Rightarrow> value_t" where
  "json_type JNull = V_null"
| "json_type (JObject m) = V_object"
| "json_type (JArray xs) = V_array"
| "json_type (JString s) = V_string"
| "json_type (JBool b) = V_boolean"
| "json_type (JInt i) = V_number_integer"
| "json_type (JUint u) = V_number_unsigned"
| "json_type (JFloat d) = V_number_float"
| "json_type JDiscarded = V_discarded"

primrec type_name :: "'d json \<Rightarrow> string" where
  "type_name JNull = ''null''"
| "type_name (JObject m) = ''object''"
| "type_name (JArray xs) = ''array''"
| "type_name (JString s) = ''string''"
| "type_name (JBool b) = ''boolean''"
| "type_name JDiscarded = ''discarded''"
| "type_name (JInt i) = ''number''"
| "type_name (JUint u) = ''number''"
| "type_name (JFloat d) = ''number''"

text \<open>The default value of a type: the constructor from a \<open>value_t\<close>.\<close>

primrec json_of_type :: "'d dbl_lib \<Rightarrow> value_t \<Rightarrow> 'd json" where
  "json_of_type fl V_null = JNull"
| "json_of_type fl V_object = JObject []"
| "json_of_type fl V_array = JArray []"
| "json_of_type fl V_string = JString []"
| "json_of_type fl V_boolean = JBool False"
| "json_of_type fl V_number_integer = JInt 0"
| "json_of_type fl V_number_unsigned = JUint 0"
| "json_of_type fl V_number_float = JFloat (d_zero fl)"
| "json_of_type fl V_discarded = JDiscarded"

definition is_null :: "'d json \<Rightarrow> bool" where
  "is_null j \<longleftrightarrow> json_type j = V_null"

definition is_boolean :: "'d json \<Rightarrow> bool" where
  "is_boolean j \<longleftrightarrow> json_type j = V_boolean"

definition is_object :: "'d json \<Rightarrow> bool" where
  "is_object j \<longleftrightarrow> json_type j = V_object"

definition is_array :: "'d json \<Rightarrow> bool" where
  "is_array j \<longleftrightarrow> json_type j = V_array"

definition is_string :: "'d json \<Rightarrow> bool" where
  "is_string j \<longleftrightarrow> json_type j = V_string"

definition is_number_unsigned :: "'d json \<Rightarrow> bool" where
  "is_number_unsigned j \<longleftrightarrow> json_type j = V_number_unsigned"

definition is_number_float :: "'d json \<Rightarrow> bool" where
  "is_number_float j \<longleftrightarrow> json_type j = V_number_float"

definition is_number_integer :: "'d json \<Rightarrow> bool" where
  "is_number_integer j \<longleftrightarrow> json_type j = V_number_integer \<or> json_type j = V_number_unsigned"

definition is_number :: "'d json \<Rightarrow> bool" where
  "is_number j \<longleftrightarrow> is_number_integer j \<or> is_number_float j"

definition is_primitive :: "'d json \<Rightarrow> bool" where
  "is_primitive j \<longleftrightarrow> is_null j \<or> is_string j \<or> is_boolean j \<or> is_number j"

definition is_structured :: "'d json \<Rightarrow> bool" where
  "is_structured j \<longleftrightarrow> is_array j \<or> is_object j"

section \<open>Maps in key order\<close>

text \<open>
  \<open>std::map::operator[]\<close> followed by an assignment, and the search. Keys compare byte by byte,
  as unsigned characters.
\<close>

fun map_assign :: "string \<Rightarrow> 'v \<Rightarrow> (string \<times> 'v) list \<Rightarrow> (string \<times> 'v) list" where
  "map_assign key v [] = [(key, v)]"
| "map_assign key v (e # m) =
     (if fst e < key then e # map_assign key v m
      else if fst e = key then (key, v) # m
      else (key, v) # e # m)"

definition map_sorted :: "(string \<times> 'v) list \<Rightarrow> bool" where
  "map_sorted m \<longleftrightarrow> sorted_wrt (<) (map fst m)"

lemma map_of_map_assign [simp]: "map_of (map_assign key v m) = (map_of m)(key \<mapsto> v)"
  by (induction m) (auto simp: fun_eq_iff)

lemma map_assign_fixed: "map_assign key v m = m \<Longrightarrow> map_of m key = Some v"
  by (metis fun_upd_same map_of_map_assign)

lemma set_map_assign: "fst ` set (map_assign key v m) = insert key (fst ` set m)"
  by (induction m) auto

lemma map_sorted_assign: "map_sorted m \<Longrightarrow> map_sorted (map_assign key v m)"
proof (induction m)
  case (Cons e m)
  then have "\<forall>k\<in>fst ` set (map_assign key v m). fst e < k" if "fst e < key"
    using that by (auto simp: set_map_assign map_sorted_def)
  with Cons show ?case by (auto simp: map_sorted_def)
qed (simp add: map_sorted_def)

lemma map_sorted_Nil [simp]: "map_sorted []"
  by (simp add: map_sorted_def)

lemma map_sorted_Cons:
  "map_sorted ((k, v) # m) \<longleftrightarrow> (\<forall>k'\<in>fst ` set m. k < k') \<and> map_sorted m"
  by (auto simp: map_sorted_def)

interpretation std_map: keyed_store "[] :: (string \<times> 'v) list" map_assign map_of map_sorted
  by unfold_locales (auto simp: map_sorted_assign)

text \<open>A sorted map is determined by its bindings.\<close>

lemma map_assign_last:
  "\<forall>k'\<in>fst ` set m. k' < k \<Longrightarrow> map_assign k v m = m @ [(k, v)]"
  by (induction m) auto

section \<open>Recursion over values\<close>

lemma json_size_entry: "e \<in> set m \<Longrightarrow> size (snd e) < size (JObject m)"
  by (induction m) (auto simp: less_Suc_eq_le)

lemma json_size_element: "x \<in> set xs \<Longrightarrow> size x < size (JArray xs)"
  by (induction xs) (auto simp: less_Suc_eq_le)

lemmas json_size = json_size_entry json_size_element

text \<open>Well-formed values: all objects, at every depth, are sorted.\<close>

function json_wf :: "'d json \<Rightarrow> bool" where
  "json_wf JNull = True"
| "json_wf (JObject m) = (map_sorted m \<and> (\<forall>e\<in>set m. json_wf (snd e)))"
| "json_wf (JArray xs) = (\<forall>x\<in>set xs. json_wf x)"
| "json_wf (JString s) = True"
| "json_wf (JBool b) = True"
| "json_wf (JInt i) = True"
| "json_wf (JUint u) = True"
| "json_wf (JFloat d) = True"
| "json_wf JDiscarded = True"
  by pat_completeness auto
termination
  by (relation "measure size") (auto dest!: json_size simp del: json.size)

section \<open>Element access\<close>

text \<open>
  \<open>j[key]\<close> on a value that may change: null becomes an object, a missing key is added with a
  null value. The result is the container afterwards and the element.
\<close>

definition json_index :: "'d json \<Rightarrow> string \<Rightarrow> ('d json \<times> 'd json) res" where
  "json_index j key =
     (let j = (if is_null j then JObject [] else j) in
      case j of
        JObject m \<Rightarrow>
          (case map_of m key of
             Some v \<Rightarrow> Inr (j, v)
           | None \<Rightarrow> Inr (JObject (map_assign key JNull m), JNull))
      | _ \<Rightarrow> Inl (Domain_error (''cannot use operator[] with '' @ type_name j)))"

text \<open>The assignment \<open>j[key] = v\<close>.\<close>

definition json_put :: "'d json \<Rightarrow> string \<Rightarrow> 'd json \<Rightarrow> 'd json res" where
  "json_put j key v =
     res_bind (json_index j key) (\<lambda>(j', old).
       case j' of JObject m \<Rightarrow> Inr (JObject (map_assign key v m)) | _ \<Rightarrow> Inr j')"

definition json_count :: "'d json \<Rightarrow> string \<Rightarrow> nat" where
  "json_count j key =
     (case j of JObject m \<Rightarrow> (case map_of m key of Some v \<Rightarrow> 1 | None \<Rightarrow> 0) | _ \<Rightarrow> 0)"

definition json_empty :: "'d json \<Rightarrow> bool" where
  "json_empty j = (case j of
      JNull \<Rightarrow> True
    | JArray xs \<Rightarrow> xs = []
    | JObject m \<Rightarrow> m = []
    | _ \<Rightarrow> False)"

definition json_size :: "'d json \<Rightarrow> nat" where
  "json_size j = (case j of
      JNull \<Rightarrow> 0
    | JArray xs \<Rightarrow> length xs
    | JObject m \<Rightarrow> length m
    | _ \<Rightarrow> 1)"

definition json_clear :: "'d dbl_lib \<Rightarrow> 'd json \<Rightarrow> 'd json" where
  "json_clear fl j = (case j of
      JInt i \<Rightarrow> JInt 0
    | JUint u \<Rightarrow> JUint 0
    | JFloat d \<Rightarrow> JFloat (d_zero fl)
    | JBool b \<Rightarrow> JBool False
    | JString s \<Rightarrow> JString []
    | JArray xs \<Rightarrow> JArray []
    | JObject m \<Rightarrow> JObject []
    | _ \<Rightarrow> j)"

definition json_push_back :: "'d json \<Rightarrow> 'd json \<Rightarrow> 'd json res" where
  "json_push_back j v =
     (if \<not> (is_null j \<or> is_array j)
      then Inl (Domain_error (''cannot use push_back() with '' @ type_name j))
      else let j = (if is_null j then JArray [] else j) in
        case j of JArray xs \<Rightarrow> Inr (JArray (xs @ [v])) | _ \<Rightarrow> Inr j)"

text \<open>
  The values a \<open>for\<close> loop over a value visits: nothing for null, the elements of an array, the
  member values of an object, the value itself for the primitive types.
\<close>

definition json_range :: "'d json \<Rightarrow> 'd json list" where
  "json_range j = (case j of
      JNull \<Rightarrow> []
    | JArray xs \<Rightarrow> xs
    | JObject m \<Rightarrow> map snd m
    | _ \<Rightarrow> [j])"

section \<open>Conversions\<close>

text \<open>\<open>get<bool>\<close>, also the conversion in a condition such as \<open>if (!j)\<close>.\<close>

definition get_bool :: "'d json \<Rightarrow> bool res" where
  "get_bool j = (case j of
      JBool b \<Rightarrow> Inr b
    | _ \<Rightarrow> Inl (Domain_error (''type must be boolean, but is '' @ type_name j)))"

definition get_string :: "'d json \<Rightarrow> string res" where
  "get_string j =
     (if \<not> is_string j
      then (if is_null j then Inr []
            else case j of
              JBool b \<Rightarrow> Inr (if b then ''true'' else ''false'')
            | _ \<Rightarrow> Inl (Domain_error (''type must be string, but is '' @ type_name j)))
      else case j of JString s \<Rightarrow> Inr s | _ \<Rightarrow> Inr [])"

text \<open>\<open>get<long>\<close>, where \<open>long\<close> is the library's own signed type: \<open>get_arithmetic_value\<close>.\<close>

definition get_long :: "'d dbl_lib \<Rightarrow> 'd json \<Rightarrow> u64 res" where
  "get_long fl j = (case j of
      JUint u \<Rightarrow> Inr u
    | JInt i \<Rightarrow> Inr i
    | JFloat d \<Rightarrow> Inr (d_to_i64 fl d)
    | _ \<Rightarrow> (if is_null j then Inr 0
            else Inl (Domain_error (''type must be number, but is '' @ type_name j))))"

text \<open>\<open>get<long long>\<close>, another type of the same width: the overload for other numbers.\<close>

definition get_long_long :: "'d dbl_lib \<Rightarrow> 'd json \<Rightarrow> u64 res" where
  "get_long_long fl j = (case j of
      JUint u \<Rightarrow> Inr u
    | JInt i \<Rightarrow> Inr i
    | JFloat d \<Rightarrow> Inr (d_to_i64 fl d)
    | JBool b \<Rightarrow> Inr (if b then 1 else 0)
    | _ \<Rightarrow> Inl (Domain_error (''type must be number, but is '' @ type_name j)))"

section \<open>Lemmas on access\<close>

lemma json_wf_members:
  "json_wf (JObject m) \<Longrightarrow> map_of m key = Some v \<Longrightarrow> json_wf v"
  using map_of_SomeD [of m key v] by fastforce

lemma json_wf_assign:
  "json_wf (JObject m) \<Longrightarrow> json_wf v \<Longrightarrow> json_wf (JObject (map_assign key v m))"
proof -
  assume wf: "json_wf (JObject m)" "json_wf v"
  have "set (map_assign key v m) \<subseteq> insert (key, v) (set m)"
    by (induction m) auto
  with wf show ?thesis by (auto simp: map_sorted_assign)
qed

lemma json_index_cases:
  "json_index j key =
     (case j of
        JNull \<Rightarrow> Inr (JObject [(key, JNull)], JNull)
      | JObject m \<Rightarrow>
          (case map_of m key of
             Some v \<Rightarrow> Inr (j, v) | None \<Rightarrow> Inr (JObject (map_assign key JNull m), JNull))
      | _ \<Rightarrow> Inl (Domain_error (''cannot use operator[] with '' @ type_name j)))"
  by (cases j) (simp_all add: json_index_def is_null_def split: option.splits)

lemma json_index_wf:
  "json_wf j \<Longrightarrow> json_index j key = Inr (j', v) \<Longrightarrow> json_wf j' \<and> json_wf v"
  by (cases j)
    (auto simp: json_index_cases json_wf_assign dest: json_wf_members split: option.splits
      simp del: json_wf.simps(2) map_of_map_assign, simp_all add: map_sorted_Cons json_wf_assign)

lemma json_put_cases:
  "json_put j key v =
     (case j of
        JNull \<Rightarrow> Inr (JObject [(key, v)])
      | JObject m \<Rightarrow> Inr (JObject (map_assign key v m))
      | _ \<Rightarrow> Inl (Domain_error (''cannot use operator[] with '' @ type_name j)))"
proof (cases j)
  case (JObject m)
  have "map_assign key v (map_assign key JNull m) = map_assign key v m"
    by (induction m) auto
  with JObject show ?thesis by (simp add: json_put_def json_index_cases split: option.splits)
qed (simp_all add: json_put_def json_index_cases)

lemma json_put_wf: "json_wf j \<Longrightarrow> json_wf v \<Longrightarrow> json_put j key v = Inr j' \<Longrightarrow> json_wf j'"
  by (cases j) (auto simp: json_put_cases map_sorted_Cons dest: json_wf_assign [rotated])

lemma json_push_back_wf: "json_wf j \<Longrightarrow> json_wf v \<Longrightarrow> json_push_back j v = Inr j' \<Longrightarrow> json_wf j'"
  by (cases j) (auto simp: json_push_back_def is_null_def is_array_def)

section \<open>Properties\<close>

text \<open>
  An assignment to a member of an object (or of null) yields a well-formed value that
  holds the assigned value under that key, and leaves presence and value of every other member as
  they were; on any other type it throws and nothing else happens.
\<close>

theorem json_put_law:
  assumes "json_wf j" "json_wf v"
  shows "(case json_put j key v of
      Inl e \<Rightarrow> \<not> is_null j \<and> \<not> is_object j
        \<and> e = Domain_error (''cannot use operator[] with '' @ type_name j)
    | Inr j' \<Rightarrow> is_object j' \<and> json_wf j' \<and> json_index j' key = Inr (j', v)
        \<and> (\<forall>k. k = key \<or> json_count j' k = json_count j k)
        \<and> (\<forall>k w. k = key \<or> json_index j' k = Inr (j', w) \<or> json_index j k \<noteq> Inr (j, w)))"
proof (cases j)
  case (JObject m)
  then show ?thesis using assms
    by (auto simp: json_put_cases json_index_cases is_object_def json_count_def
        intro!: json_wf_assign dest: map_assign_fixed simp del: json_wf.simps(2) split: option.splits)
qed (use assms in \<open>auto simp: json_put_cases json_index_cases is_object_def is_null_def json_count_def
    map_sorted_Cons\<close>)

theorem json_put_law_witness:
  "(case json_put (JObject [(''a'', JBool True)] :: nat json) ''b'' (JInt 3) of
      Inl e \<Rightarrow> False | Inr j' \<Rightarrow> json_index j' ''b'' = Inr (j', JInt 3))"
  using json_put_law [of "JObject [(''a'', JBool True)] :: nat json" "JInt 3" "''b''"]
  by (simp add: map_sorted_def json_put_cases)

text \<open>
  The conversions this repository changed. To a string exactly the strings, the null
  value (as the empty string) and the booleans convert; to the library's integer type exactly the
  numbers and null (as 0), whereas another integer type of the same width takes booleans and
  refuses null.
\<close>

theorem json_conversions:
  "((\<exists>s. get_string j = Inr s) \<longleftrightarrow> is_string j \<or> is_null j \<or> is_boolean j)
   \<and> get_string (JNull :: 'd json) = Inr []
   \<and> ((\<exists>i. get_long fl j = Inr i) \<longleftrightarrow> is_number j \<or> is_null j)
   \<and> get_long fl JNull = Inr 0
   \<and> ((\<exists>i. get_long_long fl j = Inr i) \<longleftrightarrow> is_number j \<or> is_boolean j)
   \<and> (is_number j \<longrightarrow> get_long fl j = get_long_long fl j)"
  by (cases j) (simp_all add: get_string_def get_long_def get_long_long_def is_string_def
      is_null_def is_boolean_def is_number_def is_number_integer_def is_number_float_def)

theorem json_conversions_witness:
  "get_long int_dbl (JInt 7) = get_long_long int_dbl (JInt 7)"
  using json_conversions [of "JInt 7" int_dbl] by (simp add: get_long_def get_long_long_def)

text \<open>
  \<open>push_back\<close> appends to an array (null counts as the empty one), keeps the value
  well-formed, and the iteration visits the old elements and then the new one; on any other type it
  throws.
\<close>

theorem json_push_back_law:
  assumes "json_wf j" "json_wf v"
  shows "(case json_push_back j v of
      Inl e \<Rightarrow> \<not> is_null j \<and> \<not> is_array j
        \<and> e = Domain_error (''cannot use push_back() with '' @ type_name j)
    | Inr j' \<Rightarrow> is_array j' \<and> json_wf j' \<and> json_range j' = json_range j @ [v]
        \<and> json_size j' = json_size j + 1)"
  using assms
  by (cases j) (auto simp: json_push_back_def is_null_def is_array_def json_range_def json_size_def)

theorem json_push_back_law_witness:
  "(case json_push_back (JArray [JNull] :: nat json) (JBool True) of
      Inl e \<Rightarrow> False | Inr j' \<Rightarrow> json_range j' = [JNull, JBool True])"
  using json_push_back_law [of "JArray [JNull] :: nat json" "JBool True"]
  by (simp add: json_push_back_def is_null_def is_array_def json_range_def)

end
