(* ===== verification/JsonLexer.thy ===== *)
theory JsonLexer
  imports JsonValue "HOL-Library.Char_ord"
begin

unbundle bit_operations_syntax

text \<open>
  \<open>include/json.h\<close>, the lexer: the scanner \<open>scan\<close> (an automaton generated by re2c, modelled
  state by state under its label numbers), \<open>get_string\<close> and \<open>get_number\<close>, which turn the text of
  a token into a value, and \<open>to_unicode\<close>. The end of the buffer reads as the NUL character that
  \<open>fill_line_buffer\<close> appends.
\<close>

section \<open>Tokens\<close>

datatype token_type =
    T_uninitialized | T_literal_true | T_literal_false | T_literal_null
  | T_value_string | T_value_number | T_begin_array | T_begin_object | T_end_array | T_end_object
  | T_name_separator | T_value_separator | T_parse_error | T_end_of_input

primrec token_type_name :: "token_type \<Rightarrow> string" where
  "token_type_name T_uninitialized = ''<uninitialized>''"
| "token_type_name T_literal_true = ''true literal''"
| "token_type_name T_literal_false = ''false literal''"
| "token_type_name T_literal_null = ''null literal''"
| "token_type_name T_value_string = ''string literal''"
| "token_type_name T_value_number = ''number literal''"
| "token_type_name T_begin_array = [CHR 0x27, CHR ''['', CHR 0x27]"
| "token_type_name T_begin_object = [CHR 0x27, CHR ''{'', CHR 0x27]"
| "token_type_name T_end_array = [CHR 0x27, CHR '']'', CHR 0x27]"
| "token_type_name T_end_object = [CHR 0x27, CHR ''}'', CHR 0x27]"
| "token_type_name T_name_separator = [CHR 0x27, CHR '':'', CHR 0x27]"
| "token_type_name T_value_separator = [CHR 0x27, CHR '','', CHR 0x27]"
| "token_type_name T_parse_error = ''<parse error>''"
| "token_type_name T_end_of_input = ''end of input''"

text \<open>
  The lexer between two calls: the last token, its text (from \<open>m_start\<close> to \<open>m_cursor\<close>, what
  \<open>get_token_string\<close> returns) and the text after \<open>m_cursor\<close>.
\<close>

record lexer =
  last_token :: token_type
  token_text :: string
  rest_text :: string

definition lexer_of :: "string \<Rightarrow> lexer" where
  "lexer_of s = \<lparr>last_token = T_uninitialized, token_text = [], rest_text = s\<rparr>"

text \<open>The character at the cursor.\<close>

definition peek :: "string \<Rightarrow> char" where
  "peek s = (case s of [] \<Rightarrow> NUL | c # cs \<Rightarrow> c)"

section \<open>String tokens\<close>

text \<open>
  The states of the automaton inside a string: \<open>S30\<close> between two characters, \<open>S35\<close> after a
  backslash, \<open>S36\<close> to \<open>S42\<close> inside a multi-byte character, \<open>S48\<close>, \<open>S57\<close>, \<open>S63\<close> and \<open>S66\<close> before
  a hexadecimal digit.
\<close>

datatype str_state = S30 | S35 | S36 | S37 | S38 | S39 | S40 | S41 | S42 | S48 | S57 | S63 | S66

datatype str_action = Goto str_state | Accept | Reject

definition c_isxdigit :: "char \<Rightarrow> bool" where
  "c_isxdigit c \<longleftrightarrow> in_range 48 57 c \<or> in_range 65 70 c \<or> in_range 97 102 c"

text \<open>The characters with bit 128 in the table \<open>yybm\<close>, and the reactions of state 31 to the others.\<close>

definition plain_char :: "char \<Rightarrow> bool" where
  "plain_char c \<longleftrightarrow> in_range 32 127 c \<and> c \<noteq> CHR 0x22 \<and> c \<noteq> CHR 0x5C"

definition str_next_S31 :: "char \<Rightarrow> str_action" where
  "str_next_S31 c =
     (if plain_char c then Goto S30
      else if in_range 0 31 c then Reject
      else if c = CHR 0x22 then Accept
      else if c = CHR 0x5C then Goto S35
      else if in_range 0 193 c then Reject
      else if in_range 194 223 c then Goto S36
      else if c = CHR 0xE0 then Goto S37
      else if c = CHR 0xED then Goto S39
      else if in_range 225 239 c then Goto S38
      else if c = CHR 0xF0 then Goto S40
      else if in_range 241 243 c then Goto S41
      else if c = CHR 0xF4 then Goto S42
      else Reject)"

primrec str_next :: "str_state \<Rightarrow> char \<Rightarrow> str_action" where
  "str_next S30 c = str_next_S31 c"
| "str_next S35 c =
     (if c \<in> {CHR 0x22, CHR ''/'', CHR 0x5C, CHR ''b'', CHR ''f'', CHR ''n'', CHR ''r'', CHR ''t''}
      then Goto S30 else if c = CHR ''u'' then Goto S48 else Reject)"
| "str_next S36 c = (if in_range 128 191 c then Goto S30 else Reject)"
| "str_next S37 c = (if in_range 160 191 c then Goto S36 else Reject)"
| "str_next S38 c = (if in_range 128 191 c then Goto S36 else Reject)"
| "str_next S39 c = (if in_range 128 159 c then Goto S36 else Reject)"
| "str_next S40 c = (if in_range 144 191 c then Goto S38 else Reject)"
| "str_next S41 c = (if in_range 128 191 c then Goto S38 else Reject)"
| "str_next S42 c = (if in_range 128 143 c then Goto S38 else Reject)"
| "str_next S48 c = (if c_isxdigit c then Goto S57 else Reject)"
| "str_next S57 c = (if c_isxdigit c then Goto S63 else Reject)"
| "str_next S63 c = (if c_isxdigit c then Goto S66 else Reject)"
| "str_next S66 c = (if c_isxdigit c then Goto S30 else Reject)"

text \<open>
  The run over the text after the opening quotation mark: the characters up to the closing one and
  the text after it. At the end of the buffer the NUL character is rejected in every state.
\<close>

fun str_scan :: "str_state \<Rightarrow> string \<Rightarrow> (string \<times> string) option" where
  "str_scan st [] = None"
| "str_scan st (c # cs) =
     (case str_next st c of
        Goto st' \<Rightarrow> map_option (\<lambda>(s, rest). (c # s, rest)) (str_scan st' cs)
      | Accept \<Rightarrow> Some ([], cs)
      | Reject \<Rightarrow> None)"

lemma str_next_NUL: "str_next st NUL = Reject"
  by (cases st) (simp_all add: str_next_S31_def plain_char_def c_isxdigit_def in_range_def NUL_def)

section \<open>Number tokens\<close>

text \<open>
  Each function is the code at one label: its list argument starts with the character under the
  cursor, \<open>n\<close> is the cursor as an offset from \<open>m_start\<close>, \<open>mk\<close> the marker to go back to. The
  result is the length of the token.
\<close>

fun num_S52 :: "string \<Rightarrow> nat \<Rightarrow> nat" where
  "num_S52 [] n = n"
| "num_S52 (d # cs) n = (if c_isdigit (peek cs) then num_S52 cs (Suc n) else Suc n)"

definition num_S51 :: "nat \<Rightarrow> string \<Rightarrow> nat \<Rightarrow> nat" where
  "num_S51 mk s n = (if c_isdigit (peek (tl s)) then num_S52 (tl s) (Suc n) else mk)"

definition num_S44 :: "nat \<Rightarrow> string \<Rightarrow> nat \<Rightarrow> nat" where
  "num_S44 mk s n =
     (let c = peek (tl s) in
      if c = CHR ''+'' \<or> c = CHR ''-'' then num_S51 mk (tl s) (Suc n)
      else if c_isdigit c then num_S52 (tl s) (Suc n)
      else mk)"

fun num_S49 :: "string \<Rightarrow> nat \<Rightarrow> nat" where
  "num_S49 [] n = n"
| "num_S49 (d # cs) n =
     (if c_isdigit (peek cs) then num_S49 cs (Suc n)
      else if peek cs = CHR ''E'' \<or> peek cs = CHR ''e'' then num_S44 (Suc n) cs (Suc n)
      else Suc n)"

definition num_S43 :: "nat \<Rightarrow> string \<Rightarrow> nat \<Rightarrow> nat" where
  "num_S43 mk s n = (if c_isdigit (peek (tl s)) then num_S49 (tl s) (Suc n) else mk)"

definition num_S13 :: "string \<Rightarrow> nat \<Rightarrow> nat" where
  "num_S13 s n =
     (let c = peek (tl s) in
      if c = CHR ''.'' then num_S43 (Suc n) (tl s) (Suc n)
      else if c = CHR ''E'' \<or> c = CHR ''e'' then num_S44 (Suc n) (tl s) (Suc n)
      else Suc n)"

fun num_S15 :: "string \<Rightarrow> nat \<Rightarrow> nat" where
  "num_S15 [] n = n"
| "num_S15 (d # cs) n =
     (if c_isdigit (peek cs) then num_S15 cs (Suc n)
      else if peek cs = CHR ''.'' then num_S43 (Suc n) cs (Suc n)
      else if peek cs = CHR ''E'' \<or> peek cs = CHR ''e'' then num_S44 (Suc n) cs (Suc n)
      else Suc n)"

text \<open>State 12, after a minus sign; no digit after it is a parse error.\<close>

definition num_S12 :: "string \<Rightarrow> nat option" where
  "num_S12 s =
     (let c = peek (tl s) in
      if c = CHR ''0'' then Some (num_S13 (tl s) 1)
      else if in_range 49 57 c then Some (num_S15 (tl s) 1)
      else None)"

section \<open>The scanner\<close>

definition json_ws :: "char \<Rightarrow> bool" where
  "json_ws c \<longleftrightarrow> c = CHR 0x20 \<or> c = CHR 0x09 \<or> c = CHR 0x0A \<or> c = CHR 0x0D"

definition emit :: "token_type \<Rightarrow> string \<Rightarrow> nat \<Rightarrow> lexer" where
  "emit t s n = \<lparr>last_token = t, token_text = take n s, rest_text = drop n s\<rparr>"

text \<open>A literal, or a parse error that consumes its first character only.\<close>

definition scan_literal :: "string \<Rightarrow> token_type \<Rightarrow> string \<Rightarrow> lexer" where
  "scan_literal w t s = (if starts_with w s then emit t s (length w) else emit T_parse_error s 1)"

definition scan_token :: "string \<Rightarrow> lexer" where
  "scan_token s =
     (let c = peek s in
      if c = NUL then emit T_end_of_input s 1
      else if c = CHR 0x22 then
        (case str_scan S30 (tl s) of
           None \<Rightarrow> emit T_parse_error s 1
         | Some (content, rest) \<Rightarrow> emit T_value_string s (length content + 2))
      else if c = CHR '','' then emit T_value_separator s 1
      else if c = CHR ''-'' then
        (case num_S12 s of
           None \<Rightarrow> emit T_parse_error s 1
         | Some n \<Rightarrow> emit T_value_number s n)
      else if c = CHR ''0'' then emit T_value_number s (num_S13 s 0)
      else if in_range 49 57 c then emit T_value_number s (num_S15 s 0)
      else if c = CHR '':'' then emit T_name_separator s 1
      else if c = CHR ''['' then emit T_begin_array s 1
      else if c = CHR '']'' then emit T_end_array s 1
      else if c = CHR ''f'' then scan_literal ''false'' T_literal_false s
      else if c = CHR ''n'' then scan_literal ''null'' T_literal_null s
      else if c = CHR ''t'' then scan_literal ''true'' T_literal_true s
      else if c = CHR ''{'' then emit T_begin_object s 1
      else if c = CHR ''}'' then emit T_end_object s 1
      else emit T_parse_error s 1)"

text \<open>\<open>scan\<close>: white space is skipped (label 6), then one token is read.\<close>

definition lex_scan :: "lexer \<Rightarrow> lexer" where
  "lex_scan l = scan_token (dropWhile json_ws (rest_text l))"

section \<open>Values of tokens\<close>

text \<open>\<open>strtoul (\<dots>, nullptr, 16)\<close> on a text of hexadecimal digits.\<close>

definition hex_val :: "char \<Rightarrow> nat" where
  "hex_val c = (if in_range 48 57 c then of_char c - 48
     else if in_range 65 70 c then of_char c - 55 else of_char c - 87)"

definition strtoul16 :: "string \<Rightarrow> nat" where
  "strtoul16 s = foldl (\<lambda>a c. 16 * a + hex_val c) 0 (takeWhile c_isxdigit s)"

definition to_unicode :: "nat \<Rightarrow> nat \<Rightarrow> string res" where
  "to_unicode codepoint1 codepoint2 =
     res_bind
      (if 0xD800 \<le> codepoint1 \<and> codepoint1 \<le> 0xDBFF then
         (if 0xDC00 \<le> codepoint2 \<and> codepoint2 \<le> 0xDFFF
          then Inr (push_bit 10 codepoint1 + codepoint2 - 0x35FDC00)
          else Inl (Invalid_argument ''missing or wrong low surrogate''))
       else Inr codepoint1)
      (\<lambda>codepoint.
        if codepoint < 0x80 then Inr [char_of codepoint]
        else if codepoint \<le> 0x7ff then
          Inr [char_of (0xC0 OR (drop_bit 6 codepoint AND 0x1F)),
               char_of (0x80 OR (codepoint AND 0x3F))]
        else if codepoint \<le> 0xffff then
          Inr [char_of (0xE0 OR (drop_bit 12 codepoint AND 0x0F)),
               char_of (0x80 OR (drop_bit 6 codepoint AND 0x3F)),
               char_of (0x80 OR (codepoint AND 0x3F))]
        else if codepoint \<le> 0x10ffff then
          Inr [char_of (0xF0 OR (drop_bit 18 codepoint AND 0x07)),
               char_of (0x80 OR (drop_bit 12 codepoint AND 0x3F)),
               char_of (0x80 OR (drop_bit 6 codepoint AND 0x3F)),
               char_of (0x80 OR (codepoint AND 0x3F))]
        else Inl (Out_of_range ''code points above 0x10FFFF are invalid''))"

text \<open>
  One escape sequence: the argument is the text after the backslash, up to the closing quotation
  mark. The result is what it stands for and the text after it. A character without a case of its
  own adds nothing.
\<close>

definition get_escape :: "string \<Rightarrow> (string \<times> string) res" where
  "get_escape s =
     (let c = peek s; t = tl s in
      if c = CHR ''t'' then Inr ([CHR 0x09], t)
      else if c = CHR ''b'' then Inr ([CHR 0x08], t)
      else if c = CHR ''f'' then Inr ([CHR 0x0C], t)
      else if c = CHR ''n'' then Inr ([CHR 0x0A], t)
      else if c = CHR ''r'' then Inr ([CHR 0x0D], t)
      else if c = CHR 0x5C then Inr ([CHR 0x5C], t)
      else if c = CHR ''/'' then Inr ([CHR ''/''], t)
      else if c = CHR 0x22 then Inr ([CHR 0x22], t)
      else if c = CHR ''u'' then
        (let codepoint = strtoul16 (take 4 t) in
         if 0xD800 \<le> codepoint \<and> codepoint \<le> 0xDBFF then
           (if length t < 6 \<or> t ! 4 \<noteq> CHR 0x5C \<or> t ! 5 \<noteq> CHR ''u''
            then Inl (Invalid_argument ''missing low surrogate'')
            else res_bind (to_unicode codepoint (strtoul16 (take 4 (drop 6 t))))
                   (\<lambda>u. Inr (u, drop 10 t)))
         else if 0xDC00 \<le> codepoint \<and> codepoint \<le> 0xDFFF then
           Inl (Invalid_argument ''missing high surrogate'')
         else res_bind (to_unicode codepoint 0) (\<lambda>u. Inr (u, drop 4 t)))
      else Inr ([], t))"

lemma get_escape_shorter: "get_escape s = Inr (u, t) \<Longrightarrow> length t \<le> length s"
  by (auto simp: get_escape_def Let_def res_simps split: if_splits)

lemma get_escape_less:
  "s \<noteq> [] \<Longrightarrow> get_escape (tl s) = Inr (u, t) \<Longrightarrow> length t < length s"
  using get_escape_shorter [of "tl s" u t] by (cases s) auto

lemma dropWhile_less: "s \<noteq> [] \<Longrightarrow> P (hd s) \<Longrightarrow> length (dropWhile P s) < length s"
  by (cases s) (auto intro: le_imp_less_Suc length_dropWhile_le)

text \<open>The loop of \<open>get_string\<close>: the characters up to the next backslash, then the escape sequence.\<close>

function unescape :: "string \<Rightarrow> string res" where
  "unescape s =
     (if s = [] then Inr []
      else if hd s \<noteq> CHR 0x5C then
        res_bind (unescape (dropWhile (\<lambda>c. c \<noteq> CHR 0x5C) s))
          (\<lambda>r. Inr (takeWhile (\<lambda>c. c \<noteq> CHR 0x5C) s @ r))
      else res_bind (get_escape (tl s)) (\<lambda>(u, t).
             res_bind (unescape t) (\<lambda>r. Inr (u @ r))))"
  by pat_completeness auto
termination
  by (relation "measure length") (auto simp: get_escape_less dropWhile_less)

declare unescape.simps [simp del]

text \<open>\<open>get_string\<close>: the text of the token without its quotation marks.\<close>

definition get_string_token :: "lexer \<Rightarrow> string res" where
  "get_string_token l = unescape (butlast (tl (token_text l)))"

text \<open>
  The loop of \<open>get_number\<close> over the characters of the token: the type so far and the accumulated
  value. The arithmetic is that of \<open>uint64_t\<close>.
\<close>

fun number_loop :: "u64 \<Rightarrow> string \<Rightarrow> value_t \<Rightarrow> u64 \<Rightarrow> value_t \<times> u64" where
  "number_loop mx [] type v = (type, v)"
| "number_loop mx (c # cs) type v =
     (if \<not> c_isdigit c then
        (if c = CHR ''.'' then number_loop mx cs V_number_float v else (V_number_float, v))
      else if type \<noteq> V_number_float then
        (let digit = (word_of_nat (digit_val c) :: u64) in
         if (mx - digit) div 10 < v then number_loop mx cs V_number_float v
         else number_loop mx cs type (v * 10 + digit))
      else number_loop mx cs type v)"

definition int64_max :: u64 where "int64_max = 0x7FFFFFFFFFFFFFFF"
definition uint64_max :: u64 where "uint64_max = 0xFFFFFFFFFFFFFFFF"
definition int64_min :: u64 where "int64_min = 0x8000000000000000"

definition get_number :: "'d dbl_lib \<Rightarrow> lexer \<Rightarrow> 'd json" where
  "get_number fl l =
     (let s = token_text l;
          neg = (peek s = CHR ''-'');
          mx = (if neg then int64_max + 1 else uint64_max);
          (type, v) = number_loop mx (if neg then tl s else s)
                        (if neg then V_number_integer else V_number_unsigned) 0
      in if type = V_number_unsigned then JUint v
         else if type = V_number_integer then
           (if v = mx then JInt int64_min else JInt (- v))
         else if d_isfinite fl (d_strtod fl s) then JFloat (d_strtod fl s) else JNull)"

end
