(* ===== verification/JsonDump.thy ===== *)
theory JsonDump
  imports JsonValue
begin

text \<open>
  \<open>include/json.h\<close>, the serializer: \<open>extra_space\<close>, \<open>escape_string\<close> with its preallocated
  buffer and write position, and \<open>dump\<close> in its compact and its indented form. The lemmas show
  that the buffer has exactly the needed size and that the escaping works character by character.
\<close>

section \<open>Escaping\<close>

definition two_char_escape :: "char \<Rightarrow> bool" where
  "two_char_escape c \<longleftrightarrow> c = CHR 0x22 \<or> c = CHR 0x5C \<or> c = CHR 0x08 \<or> c = CHR 0x0C
     \<or> c = CHR 0x0A \<or> c = CHR 0x0D \<or> c = CHR 0x09"

definition extra_space :: "string \<Rightarrow> nat" where
  "extra_space s = foldl (\<lambda>res c.
     if two_char_escape c then res + 1
     else if in_range 0 31 c then res + 5
     else res) 0 s"

definition hexify :: "nat \<Rightarrow> char" where
  "hexify d = (if d < 10 then char_of (48 + d) else char_of (87 + d))"

text \<open>One turn of the loop over the characters: the buffer and the position to write at.\<close>

definition put_at :: "string \<times> nat \<Rightarrow> char \<Rightarrow> string \<times> nat" where
  "put_at st c = ((fst st)[Suc (snd st) := c], snd st + 2)"

definition escape_step :: "char \<Rightarrow> string \<times> nat \<Rightarrow> string \<times> nat" where
  "escape_step c st =
     (if c = CHR 0x22 then put_at st CHR 0x22
      else if c = CHR 0x5C then (fst st, snd st + 2)
      else if c = CHR 0x08 then put_at st CHR ''b''
      else if c = CHR 0x0C then put_at st CHR ''f''
      else if c = CHR 0x0A then put_at st CHR ''n''
      else if c = CHR 0x0D then put_at st CHR ''r''
      else if c = CHR 0x09 then put_at st CHR ''t''
      else if in_range 0 31 c then
        (let st = fold (\<lambda>m (result, pos). (result[Suc pos := m], Suc pos))
               [CHR ''u'', CHR ''0'', CHR ''0'', hexify (of_char c div 16), hexify (of_char c mod 16)]
               st
         in (fst st, Suc (snd st)))
      else ((fst st)[snd st := c], Suc (snd st)))"

definition escape_string :: "string \<Rightarrow> string" where
  "escape_string s =
     (if extra_space s = 0 then s
      else fst (fold escape_step s (replicate (length s + extra_space s) CHR 0x5C, 0)))"

section \<open>Serialization\<close>

text \<open>
  \<open>dump\<close> returns what it writes to the stream. The loops over members and elements carry the
  test for the first one.
\<close>

function dump_to :: "'d dbl_lib \<Rightarrow> bool \<Rightarrow> 32 word \<Rightarrow> 32 word \<Rightarrow> 'd json \<Rightarrow> string"
  and dump_members :: "'d dbl_lib \<Rightarrow> bool \<Rightarrow> 32 word \<Rightarrow> 32 word \<Rightarrow> bool \<Rightarrow> (string \<times> 'd json) list \<Rightarrow> string"
  and dump_elements :: "'d dbl_lib \<Rightarrow> bool \<Rightarrow> 32 word \<Rightarrow> 32 word \<Rightarrow> bool \<Rightarrow> 'd json list \<Rightarrow> string"
  where
  "dump_to fl pretty_print indent_step current_indent (JObject m) =
     (if m = [] then ''{}''
      else let new_indent = (if pretty_print then current_indent + indent_step else current_indent)
        in ''{'' @ (if pretty_print then [CHR 0x0A] else [])
          @ dump_members fl pretty_print indent_step new_indent True m
          @ (if pretty_print then [CHR 0x0A] else [])
          @ replicate (unat (if pretty_print then new_indent - indent_step else new_indent)) CHR '' ''
          @ ''}'')"
| "dump_to fl pretty_print indent_step current_indent (JArray xs) =
     (if xs = [] then ''[]''
      else let new_indent = (if pretty_print then current_indent + indent_step else current_indent)
        in ''['' @ (if pretty_print then [CHR 0x0A] else [])
          @ dump_elements fl pretty_print indent_step new_indent True xs
          @ (if pretty_print then [CHR 0x0A] else [])
          @ replicate (unat (if pretty_print then new_indent - indent_step else new_indent)) CHR '' ''
          @ '']'')"
| "dump_to fl pretty_print indent_step current_indent (JString s) =
     [CHR 0x22] @ escape_string s @ [CHR 0x22]"
| "dump_to fl pretty_print indent_step current_indent (JBool b) = (if b then ''true'' else ''false'')"
| "dump_to fl pretty_print indent_step current_indent (JInt i) = string_of_int (sint i)"
| "dump_to fl pretty_print indent_step current_indent (JUint u) = string_of_nat (unat u)"
| "dump_to fl pretty_print indent_step current_indent (JFloat d) =
     (if d_is_zero fl d then (if d_signbit fl d then ''-0.0'' else ''0.0'') else d_print fl d)"
| "dump_to fl pretty_print indent_step current_indent JDiscarded = ''<discarded>''"
| "dump_to fl pretty_print indent_step current_indent JNull = ''null''"
| "dump_members fl pretty_print indent_step new_indent is_first [] = []"
| "dump_members fl pretty_print indent_step new_indent is_first (e # m) =
     (if is_first then [] else if pretty_print then [CHR '','', CHR 0x0A] else '','')
     @ replicate (unat new_indent) CHR '' ''
     @ [CHR 0x22] @ escape_string (fst e) @ [CHR 0x22, CHR '':''] @ (if pretty_print then '' '' else [])
     @ dump_to fl pretty_print indent_step new_indent (snd e)
     @ dump_members fl pretty_print indent_step new_indent False m"
| "dump_elements fl pretty_print indent_step new_indent is_first [] = []"
| "dump_elements fl pretty_print indent_step new_indent is_first (x # xs) =
     (if is_first then [] else if pretty_print then [CHR '','', CHR 0x0A] else '','')
     @ replicate (unat new_indent) CHR '' ''
     @ dump_to fl pretty_print indent_step new_indent x
     @ dump_elements fl pretty_print indent_step new_indent False xs"
  by pat_completeness auto
termination
  by (relation "measure (case_sum (\<lambda>(fl, p, s, c, j). size j)
      (case_sum (\<lambda>(fl, p, s, c, f, m). size_list (\<lambda>e. Suc (size (snd e))) m)
        (\<lambda>(fl, p, s, c, f, xs). size_list size xs)))") (auto simp: size_prod_simp)

definition json_dump :: "'d dbl_lib \<Rightarrow> int \<Rightarrow> 'd json \<Rightarrow> string" where
  "json_dump fl indent j =
     (if 0 \<le> indent then dump_to fl True (word_of_int indent) 0 j else dump_to fl False 0 0 j)"

section \<open>Escaping, character by character\<close>

definition esc_char :: "char \<Rightarrow> string" where
  "esc_char c =
     (if c = CHR 0x22 \<or> c = CHR 0x5C then [CHR 0x5C, c]
      else if c = CHR 0x08 then [CHR 0x5C, CHR ''b'']
      else if c = CHR 0x0C then [CHR 0x5C, CHR ''f'']
      else if c = CHR 0x0A then [CHR 0x5C, CHR ''n'']
      else if c = CHR 0x0D then [CHR 0x5C, CHR ''r'']
      else if c = CHR 0x09 then [CHR 0x5C, CHR ''t'']
      else if in_range 0 31 c
      then [CHR 0x5C, CHR ''u'', CHR ''0'', CHR ''0'', hexify (of_char c div 16), hexify (of_char c mod 16)]
      else [c])"

definition esc_string :: "string \<Rightarrow> string" where
  "esc_string s = concat (map esc_char s)"

lemma esc_string_simps [simp]:
  "esc_string [] = []" "esc_string (c # s) = esc_char c @ esc_string s"
  by (simp_all add: esc_string_def)

lemma foldl_weight: "foldl (\<lambda>n c. n + w c) (n :: nat) s = n + sum_list (map w s)"
  by (induction s arbitrary: n) simp_all

lemma extra_space_sum:
  "extra_space s = sum_list (map (\<lambda>c. if two_char_escape c then 1 else if in_range 0 31 c then 5 else 0) s)"
proof -
  have "(\<lambda>res c. if two_char_escape c then res + 1 else if in_range 0 31 c then res + 5 else res)
    = (\<lambda>res c. res + (if two_char_escape c then 1 else if in_range 0 31 c then 5 else (0 :: nat)))"
    by (simp add: fun_eq_iff)
  then show ?thesis unfolding extra_space_def by (simp only: foldl_weight add_0)
qed

lemma extra_space_Nil [simp]: "extra_space [] = 0"
  by (simp add: extra_space_sum)

lemma extra_space_Cons [simp]: "extra_space (c # s) = length (esc_char c) - 1 + extra_space s"
  by (auto simp: extra_space_sum two_char_escape_def esc_char_def)

lemma length_esc_char: "0 < length (esc_char c)"
  by (simp add: esc_char_def)

lemma length_esc_string: "length (esc_string s) = length s + extra_space s"
proof (induction s)
  case (Cons c s)
  then show ?case using length_esc_char [of c] by simp
qed simp

lemma esc_string_no_space: "extra_space s = 0 \<Longrightarrow> esc_string s = s"
  by (induction s) (auto simp: esc_char_def split: if_splits)

lemma escape_step_append:
  "escape_step c (pre @ replicate (length (esc_char c) + n) CHR 0x5C, length pre)
     = (pre @ esc_char c @ replicate n CHR 0x5C, length pre + length (esc_char c))"
proof -
  consider "two_char_escape c" | "\<not> two_char_escape c" "in_range 0 31 c"
    | "\<not> two_char_escape c" "\<not> in_range 0 31 c" by blast
  then show ?thesis
  proof cases
    case 1
    then show ?thesis unfolding two_char_escape_def
      by (elim disjE) (simp_all add: escape_step_def esc_char_def put_at_def list_update_append)
  next
    case 2
    then show ?thesis
      by (simp add: two_char_escape_def escape_step_def esc_char_def list_update_append)
  next
    case 3
    then show ?thesis
      by (simp add: two_char_escape_def escape_step_def esc_char_def list_update_append)
  qed
qed

lemma escape_loop:
  "fold escape_step s (pre @ replicate (length (esc_string s) + n) CHR 0x5C, length pre)
     = (pre @ esc_string s @ replicate n CHR 0x5C, length pre + length (esc_string s))"
proof (induction s arbitrary: pre)
  case (Cons c s)
  have "fold escape_step (c # s) (pre @ replicate (length (esc_string (c # s)) + n) CHR 0x5C, length pre)
    = fold escape_step s ((pre @ esc_char c) @ replicate (length (esc_string s) + n) CHR 0x5C,
        length (pre @ esc_char c))"
    using escape_step_append [of c pre "length (esc_string s) + n"]
    by (simp only: fold_simps o_apply esc_string_simps length_append add.assoc append_assoc)
  also have "\<dots> = ((pre @ esc_char c) @ esc_string s @ replicate n CHR 0x5C,
      length (pre @ esc_char c) + length (esc_string s))"
    by (rule Cons)
  finally show ?case by simp
qed simp

lemma escape_string_eq: "escape_string s = esc_string s"
  using escape_loop [of s "[]" 0]
  by (simp add: escape_string_def esc_string_no_space length_esc_string)

text \<open>
  Property C35: \<open>escape_string\<close> is the escaping character by character, and the buffer that
  \<open>extra_space\<close> sizes is filled exactly: the last write position is its end, so no write of the
  loop is out of bounds and no fill character is left over.
\<close>

theorem escape_string_exact:
  "escape_string s = concat (map esc_char s)
   \<and> length (escape_string s) = length s + extra_space s
   \<and> snd (fold escape_step s (replicate (length s + extra_space s) CHR 0x5C, 0))
       = length s + extra_space s"
  using escape_loop [of s "[]" 0]
  by (simp add: escape_string_eq esc_string_def [symmetric] length_esc_string)

text \<open>
  An escaped string has no control character, and every quotation mark in it follows
  a backslash, so that it can stand between quotation marks.
\<close>

fun quotes_escaped :: "string \<Rightarrow> bool" where
  "quotes_escaped [] = True"
| "quotes_escaped (c # s) =
     (if c = CHR 0x22 then False
      else if c = CHR 0x5C then (case s of [] \<Rightarrow> False | d # t \<Rightarrow> quotes_escaped t)
      else \<not> in_range 0 31 c \<and> quotes_escaped s)"

lemma hexify_plain: "n < 16 \<Longrightarrow> \<not> in_range 0 34 (hexify n) \<and> hexify n \<noteq> CHR 0x5C"
  by (auto simp: hexify_def in_range_def char_of_eq_iff take_bit_eq_mod)

lemma quotes_escaped_esc_char: "quotes_escaped (esc_char c @ t) = quotes_escaped t"
proof -
  have "\<not> in_range 0 31 (hexify n) \<and> hexify n \<noteq> CHR 0x22 \<and> hexify n \<noteq> CHR 0x5C" if "n < 16" for n
    using hexify_plain [OF that] by (auto simp: in_range_def)
  moreover have "(of_char c :: nat) div 16 < 16" "(of_char c :: nat) mod 16 < 16"
    using nat_of_char_less_256 [of c] by (simp_all add: less_mult_imp_div_less)
  ultimately show ?thesis by (auto simp: esc_char_def in_range_def)
qed

theorem escape_string_quotable:
  "quotes_escaped (escape_string s)"
proof -
  have "quotes_escaped (esc_string s)"
    by (induction s) (simp_all add: quotes_escaped_esc_char)
  then show ?thesis by (simp add: escape_string_eq)
qed

end
