(* ===== verification/JsonStrings.thy ===== *)
theory JsonStrings
  imports JsonLexer JsonDump
begin

unbundle bit_operations_syntax

text \<open>
  The string tokens of the JSON lexer: the automaton accepts exactly the strings of the grammar
  (plain characters, escape sequences, well-formed UTF-8), \<open>get_string\<close> undoes the escaping of
  the serializer, and every string it yields is valid UTF-8.
\<close>

section \<open>The grammar of string contents\<close>

definition utf8_cont :: "char \<Rightarrow> bool" where
  "utf8_cont c \<longleftrightarrow> in_range 128 191 c"

text \<open>The well-formed byte sequences of more than one byte (Unicode, table 3-7).\<close>

definition utf8_multi :: "string \<Rightarrow> bool" where
  "utf8_multi u = (case u of
      [a, b] \<Rightarrow> in_range 194 223 a \<and> utf8_cont b
    | [a, b, c] \<Rightarrow> utf8_cont c \<and>
        (a = CHR 0xE0 \<and> in_range 160 191 b
         \<or> (in_range 225 236 a \<or> in_range 238 239 a) \<and> utf8_cont b
         \<or> a = CHR 0xED \<and> in_range 128 159 b)
    | [a, b, c, d] \<Rightarrow> utf8_cont c \<and> utf8_cont d \<and>
        (a = CHR 0xF0 \<and> in_range 144 191 b
         \<or> in_range 241 243 a \<and> utf8_cont b
         \<or> a = CHR 0xF4 \<and> in_range 128 143 b)
    | _ \<Rightarrow> False)"

definition json_escape :: "string \<Rightarrow> bool" where
  "json_escape u = (case u of
      [a, b] \<Rightarrow> a = CHR 0x5C \<and>
        b \<in> {CHR 0x22, CHR ''/'', CHR 0x5C, CHR ''b'', CHR ''f'', CHR ''n'', CHR ''r'', CHR ''t''}
    | [a, b, c, d, e, f] \<Rightarrow> a = CHR 0x5C \<and> b = CHR ''u'' \<and> list_all c_isxdigit [c, d, e, f]
    | _ \<Rightarrow> False)"

definition json_unit :: "string \<Rightarrow> bool" where
  "json_unit u \<longleftrightarrow> (\<exists>c. u = [c] \<and> plain_char c) \<or> json_escape u \<or> utf8_multi u"

inductive json_content :: "string \<Rightarrow> bool" where
  content_Nil: "json_content []"
| content_unit: "json_unit u \<Longrightarrow> json_content s \<Longrightarrow> json_content (u @ s)"

section \<open>Runs of the automaton\<close>

lemma str_scan_step:
  "str_scan st cs = Some (s, r) \<longleftrightarrow>
     (\<exists>c cs'. cs = c # cs' \<and>
        (case str_next st c of
           Goto st' \<Rightarrow> \<exists>s'. s = c # s' \<and> str_scan st' cs' = Some (s', r)
         | Accept \<Rightarrow> s = [] \<and> r = cs'
         | Reject \<Rightarrow> False))"
  by (cases cs) (auto split: str_action.splits)

lemma str_scan_goto:
  assumes "\<And>c. str_next st c = (if P c then Goto st' else Reject)"
  shows "str_scan st cs = Some (s, r) \<longleftrightarrow>
     (\<exists>c cs' s'. cs = c # cs' \<and> s = c # s' \<and> P c \<and> str_scan st' cs' = Some (s', r))"
  by (subst str_scan_step) (auto simp: assms split: if_splits)

lemmas str_scan_goto_rules =
  str_scan_goto [OF str_next.simps(3)] str_scan_goto [OF str_next.simps(4)]
  str_scan_goto [OF str_next.simps(5)] str_scan_goto [OF str_next.simps(6)]

lemmas str_scan_goto_third =
  str_scan_goto [OF str_next.simps(7), folded utf8_cont_def]
  str_scan_goto [OF str_next.simps(8), folded utf8_cont_def]
  str_scan_goto [OF str_next.simps(9), folded utf8_cont_def]

lemmas str_scan_hex =
  str_scan_goto [OF str_next.simps(10)] str_scan_goto [OF str_next.simps(11)]
  str_scan_goto [OF str_next.simps(12)] str_scan_goto [OF str_next.simps(13)]

lemma str_scan_S36:
  "str_scan S36 cs = Some (s, r) \<longleftrightarrow>
     (\<exists>c cs' s'. cs = c # cs' \<and> s = c # s' \<and> utf8_cont c \<and> str_scan S30 cs' = Some (s', r))"
  unfolding utf8_cont_def by (rule str_scan_goto_rules)

lemma str_scan_cont2:
  "str_scan S37 cs = Some (s, r) \<longleftrightarrow> (\<exists>b c cs' s'. cs = b # c # cs' \<and> s = b # c # s' \<and>
     in_range 160 191 b \<and> utf8_cont c \<and> str_scan S30 cs' = Some (s', r))"
  "str_scan S38 cs = Some (s, r) \<longleftrightarrow> (\<exists>b c cs' s'. cs = b # c # cs' \<and> s = b # c # s' \<and>
     utf8_cont b \<and> utf8_cont c \<and> str_scan S30 cs' = Some (s', r))"
  "str_scan S39 cs = Some (s, r) \<longleftrightarrow> (\<exists>b c cs' s'. cs = b # c # cs' \<and> s = b # c # s' \<and>
     in_range 128 159 b \<and> utf8_cont c \<and> str_scan S30 cs' = Some (s', r))"
  by (intro iffI; auto simp: str_scan_goto_rules utf8_cont_def)+

lemma str_scan_cont3:
  "str_scan S40 cs = Some (s, r) \<longleftrightarrow> (\<exists>b c d cs' s'. cs = b # c # d # cs' \<and> s = b # c # d # s' \<and>
     in_range 144 191 b \<and> utf8_cont c \<and> utf8_cont d \<and> str_scan S30 cs' = Some (s', r))"
  "str_scan S41 cs = Some (s, r) \<longleftrightarrow> (\<exists>b c d cs' s'. cs = b # c # d # cs' \<and> s = b # c # d # s' \<and>
     utf8_cont b \<and> utf8_cont c \<and> utf8_cont d \<and> str_scan S30 cs' = Some (s', r))"
  "str_scan S42 cs = Some (s, r) \<longleftrightarrow> (\<exists>b c d cs' s'. cs = b # c # d # cs' \<and> s = b # c # d # s' \<and>
     in_range 128 143 b \<and> utf8_cont c \<and> utf8_cont d \<and> str_scan S30 cs' = Some (s', r))"
  by (intro iffI; auto simp: str_scan_goto_third str_scan_cont2(2))+

lemma str_scan_branch:
  assumes "\<And>c. str_next st c = (if c \<in> C then Goto st1 else if c = d then Goto st2 else Reject)"
  shows "str_scan st cs = Some (s, r) \<longleftrightarrow>
     (\<exists>c cs' s'. cs = c # cs' \<and> s = c # s' \<and>
        (c \<in> C \<and> str_scan st1 cs' = Some (s', r) \<or> c \<notin> C \<and> c = d \<and> str_scan st2 cs' = Some (s', r)))"
  by (subst str_scan_step) (auto simp: assms split: if_splits)

lemma str_scan_escape:
  "str_scan S35 cs = Some (s, r) \<longleftrightarrow>
     (\<exists>u cs' s'. cs = u @ cs' \<and> s = u @ s' \<and> json_escape (CHR 0x5C # u) \<and>
        str_scan S30 cs' = Some (s', r))"
proof
  let ?C = "{CHR 0x22, CHR ''/'', CHR 0x5C, CHR ''b'', CHR ''f'', CHR ''n'', CHR ''r'', CHR ''t''}"
  assume "str_scan S35 cs = Some (s, r)"
  from iffD1 [OF str_scan_branch [OF str_next.simps(2)] this]
  obtain c cs' s' where c: "cs = c # cs'" "s = c # s'" and
    alt: "c \<in> ?C \<and> str_scan S30 cs' = Some (s', r) \<or> c \<notin> ?C \<and> c = CHR ''u'' \<and> str_scan S48 cs' = Some (s', r)"
    by (elim exE conjE) (rule that)
  from alt show "\<exists>u cs' s'. cs = u @ cs' \<and> s = u @ s' \<and> json_escape (CHR 0x5C # u) \<and>
        str_scan S30 cs' = Some (s', r)"
  proof
    assume "c \<in> ?C \<and> str_scan S30 cs' = Some (s', r)"
    then show ?thesis
      by (intro exI [of _ "[c]"] exI [of _ cs'] exI [of _ s']) (simp add: c json_escape_def)
  next
    assume "c \<notin> ?C \<and> c = CHR ''u'' \<and> str_scan S48 cs' = Some (s', r)"
    then have "c = CHR ''u''" "str_scan S48 cs' = Some (s', r)" by - (elim conjE, assumption)+
    then obtain x y z w t t' where "cs' = x # y # z # w # t" "s' = x # y # z # w # t'"
      "c_isxdigit x" "c_isxdigit y" "c_isxdigit z" "c_isxdigit w" "str_scan S30 t = Some (t', r)"
      "c = CHR ''u''"
      by (auto simp: str_scan_hex)
    then show ?thesis
      by (intro exI [of _ "[c, x, y, z, w]"] exI [of _ t] exI [of _ t'])
        (simp add: c json_escape_def)
  qed
next
  assume "\<exists>u cs' s'. cs = u @ cs' \<and> s = u @ s' \<and> json_escape (CHR 0x5C # u) \<and>
        str_scan S30 cs' = Some (s', r)"
  then obtain u cs' s' where u: "cs = u @ cs'" "s = u @ s'" "json_escape (CHR 0x5C # u)"
    "str_scan S30 cs' = Some (s', r)" by blast
  from u(3) show "str_scan S35 cs = Some (s, r)"
    by (auto simp: u json_escape_def split: list.splits)
qed

lemma json_unit_nonempty: "json_unit u \<Longrightarrow> u \<noteq> []"
  by (auto simp: json_unit_def json_escape_def utf8_multi_def)

lemma str_next_S31_lead:
  "in_range 194 223 a \<Longrightarrow> str_next_S31 a = Goto S36"
  "str_next_S31 (CHR 0xE0) = Goto S37"
  "in_range 225 236 a \<or> in_range 238 239 a \<Longrightarrow> str_next_S31 a = Goto S38"
  "str_next_S31 (CHR 0xED) = Goto S39"
  "str_next_S31 (CHR 0xF0) = Goto S40"
  "in_range 241 243 a \<Longrightarrow> str_next_S31 a = Goto S41"
  "str_next_S31 (CHR 0xF4) = Goto S42"
  by (simp_all add: str_next_S31_def plain_char_def char_eq_code in_range_def del: of_char_eq_iff)
    auto

lemma str_next_S31_dest:
  "str_next_S31 a = Goto S36 \<Longrightarrow> in_range 194 223 a"
  "str_next_S31 a = Goto S37 \<Longrightarrow> a = CHR 0xE0"
  "str_next_S31 a = Goto S38 \<Longrightarrow> in_range 225 236 a \<or> in_range 238 239 a"
  "str_next_S31 a = Goto S39 \<Longrightarrow> a = CHR 0xED"
  "str_next_S31 a = Goto S40 \<Longrightarrow> a = CHR 0xF0"
  "str_next_S31 a = Goto S41 \<Longrightarrow> in_range 241 243 a"
  "str_next_S31 a = Goto S42 \<Longrightarrow> a = CHR 0xF4"
  by (simp_all add: str_next_S31_def char_eq_code in_range_def del: of_char_eq_iff split: if_splits)
    arith

lemma str_scan_multi_dest:
  assumes "str_next_S31 a = Goto st" "st \<noteq> S30" "st \<noteq> S35" "str_scan st t = Some (s, r)"
  shows "\<exists>v cs' s'. t = v @ cs' \<and> s = v @ s' \<and> utf8_multi (a # v) \<and> str_scan S30 cs' = Some (s', r)"
proof -
  have one: "\<exists>v cs' s'. t = v @ cs' \<and> s = v @ s' \<and> utf8_multi (a # v) \<and> str_scan S30 cs' = Some (s', r)"
    if "\<exists>b cs' s'. t = b # cs' \<and> s = b # s' \<and> utf8_multi [a, b] \<and> str_scan S30 cs' = Some (s', r)"
    using that by (metis append_Cons append_Nil)
  have two: "\<exists>v cs' s'. t = v @ cs' \<and> s = v @ s' \<and> utf8_multi (a # v) \<and> str_scan S30 cs' = Some (s', r)"
    if "\<exists>b c cs' s'. t = b # c # cs' \<and> s = b # c # s' \<and> utf8_multi [a, b, c]
      \<and> str_scan S30 cs' = Some (s', r)"
    using that by (metis append_Cons append_Nil)
  have three: "\<exists>v cs' s'. t = v @ cs' \<and> s = v @ s' \<and> utf8_multi (a # v) \<and> str_scan S30 cs' = Some (s', r)"
    if "\<exists>b c d cs' s'. t = b # c # d # cs' \<and> s = b # c # d # s' \<and> utf8_multi [a, b, c, d]
      \<and> str_scan S30 cs' = Some (s', r)"
    using that by (metis append_Cons append_Nil)
  show ?thesis
  proof (cases st)
    case S36
    with assms show ?thesis
      by (intro one) (auto simp: str_scan_S36 utf8_multi_def dest: str_next_S31_dest)
  next
    case S37
    with assms str_next_S31_dest(2) [of a] show ?thesis
      by (intro two) (simp add: str_scan_cont2 utf8_multi_def, blast)
  next
    case S38
    with assms str_next_S31_dest(3) [of a] show ?thesis
      by (intro two) (simp add: str_scan_cont2 utf8_multi_def, blast)
  next
    case S39
    with assms str_next_S31_dest(4) [of a] show ?thesis
      by (intro two) (simp add: str_scan_cont2 utf8_multi_def, blast)
  next
    case S40
    with assms str_next_S31_dest(5) [of a] show ?thesis
      by (intro three) (simp add: str_scan_cont3 utf8_multi_def, blast)
  next
    case S41
    with assms str_next_S31_dest(6) [of a] show ?thesis
      by (intro three) (simp add: str_scan_cont3 utf8_multi_def, blast)
  next
    case S42
    with assms str_next_S31_dest(7) [of a] show ?thesis
      by (intro three) (simp add: str_scan_cont3 utf8_multi_def, blast)
  qed (use assms in \<open>auto simp: str_next_S31_def split: if_splits\<close>)
qed

lemma str_scan_unit_intro:
  assumes "json_unit u" "str_scan S30 cs = Some (s, r)"
  shows "str_scan S30 (u @ cs) = Some (u @ s, r)"
proof -
  from assms(1) consider c where "u = [c]" "plain_char c" | "json_escape u" | "utf8_multi u"
    by (auto simp: json_unit_def)
  then show ?thesis
  proof cases
    case 1
    then show ?thesis using assms(2) by (simp add: str_next_S31_def)
  next
    case 2
    then obtain v where v: "u = CHR 0x5C # v"
      by (auto simp: json_escape_def split: list.splits)
    have "str_scan S35 (v @ cs) = Some (v @ s, r)"
      using 2 v assms(2) by (subst str_scan_escape) blast
    then show ?thesis
      by (simp add: v str_next_S31_def plain_char_def in_range_def)
  next
    case 3
    then consider a b where "u = [a, b]" "in_range 194 223 a" "utf8_cont b"
      | b c where "u = [CHR 0xE0, b, c]" "in_range 160 191 b" "utf8_cont c"
      | a b c where "u = [a, b, c]" "in_range 225 236 a \<or> in_range 238 239 a" "utf8_cont b" "utf8_cont c"
      | b c where "u = [CHR 0xED, b, c]" "in_range 128 159 b" "utf8_cont c"
      | b c d where "u = [CHR 0xF0, b, c, d]" "in_range 144 191 b" "utf8_cont c" "utf8_cont d"
      | a b c d where "u = [a, b, c, d]" "in_range 241 243 a" "utf8_cont b" "utf8_cont c" "utf8_cont d"
      | b c d where "u = [CHR 0xF4, b, c, d]" "in_range 128 143 b" "utf8_cont c" "utf8_cont d"
      unfolding utf8_multi_def by (auto split: list.splits)
    then show ?thesis
      by cases (use assms(2) in \<open>simp_all add: str_next_S31_lead str_scan_S36 str_scan_cont2 str_scan_cont3 utf8_cont_def\<close>)
  qed
qed

lemma str_scan_unit_dest:
  assumes "str_scan S30 cs = Some (s, r)" "s \<noteq> []"
  shows "\<exists>u cs' s'. cs = u @ cs' \<and> s = u @ s' \<and> json_unit u \<and> str_scan S30 cs' = Some (s', r)"
proof -
  from assms obtain a t st s' where a: "cs = a # t" "s = a # s'" "str_next_S31 a = Goto st"
    "str_scan st t = Some (s', r)"
    by (cases cs) (auto split: str_action.splits)
  show ?thesis
  proof (cases "st = S30 \<or> st = S35")
    case False
    then obtain v cs' s'' where "t = v @ cs'" "s' = v @ s''" "utf8_multi (a # v)"
      "str_scan S30 cs' = Some (s'', r)"
      using str_scan_multi_dest [OF a(3) _ _ a(4)] by blast
    then show ?thesis using a(1,2)
      by (intro exI [of _ "a # v"] exI [of _ cs'] exI [of _ s'']) (simp add: json_unit_def)
  next
    case True
    then show ?thesis
    proof
      assume st: "st = S30"
      then have "plain_char a" using a(3) by (auto simp: str_next_S31_def split: if_splits)
      then show ?thesis using a st
        by (intro exI [of _ "[a]"] exI [of _ t] exI [of _ s']) (simp add: json_unit_def)
    next
      assume st: "st = S35"
      then obtain u cs' s'' where u: "t = u @ cs'" "s' = u @ s''" "json_escape (CHR 0x5C # u)"
        "str_scan S30 cs' = Some (s'', r)" using a(4) by (auto simp: str_scan_escape)
      have "a = CHR 0x5C" using a(3) st by (auto simp: str_next_S31_def split: if_splits)
      then show ?thesis using a(1,2) u
        by (intro exI [of _ "a # u"] exI [of _ cs'] exI [of _ s'']) (simp add: json_unit_def)
    qed
  qed
qed

section \<open>The accepted strings\<close>

lemma json_content_append_char:
  "plain_char c \<Longrightarrow> json_content s \<Longrightarrow> json_content (c # s)"
  using content_unit [of "[c]" s] by (simp add: json_unit_def)

lemma str_scan_grammar:
  "str_scan S30 cs = Some (s, rest) \<longleftrightarrow> cs = s @ CHR 0x22 # rest \<and> json_content s"
proof
  show "str_scan S30 cs = Some (s, rest) \<Longrightarrow> cs = s @ CHR 0x22 # rest \<and> json_content s"
  proof (induction "length cs" arbitrary: cs s rule: less_induct)
    case less
    show ?case
    proof (cases "s = []")
      case True
      with less.prems show ?thesis
        by (cases cs) (auto simp: content_Nil str_next_S31_def split: str_action.splits if_splits)
    next
      case False
      then obtain u cs' s' where u: "cs = u @ cs'" "s = u @ s'" "json_unit u"
        "str_scan S30 cs' = Some (s', rest)"
        using str_scan_unit_dest [OF less.prems] by blast
      with less.hyps [of cs' s'] json_unit_nonempty [of u] show ?thesis
        by (auto intro: content_unit)
    qed
  qed
next
  assume "cs = s @ CHR 0x22 # rest \<and> json_content s"
  then have cs: "cs = s @ CHR 0x22 # rest" and "json_content s" by auto
  from \<open>json_content s\<close> have "str_scan S30 (s @ CHR 0x22 # rest) = Some (s, rest)"
  proof induction
    case content_Nil
    show ?case by (simp add: str_next_S31_def plain_char_def in_range_def)
  next
    case (content_unit u s)
    then show ?case using str_scan_unit_intro [of u "s @ CHR 0x22 # rest"] by simp
  qed
  then show "str_scan S30 cs = Some (s, rest)" by (simp add: cs)
qed

text \<open>
  Property C32: the scanner's string automaton accepts exactly the strings of the grammar: a token
  ends at a quotation mark, and the text before it is a sequence of plain characters (no control
  characters), JSON escape sequences and well-formed UTF-8 sequences.
\<close>

theorem str_scan_exact:
  "str_scan S30 cs = Some (s, rest) \<longleftrightarrow> cs = s @ CHR 0x22 # rest \<and> json_content s"
  by (rule str_scan_grammar)

section \<open>Unescaping\<close>

lemma unescape_Nil [simp]: "unescape [] = Inr []"
  by (subst unescape.simps) simp

lemma unescape_plain:
  "c \<noteq> CHR 0x5C \<Longrightarrow> unescape (c # s) = res_bind (unescape s) (\<lambda>r. Inr (c # r))"
proof (cases "s = [] \<or> hd s = CHR 0x5C")
  case True
  assume c: "c \<noteq> CHR 0x5C"
  from True have "dropWhile (\<lambda>c. c \<noteq> CHR 0x5C) s = s" "takeWhile (\<lambda>c. c \<noteq> CHR 0x5C) s = []"
    by (cases s; auto)+
  with c show ?thesis by (subst unescape.simps) simp
next
  case False
  assume c: "c \<noteq> CHR 0x5C"
  with False show ?thesis
    by (subst unescape.simps, subst (2) unescape.simps)
      (cases "unescape (dropWhile (\<lambda>c. c \<noteq> CHR 0x5C) s)"; simp)
qed

lemma unescape_escape:
  "unescape (CHR 0x5C # s) =
     res_bind (get_escape s) (\<lambda>(u, t). res_bind (unescape t) (\<lambda>r. Inr (u @ r)))"
  by (subst unescape.simps) simp

lemma unescape_append:
  "CHR 0x5C \<notin> set u \<Longrightarrow> unescape (u @ s) = res_bind (unescape s) (\<lambda>r. Inr (u @ r))"
proof (induction u)
  case Nil
  then show ?case by (cases "unescape s") simp_all
next
  case (Cons c u)
  then have "c \<noteq> CHR 0x5C" by auto
  with Cons show ?case by (cases "unescape s") (simp_all add: unescape_plain)
qed

section \<open>UTF-8\<close>

inductive utf8_text :: "string \<Rightarrow> bool" where
  utf8_Nil: "utf8_text []"
| utf8_ascii: "in_range 0 127 c \<Longrightarrow> utf8_text s \<Longrightarrow> utf8_text (c # s)"
| utf8_append_multi: "utf8_multi u \<Longrightarrow> utf8_text s \<Longrightarrow> utf8_text (u @ s)"

lemma utf8_text_append: "utf8_text s \<Longrightarrow> utf8_text t \<Longrightarrow> utf8_text (s @ t)"
  by (induction rule: utf8_text.induct) (auto intro: utf8_text.intros)

lemma utf8_multi_chars: "utf8_multi u \<Longrightarrow> c \<in> set u \<Longrightarrow> 128 \<le> (of_char c :: nat)"
  by (auto simp: utf8_multi_def utf8_cont_def in_range_def split: list.splits)

lemma or_push_bit:
  "push_bit n a OR (x AND mask n) = push_bit n a + x mod 2 ^ n" for a x :: nat
proof -
  have "push_bit n a AND take_bit n x = 0"
    by (rule bit_eqI) (auto simp: bit_simps)
  then show ?thesis
    by (simp add: disjunctive_add_eq_or take_bit_eq_mask [symmetric] take_bit_eq_mod [symmetric])
qed

lemma or_bytes:
  "0xC0 OR (x AND 0x1F) = 192 + x mod 32" "0x80 OR (x AND 0x3F) = 128 + x mod 64"
  "0xE0 OR (x AND 0x0F) = 224 + x mod 16" "0xF0 OR (x AND 0x07) = 240 + x mod 8" for x :: nat
  using or_push_bit [of 5 6 x] or_push_bit [of 6 2 x] or_push_bit [of 4 14 x] or_push_bit [of 3 30 x]
  by (simp_all add: mask_eq_exp_minus_1 push_bit_eq_mult)

lemma of_char_char_of_nat: "n < 256 \<Longrightarrow> (of_char (char_of n) :: nat) = n"
  by (simp add: take_bit_eq_mod)

text \<open>A code point that is not a surrogate is written as well-formed UTF-8.\<close>

definition utf8_encode :: "nat \<Rightarrow> string" where
  "utf8_encode cp =
     (if cp < 0x80 then [char_of cp]
      else if cp \<le> 0x7ff then [char_of (192 + cp div 64 mod 32), char_of (128 + cp mod 64)]
      else if cp \<le> 0xffff then [char_of (224 + cp div 4096 mod 16),
        char_of (128 + cp div 64 mod 64), char_of (128 + cp mod 64)]
      else [char_of (240 + cp div 262144 mod 8), char_of (128 + cp div 4096 mod 64),
        char_of (128 + cp div 64 mod 64), char_of (128 + cp mod 64)])"

lemma to_unicode_encode:
  "to_unicode cp1 cp2 =
    (if 0xD800 \<le> cp1 \<and> cp1 \<le> 0xDBFF then
       (if 0xDC00 \<le> cp2 \<and> cp2 \<le> 0xDFFF
        then Inr (utf8_encode (0x10000 + (cp1 - 0xD800) * 0x400 + (cp2 - 0xDC00)))
        else Inl (Invalid_argument ''missing or wrong low surrogate''))
     else if cp1 \<le> 0x10ffff then Inr (utf8_encode cp1)
     else Inl (Out_of_range ''code points above 0x10FFFF are invalid''))"
proof -
  have bits: "drop_bit 6 x = x div 64" "drop_bit 12 x = x div 4096" "drop_bit 18 x = x div 262144"
    "push_bit 10 x = x * 1024" for x :: nat
    by (simp_all add: drop_bit_eq_div push_bit_eq_mult)
  have pair: "cp1 * 1024 + cp2 - 0x35FDC00 = 0x10000 + (cp1 - 0xD800) * 0x400 + (cp2 - 0xDC00)"
    if "0xD800 \<le> cp1" "0xDC00 \<le> cp2" using that by simp
  define cp where "cp = 0x10000 + (cp1 - 0xD800) * 0x400 + (cp2 - 0xDC00)"
  have cp: "0xffff < cp" "cp1 \<le> 0xDBFF \<Longrightarrow> cp2 \<le> 0xDFFF \<Longrightarrow> cp \<le> 0x10ffff" by (simp_all add: cp_def)
  show ?thesis
    unfolding to_unicode_def or_bytes bits
    using pair cp by (simp add: cp_def [symmetric] utf8_encode_def)
qed

lemma utf8_cont_of_nat: "utf8_cont (char_of (128 + x mod 64))" for x :: nat
proof -
  have "x mod 64 < 64" by simp
  then show ?thesis by (simp add: utf8_cont_def in_range_def of_char_char_of_nat del: of_char_of)
qed

lemma in_range_char_of: "n < 256 \<Longrightarrow> in_range lo hi (char_of n) \<longleftrightarrow> lo \<le> n \<and> n \<le> hi"
  by (simp add: in_range_def of_char_char_of_nat del: of_char_of)

lemma char_of_nat_eq: "n < 256 \<Longrightarrow> char_of n = c \<longleftrightarrow> n = of_char c" for n :: nat
  by (auto simp: char_eq_code of_char_char_of_nat simp del: of_char_of of_char_eq_iff)

lemma utf8_encode_text:
  assumes "cp \<le> 0x10ffff" "\<not> (0xD800 \<le> cp \<and> cp \<le> 0xDFFF)"
  shows "utf8_text (utf8_encode cp)"
proof (cases "cp < 0x80")
  case True
  then show ?thesis
    by (auto simp: utf8_encode_def in_range_char_of intro!: utf8_text.intros)
next
  case big: False
  have b: "128 + cp div 64 mod 64 < 256" "128 + cp div 4096 mod 64 < 256" by auto
  have "utf8_multi (utf8_encode cp)"
  proof -
    consider "cp \<le> 0x7ff" | "0x7ff < cp" "cp \<le> 0xffff" | "0xffff < cp" by linarith
    then show ?thesis
    proof cases
      case 1
      then have "2 \<le> cp div 64" "cp div 64 mod 32 = cp div 64" "cp div 64 < 32" using big by auto
      then show ?thesis using 1 big
        by (simp add: utf8_encode_def utf8_multi_def utf8_cont_of_nat in_range_char_of)
    next
      case 2
      define a b where "a = cp div 4096" and "b = cp div 64 mod 64"
      have ab: "a < 16" "b < 64" "cp div 64 = a * 64 + b"
        using 2 by (auto simp: a_def b_def div_mult2_eq [of cp 64 64, simplified])
      have "cp div 64 < 0x360 \<or> 0x380 \<le> cp div 64" "0x20 \<le> cp div 64" using 2 assms by auto
      then have "a = 0 \<and> 32 \<le> b \<or> 1 \<le> a \<and> a \<le> 12 \<or> a = 13 \<and> b < 32 \<or> 14 \<le> a"
        using ab by auto
      moreover have "utf8_cont (char_of (128 + b))" by (simp add: b_def utf8_cont_of_nat)
      ultimately show ?thesis using 2 big ab(1,2)
        by (auto simp: utf8_encode_def utf8_multi_def utf8_cont_of_nat in_range_char_of
            char_of_nat_eq a_def [symmetric] b_def [symmetric])
    next
      case 3
      define a b where "a = cp div 262144" and "b = cp div 4096 mod 64"
      have ab: "a < 8" "b < 64" "cp div 4096 = a * 64 + b"
        using 3 assms by (auto simp: a_def b_def div_mult2_eq [of cp 4096 64, simplified])
      have "16 \<le> cp div 4096" "cp div 4096 < 0x110" using 3 assms by auto
      then have "a = 0 \<and> 16 \<le> b \<or> 1 \<le> a \<and> a \<le> 3 \<or> a = 4 \<and> b < 16"
        using ab by auto
      moreover have "utf8_cont (char_of (128 + b))" by (simp add: b_def utf8_cont_of_nat)
      ultimately show ?thesis using 3 big ab(1,2)
        by (auto simp: utf8_encode_def utf8_multi_def utf8_cont_of_nat in_range_char_of
            char_of_nat_eq a_def [symmetric] b_def [symmetric])
    qed
  qed
  then show ?thesis using utf8_append_multi [OF _ utf8_Nil] by fastforce
qed

lemma to_unicode_utf8:
  assumes "to_unicode cp1 cp2 = Inr r" "\<not> (0xDC00 \<le> cp1 \<and> cp1 \<le> 0xDFFF)"
  shows "utf8_text r"
  using assms by (auto simp: to_unicode_encode intro!: utf8_encode_text split: if_splits)

section \<open>Escaping is undone\<close>

lemma hexify_digit: "n < 16 \<Longrightarrow> c_isxdigit (hexify n) \<and> hex_val (hexify n) = n"
  by (simp add: hexify_def c_isxdigit_def hex_val_def in_range_char_of of_char_char_of_nat
      del: of_char_of)

lemma of_char_nibbles:
  "(of_char c :: nat) div 16 < 16" "16 * (of_char c div 16) + of_char c mod 16 = (of_char c :: nat)"
  using nat_of_char_less_256 [of c] by (simp_all add: less_mult_imp_div_less)

lemma strtoul16_escape:
  "strtoul16 [CHR ''0'', CHR ''0'', hexify (of_char c div 16), hexify (of_char c mod 16)] = of_char c"
proof -
  have "c_isxdigit CHR ''0''" "hex_val CHR ''0'' = 0"
    by (simp_all add: c_isxdigit_def hex_val_def in_range_def)
  then show ?thesis
    using hexify_digit [of "of_char c div 16"] hexify_digit [of "of_char c mod 16"] of_char_nibbles [of c]
    by (simp add: strtoul16_def)
qed

lemma get_escape_unicode:
  "in_range 0 31 c \<Longrightarrow>
    get_escape (CHR ''u'' # CHR ''0'' # CHR ''0'' # hexify (of_char c div 16) # hexify (of_char c mod 16) # t)
      = Inr ([c], t)"
  by (simp add: get_escape_def Let_def peek_def strtoul16_escape to_unicode_encode utf8_encode_def
      in_range_def)

lemma unescape_esc_char:
  "unescape (esc_char c @ t) = res_bind (unescape t) (\<lambda>r. Inr (c # r))"
proof -
  consider "two_char_escape c" | "\<not> two_char_escape c" "in_range 0 31 c"
    | "\<not> two_char_escape c" "\<not> in_range 0 31 c" by blast
  then show ?thesis
  proof cases
    case 1
    then show ?thesis unfolding two_char_escape_def
      by (elim disjE) (simp_all add: esc_char_def unescape_escape get_escape_def peek_def)
  next
    case 2
    then have "esc_char c @ t = CHR 0x5C # CHR ''u'' # CHR ''0'' # CHR ''0''
        # hexify (of_char c div 16) # hexify (of_char c mod 16) # t"
      by (simp add: esc_char_def two_char_escape_def)
    then show ?thesis using get_escape_unicode [OF 2(2)] by (simp add: unescape_escape)
  next
    case 3
    then show ?thesis
      by (simp add: two_char_escape_def esc_char_def unescape_plain)
  qed
qed

lemma unescape_esc_string: "unescape (esc_string s) = Inr s"
  by (induction s) (simp_all add: unescape_esc_char)

interpretation escaping: codec escape_string "\<lambda>e. case unescape e of Inl x \<Rightarrow> None | Inr s \<Rightarrow> Some s"
  "\<lambda>s. True"
  by unfold_locales (simp add: escape_string_eq unescape_esc_string)

text \<open>The escaped form of a valid text is a string of the grammar.\<close>

lemma esc_char_unit: "in_range 0 127 c \<Longrightarrow> json_unit (esc_char c)"
proof -
  assume c: "in_range 0 127 c"
  consider "two_char_escape c" | "\<not> two_char_escape c" "in_range 0 31 c"
    | "\<not> two_char_escape c" "\<not> in_range 0 31 c" by blast
  then show ?thesis
  proof cases
    case 1
    then have "json_escape (esc_char c)" unfolding two_char_escape_def
      by (elim disjE) (simp_all add: esc_char_def json_escape_def)
    then show ?thesis by (simp add: json_unit_def)
  next
    case 2
    have "c_isxdigit CHR ''0''" by (simp add: c_isxdigit_def in_range_def)
    with 2 have "json_escape (esc_char c)"
      using hexify_digit [of "of_char c div 16"] hexify_digit [of "of_char c mod 16"] of_char_nibbles [of c]
      by (simp add: esc_char_def json_escape_def two_char_escape_def)
    then show ?thesis by (simp add: json_unit_def)
  next
    case 3
    with c have "plain_char c" by (auto simp: plain_char_def two_char_escape_def in_range_def)
    with 3 show ?thesis
      by (simp add: two_char_escape_def esc_char_def json_unit_def)
  qed
qed

lemma esc_string_append: "esc_string (s @ t) = esc_string s @ esc_string t"
  by (simp add: esc_string_def)

lemma esc_string_multi: "utf8_multi u \<Longrightarrow> esc_string u = u"
proof -
  assume u: "utf8_multi u"
  have "esc_char c = [c]" if "128 \<le> (of_char c :: nat)" for c
    using that by (simp add: esc_char_def in_range_def char_eq_code del: of_char_eq_iff)
  with utf8_multi_chars [OF u] have "\<forall>c\<in>set u. esc_char c = [c]" by blast
  then show ?thesis by (induction u) auto
qed

lemma esc_string_content: "utf8_text s \<Longrightarrow> json_content (esc_string s)"
proof (induction rule: utf8_text.induct)
  case utf8_Nil
  show ?case by (simp add: content_Nil)
next
  case (utf8_ascii c s)
  then show ?case by (simp add: content_unit esc_char_unit)
next
  case (utf8_append_multi u s)
  then show ?case
    by (simp add: esc_string_append esc_string_multi content_unit json_unit_def)
qed

lemma scan_quoted:
  assumes "utf8_text s"
  shows "scan_token (CHR 0x22 # escape_string s @ CHR 0x22 # rest)
      = \<lparr>last_token = T_value_string, token_text = CHR 0x22 # escape_string s @ [CHR 0x22],
         rest_text = rest\<rparr>
    \<and> get_string_token (scan_token (CHR 0x22 # escape_string s @ CHR 0x22 # rest)) = Inr s"
proof -
  have "str_scan S30 (esc_string s @ CHR 0x22 # rest) = Some (esc_string s, rest)"
    using esc_string_content [OF assms] str_scan_grammar by blast
  then show ?thesis
    by (simp add: scan_token_def peek_def NUL_def emit_def escape_string_eq get_string_token_def
        unescape_esc_string butlast_append Let_def)
qed

text \<open>
  A serialized string is read back: the scanner recognizes the quoted escaped text of
  every valid UTF-8 string as one string token ending at its own closing quotation mark, and
  \<open>get_string\<close> gives the original characters.
\<close>

theorem string_token_roundtrip:
  assumes "utf8_text s"
  shows "scan_token (CHR 0x22 # escape_string s @ CHR 0x22 # rest)
      = \<lparr>last_token = T_value_string, token_text = CHR 0x22 # escape_string s @ [CHR 0x22],
         rest_text = rest\<rparr>
    \<and> get_string_token (scan_token (CHR 0x22 # escape_string s @ CHR 0x22 # rest)) = Inr s"
  using assms by (rule scan_quoted)

theorem string_token_roundtrip_witness:
  "get_string_token (scan_token (CHR 0x22 # escape_string [CHR 0x0A, CHR 0xC3, CHR 0xA9] @ CHR 0x22 # ''}''))
     = Inr [CHR 0x0A, CHR 0xC3, CHR 0xA9]"
proof -
  have "utf8_multi [CHR 0xC3, CHR 0xA9]"
    by (simp add: utf8_multi_def utf8_cont_def in_range_def)
  then have "utf8_text ([CHR 0xC3, CHR 0xA9] @ [])"
    by (rule utf8_append_multi) (rule utf8_Nil)
  then have "utf8_text [CHR 0x0A, CHR 0xC3, CHR 0xA9]"
    by (simp add: utf8_ascii in_range_def)
  then show ?thesis using string_token_roundtrip [of "[CHR 0x0A, CHR 0xC3, CHR 0xA9]" "''}''"]
    by blast
qed

section \<open>The strings of a document are valid UTF-8\<close>

lemma json_content_tail:
  assumes "json_content (u @ s)" "json_unit u"
    and "\<And>v t. json_unit v \<Longrightarrow> v @ t = u @ s \<Longrightarrow> v = u"
  shows "json_content s"
  using assms(1)
proof cases
  case content_Nil
  then show ?thesis using assms(2) json_unit_nonempty by auto
next
  case (content_unit v t)
  then show ?thesis using assms(3) [of v t] by auto
qed

lemma json_unit_backslash:
  "json_unit v \<Longrightarrow> v @ t = CHR 0x5C # b # s \<Longrightarrow> json_escape v"
  by (auto simp: json_unit_def plain_char_def utf8_multi_def in_range_def split: list.splits)

text \<open>After an escape sequence that starts with a backslash and \<open>u\<close> the content goes on.\<close>

lemma json_content_hex:
  assumes "json_content (CHR 0x5C # CHR ''u'' # t)"
  shows "\<exists>a b c d s. t = a # b # c # d # s \<and> json_content s"
  using assms
proof cases
  case (content_unit v s)
  then have "json_escape v" using json_unit_backslash [of v s "CHR ''u''" t] by simp
  then show ?thesis using content_unit by (auto simp: json_escape_def split: list.splits)
qed

lemma get_escape_content:
  assumes "json_content (CHR 0x5C # s)" "get_escape s = Inr (u, t)"
  shows "utf8_text u \<and> json_content t"
proof (cases "peek s = CHR ''u''")
  case True
  then obtain s' where s: "s = CHR ''u'' # s'"
    by (cases s) (auto simp: peek_def NUL_def)
  then obtain a b c d r where s': "s' = a # b # c # d # r" "json_content r"
    using json_content_hex assms(1) by blast
  show ?thesis
  proof (cases "0xD800 \<le> strtoul16 [a, b, c, d] \<and> strtoul16 [a, b, c, d] \<le> 0xDBFF")
    case high: True
    with assms(2) obtain r' where r: "r = CHR 0x5C # CHR ''u'' # r'"
      and u: "to_unicode (strtoul16 [a, b, c, d]) (strtoul16 (take 4 r')) = Inr u" and t: "t = drop 4 r'"
      by (cases r; cases "tl r")
        (auto simp: s s' get_escape_def peek_def Let_def res_simps split: if_splits)
    obtain r'' where "json_content r''" "drop 4 r' = r''"
      using json_content_hex s'(2) r by force
    then show ?thesis using u t high to_unicode_utf8 [OF u] by auto
  next
    case False
    with assms(2) have "to_unicode (strtoul16 [a, b, c, d]) 0 = Inr u" "t = r"
      "\<not> (0xDC00 \<le> strtoul16 [a, b, c, d] \<and> strtoul16 [a, b, c, d] \<le> 0xDFFF)"
      by (auto simp: s s' get_escape_def peek_def Let_def res_simps split: if_splits)
    then show ?thesis using s'(2) to_unicode_utf8 by blast
  qed
next
  case False
  from assms(1) show ?thesis
  proof cases
    case (content_unit v r)
    obtain b s' where s: "s = b # s'"
      using content_unit json_unit_backslash
      by (cases s) (auto simp: json_unit_def json_escape_def plain_char_def utf8_multi_def split: list.splits)
    then have "json_escape v" using content_unit json_unit_backslash [of v r b s'] by simp
    then have v: "v = [CHR 0x5C, b]"
      "b \<in> {CHR 0x22, CHR ''/'', CHR 0x5C, CHR ''b'', CHR ''f'', CHR ''n'', CHR ''r'', CHR ''t''}"
      "r = s'"
      using content_unit s False by (auto simp: json_escape_def peek_def split: list.splits)
    then have "\<exists>x. u = [x] \<and> in_range 0 127 x" "t = s'"
      using assms(2) s by (auto simp: get_escape_def peek_def in_range_def)
    then show ?thesis using content_unit v utf8_ascii utf8_Nil by auto
  qed
qed

text \<open>
  Property C33: every string value taken from a document, escape sequences and surrogate pairs
  included, is valid UTF-8, whatever bytes the request contained.
\<close>

theorem token_string_valid_utf8:
  assumes "str_scan S30 cs = Some (content, rest)" "unescape content = Inr r"
  shows "utf8_text r"
proof -
  have "json_content content" using assms(1) by (simp add: str_scan_grammar)
  then show ?thesis using assms(2)
  proof (induction "length content" arbitrary: content r rule: less_induct)
    case less
    from less.prems(1) show ?case
    proof cases
      case content_Nil
      then show ?thesis using less.prems(2) by (simp add: utf8_Nil)
    next
      case (content_unit u s)
      show ?thesis
      proof (cases "CHR 0x5C \<in> set u")
        case False
        then obtain r' where r': "unescape s = Inr r'" "r = u @ r'"
          using less.prems(2) content_unit by (auto simp: unescape_append res_simps)
        then have "utf8_text r'"
          using less.hyps [of s r'] content_unit json_unit_nonempty [of u] by simp
        moreover have "utf8_multi u \<or> (\<exists>c. u = [c] \<and> in_range 0 127 c)"
          using content_unit False
          by (auto simp: json_unit_def json_escape_def plain_char_def in_range_def split: list.splits)
        ultimately show ?thesis using r'(2) utf8_append_multi utf8_ascii by auto
      next
        case True
        then obtain u' where u: "u = CHR 0x5C # u'"
          using content_unit utf8_multi_chars [of u "CHR 0x5C"]
          by (auto simp: json_unit_def json_escape_def plain_char_def split: list.splits)
        then obtain v t r' where v: "get_escape (u' @ s) = Inr (v, t)" "unescape t = Inr r'" "r = v @ r'"
          using less.prems(2) content_unit by (auto simp: unescape_escape res_simps)
        moreover have "utf8_text v \<and> json_content t"
          using get_escape_content [OF _ v(1)] less.prems(1) content_unit u by simp
        moreover have "length t < length content"
          using get_escape_shorter [OF v(1)] content_unit u by simp
        ultimately show ?thesis using less.hyps [of t r'] utf8_text_append by blast
      qed
    qed
  qed
qed

theorem token_string_valid_utf8_witness:
  "utf8_text [CHR 0xE2, CHR 0x82, CHR 0xAC]"
proof (rule token_string_valid_utf8)
  show "str_scan S30 (CHR 0x5C # ''u20AC'' @ [CHR 0x22]) = Some (CHR 0x5C # ''u20AC'', [])"
    by (simp add: str_next_S31_def plain_char_def in_range_def c_isxdigit_def)
  show "unescape (CHR 0x5C # ''u20AC'') = Inr [CHR 0xE2, CHR 0x82, CHR 0xAC]"
    by (simp add: unescape_escape get_escape_def peek_def strtoul16_def hex_val_def c_isxdigit_def
        in_range_def to_unicode_encode utf8_encode_def char_of_eq_iff)
qed

end
