(* ===== verification/JsonNumbers.thy ===== *)
theory JsonNumbers
  imports JsonLexer
begin

text \<open>
  The number tokens of the JSON lexer: the automaton with its backtracking marker recognizes the
  optional parts of a number only where they are complete, and \<open>get_number\<close> is exact on integers
  that fit 64 bits and turns to floating point exactly where they do not.
\<close>

section \<open>The parts of a number\<close>

definition digits_part :: "string \<Rightarrow> string" where
  "digits_part s = takeWhile c_isdigit s"

definition int_part :: "string \<Rightarrow> string" where
  "int_part s = (if peek s = CHR ''0'' then ''0'' else digits_part s)"

definition frac_part :: "string \<Rightarrow> string" where
  "frac_part s = (if peek s = CHR ''.'' \<and> digits_part (tl s) \<noteq> [] then CHR ''.'' # digits_part (tl s)
     else [])"

definition sign_part :: "string \<Rightarrow> string" where
  "sign_part s = (if peek s = CHR ''+'' \<or> peek s = CHR ''-'' then [peek s] else [])"

definition exp_part :: "string \<Rightarrow> string" where
  "exp_part s =
     (let sg = sign_part (tl s); ds = digits_part (drop (length sg) (tl s)) in
      if (peek s = CHR ''e'' \<or> peek s = CHR ''E'') \<and> ds \<noteq> [] then peek s # sg @ ds else [])"

text \<open>The number at the start of a text: sign, integer part, and the complete optional parts.\<close>

definition number_prefix :: "string \<Rightarrow> string option" where
  "number_prefix s =
     (let m = (if peek s = CHR ''-'' then ''-'' else []);
          s1 = drop (length m) s;
          i = int_part s1;
          s2 = drop (length i) s1;
          f = frac_part s2;
          e = exp_part (drop (length f) s2)
      in if i = [] then None else Some (m @ i @ f @ e))"

section \<open>The automaton computes the parts\<close>

lemma peek_simps [simp]: "peek [] = NUL" "peek (c # s) = c"
  by (simp_all add: peek_def)

lemma not_digit_NUL [simp]: "\<not> c_isdigit NUL"
  by (simp add: c_isdigit_def in_range_def NUL_def)

lemma digits_part_simps [simp]:
  "digits_part [] = []" "digits_part (c # s) = (if c_isdigit c then c # digits_part s else [])"
  by (simp_all add: digits_part_def)

lemma digits_part_Nil: "digits_part s = [] \<longleftrightarrow> \<not> c_isdigit (peek s)"
  by (cases s) auto

lemma num_S52_eq: "num_S52 (d # cs) n = Suc n + length (digits_part cs)"
proof (induction cs arbitrary: d n)
  case (Cons c cs)
  then show ?case by simp
qed simp

declare num_S52.simps(2) [simp del]

lemma num_S52_digits: "c_isdigit (peek s) \<Longrightarrow> num_S52 s n = n + length (digits_part s)"
  by (cases s) (auto simp: num_S52_eq)

lemma not_digit_chars [simp]:
  "\<not> c_isdigit CHR ''+''" "\<not> c_isdigit CHR ''-''" "\<not> c_isdigit CHR ''.''" "\<not> c_isdigit CHR ''e''"
  "\<not> c_isdigit CHR ''E''"
  by (simp_all add: c_isdigit_def in_range_def)

lemma num_S44_eq:
  "peek s = CHR ''e'' \<or> peek s = CHR ''E'' \<Longrightarrow>
     num_S44 mk s n = (if exp_part s = [] then mk else n + length (exp_part s))"
  by (auto simp: num_S44_def num_S51_def exp_part_def sign_part_def Let_def digits_part_Nil
      num_S52_digits drop_Suc)

lemma num_S44_same:
  "peek s = CHR ''e'' \<or> peek s = CHR ''E'' \<Longrightarrow> num_S44 n s n = n + length (exp_part s)"
  by (simp add: num_S44_eq)

lemma exp_part_none: "peek s \<noteq> CHR ''e'' \<Longrightarrow> peek s \<noteq> CHR ''E'' \<Longrightarrow> exp_part s = []"
  by (simp add: exp_part_def Let_def)

lemma drop_digits_part: "drop (length (digits_part s)) s = dropWhile c_isdigit s"
  by (simp add: digits_part_def dropWhile_eq_drop)

lemma num_S49_eq:
  "num_S49 (d # cs) n = Suc n + length (digits_part cs) + length (exp_part (dropWhile c_isdigit cs))"
proof (induction cs arbitrary: d n)
  case Nil
  then show ?case by (simp add: exp_part_none NUL_def)
next
  case (Cons c cs)
  then show ?case
    by (cases "c_isdigit c"; cases "c = CHR ''E'' \<or> c = CHR ''e''")
      (auto simp: num_S44_same exp_part_none)
qed

declare num_S49.simps(2) [simp del]

definition frac_exp :: "string \<Rightarrow> nat" where
  "frac_exp s = length (frac_part s) + length (exp_part (drop (length (frac_part s)) s))"

lemma num_S43_eq: "peek s = CHR ''.'' \<Longrightarrow> num_S43 n s n = n + frac_exp s"
proof (cases "c_isdigit (peek (tl s))")
  case True
  assume "peek s = CHR ''.''"
  with True show ?thesis
    by (cases "tl s")
      (auto simp: num_S43_def num_S49_eq frac_exp_def frac_part_def drop_Suc drop_digits_part)
next
  case False
  assume "peek s = CHR ''.''"
  with False show ?thesis
    by (simp add: num_S43_def frac_exp_def frac_part_def digits_part_Nil exp_part_none)
qed

lemma frac_exp_no_dot: "peek s \<noteq> CHR ''.'' \<Longrightarrow> frac_exp s = length (exp_part s)"
  by (simp add: frac_exp_def frac_part_def)

lemma num_S13_eq: "num_S13 s n = Suc n + frac_exp (tl s)"
  by (auto simp: num_S13_def Let_def num_S43_eq num_S44_same frac_exp_no_dot exp_part_none)

lemma num_S15_eq:
  "num_S15 (d # cs) n = Suc n + length (digits_part cs) + frac_exp (dropWhile c_isdigit cs)"
proof (induction cs arbitrary: d n)
  case Nil
  then show ?case by (simp add: frac_exp_no_dot exp_part_none NUL_def)
next
  case (Cons c cs)
  then show ?case
    by (cases "c_isdigit c"; cases "c = CHR ''.''"; cases "c = CHR ''E'' \<or> c = CHR ''e''")
      (auto simp: num_S43_eq num_S44_same frac_exp_no_dot exp_part_none)
qed

declare num_S15.simps(2) [simp del]

lemma int_part_cases:
  "peek s = CHR ''0'' \<Longrightarrow> int_part s = ''0''"
  "in_range 49 57 (peek s) \<Longrightarrow> int_part s = peek s # digits_part (tl s)"
  "peek s \<noteq> CHR ''0'' \<Longrightarrow> \<not> in_range 49 57 (peek s) \<Longrightarrow> int_part s = []"
proof -
  show "peek s = CHR ''0'' \<Longrightarrow> int_part s = ''0''" by (simp add: int_part_def)
  show "in_range 49 57 (peek s) \<Longrightarrow> int_part s = peek s # digits_part (tl s)"
    by (cases s) (auto simp: int_part_def c_isdigit_def in_range_def NUL_def)
  assume "peek s \<noteq> CHR ''0''" "\<not> in_range 49 57 (peek s)"
  moreover from this have "\<not> c_isdigit (peek s)"
    using of_char_eq_iff [of "peek s" "CHR ''0''", where ?'a = nat]
    by (auto simp: c_isdigit_def in_range_def)
  ultimately show "int_part s = []" by (simp add: int_part_def digits_part_Nil)
qed

lemma digits_part_prefix: "digits_part s @ drop (length (digits_part s)) s = s"
  by (simp add: drop_digits_part) (simp add: digits_part_def)

lemma peek_tl: "peek s \<noteq> NUL \<Longrightarrow> peek s # tl s = s"
  by (cases s) simp_all

lemma frac_part_prefix: "frac_part s @ drop (length (frac_part s)) s = s"
  using digits_part_prefix [of "tl s"] peek_tl [of s]
  by (auto simp: frac_part_def drop_Suc NUL_def)

lemma sign_part_prefix: "sign_part s @ drop (length (sign_part s)) s = s"
  using peek_tl [of s] by (auto simp: sign_part_def drop_Suc NUL_def)

lemma exp_part_prefix: "exp_part s @ drop (length (exp_part s)) s = s"
proof (cases "exp_part s = []")
  case False
  then have e: "peek s \<noteq> NUL" "exp_part s = peek s # sign_part (tl s)
      @ digits_part (drop (length (sign_part (tl s))) (tl s))"
    by (auto simp: exp_part_def Let_def NUL_def split: if_splits)
  then show ?thesis
    using digits_part_prefix [of "drop (length (sign_part (tl s))) (tl s)"]
      sign_part_prefix [of "tl s"] peek_tl [of s]
    by (simp add: drop_Suc add.commute)
qed simp

lemma int_part_prefix: "int_part s @ drop (length (int_part s)) s = s"
  using digits_part_prefix [of s] peek_tl [of s] by (auto simp: int_part_def drop_Suc NUL_def)

lemma number_prefix_prefix: "number_prefix s = Some t \<Longrightarrow> t @ drop (length t) s = s"
proof -
  assume t: "number_prefix s = Some t"
  define m where "m = (if peek s = CHR ''-'' then ''-'' else [])"
  define s1 where "s1 = drop (length m) s"
  define s2 where "s2 = drop (length (int_part s1)) s1"
  define s3 where "s3 = drop (length (frac_part s2)) s2"
  have s: "m @ s1 = s" using peek_tl [of s] by (auto simp: m_def s1_def NUL_def drop_Suc)
  have t': "t = m @ int_part s1 @ frac_part s2 @ exp_part s3"
    using t by (auto simp: number_prefix_def Let_def m_def s1_def s2_def s3_def split: if_splits)
  have "s = t @ drop (length (exp_part s3)) s3"
    using s t' int_part_prefix [of s1] frac_part_prefix [of s2] exp_part_prefix [of s3]
    by (simp add: s2_def [symmetric] s3_def [symmetric])
  then show ?thesis by (metis append_eq_conv_conj)
qed

lemma scan_number:
  assumes "peek s = CHR ''-'' \<or> c_isdigit (peek s)"
  shows "scan_token s = (case number_prefix s of
      None \<Rightarrow> \<lparr>last_token = T_parse_error, token_text = take 1 s, rest_text = drop 1 s\<rparr>
    | Some t \<Rightarrow> \<lparr>last_token = T_value_number, token_text = t, rest_text = drop (length t) s\<rparr>)"
proof -
  have em: "emit T_value_number s (length t) =
      \<lparr>last_token = T_value_number, token_text = t, rest_text = drop (length t) s\<rparr>"
    if "number_prefix s = Some t" for t
    using number_prefix_prefix [OF that] unfolding emit_def by (metis append_eq_conv_conj)
  have unsigned: "length (int_part u) + frac_exp (drop (length (int_part u)) u) =
      (if peek u = CHR ''0'' then Suc (frac_exp (tl u))
       else Suc (length (digits_part (tl u)) + frac_exp (dropWhile c_isdigit (tl u))))"
    if "peek u = CHR ''0'' \<or> in_range 49 57 (peek u)" for u
    using that
    by (cases u) (auto simp: drop_Suc drop_digits_part int_part_def in_range_def c_isdigit_def NUL_def)
  have u15: "num_S15 u n = Suc n + length (digits_part (tl u)) + frac_exp (dropWhile c_isdigit (tl u))"
    if "in_range 49 57 (peek u)" for u n
    using that by (cases u) (auto simp: num_S15_eq in_range_def NUL_def)
  have plain: "peek s \<noteq> CHR 0x22" "peek s \<noteq> NUL" "peek s \<noteq> CHR '',''"
    using assms by (auto simp: c_isdigit_def in_range_def NUL_def)
  show ?thesis
  proof (cases "peek s = CHR ''-''")
    case True
    define u where "u = tl s"
    have np: "number_prefix s = (if int_part u = [] then None
      else Some (CHR ''-'' # int_part u @ frac_part (drop (length (int_part u)) u)
        @ exp_part (drop (length (frac_part (drop (length (int_part u)) u))) (drop (length (int_part u)) u))))"
      by (simp add: number_prefix_def True u_def drop_Suc Let_def)
    have "num_S12 s = map_option length (number_prefix s)"
      using unsigned [of u] u15 [of u 1] int_part_cases [of u]
      by (auto simp: num_S12_def Let_def np u_def [symmetric] num_S13_eq frac_exp_def)
    then show ?thesis
      using True em by (auto simp: scan_token_def NUL_def emit_def split: option.splits)
  next
    case False
    with assms have d: "c_isdigit (peek s)" by simp
    then have cs: "peek s = CHR ''0'' \<or> in_range 49 57 (peek s)"
      using of_char_eq_iff [of "peek s" "CHR ''0''", where ?'a = nat]
      by (auto simp: c_isdigit_def in_range_def)
    then have i: "int_part s \<noteq> []" using int_part_cases [of s] by auto
    define t where "t = int_part s @ frac_part (drop (length (int_part s)) s)
        @ exp_part (drop (length (frac_part (drop (length (int_part s)) s))) (drop (length (int_part s)) s))"
    have np: "number_prefix s = Some t"
      using False i by (simp add: number_prefix_def t_def Let_def)
    have len: "length t = length (int_part s) + frac_exp (drop (length (int_part s)) s)"
      by (simp add: t_def frac_exp_def)
    have "scan_token s = emit T_value_number s (length t)"
      using cs plain False unsigned [OF cs] u15 [of s 0]
      by (auto simp: scan_token_def Let_def num_S13_eq len in_range_def)
    then show ?thesis using np em by simp
  qed
qed

text \<open>
  A text that starts with a digit or a minus sign yields one number token, made of the
  sign, the integer part (a zero or digits not starting with one) and the fraction and the exponent
  where they are complete; an incomplete one is left to the next token. A minus sign without a
  digit is a parse error.
\<close>

theorem number_token_parts:
  assumes "peek s = CHR ''-'' \<or> c_isdigit (peek s)"
  shows "scan_token s = (case number_prefix s of
      None \<Rightarrow> \<lparr>last_token = T_parse_error, token_text = take 1 s, rest_text = drop 1 s\<rparr>
    | Some t \<Rightarrow> \<lparr>last_token = T_value_number, token_text = t, rest_text = drop (length t) s\<rparr>)"
  using assms by (rule scan_number)

theorem number_token_parts_witness:
  "scan_token ''-12.5e+3,'' = \<lparr>last_token = T_value_number, token_text = ''-12.5e+3'', rest_text = '',''\<rparr>
   \<and> scan_token ''7.x'' = \<lparr>last_token = T_value_number, token_text = ''7'', rest_text = ''.x''\<rparr>"
  using number_token_parts [of "''-12.5e+3,''"] number_token_parts [of "''7.x''"]
  by (simp add: number_prefix_def int_part_def frac_part_def exp_part_def sign_part_def c_isdigit_def
      in_range_def)

section \<open>The value of a number token\<close>

definition float_or_null :: "'d dbl_lib \<Rightarrow> string \<Rightarrow> 'd json" where
  "float_or_null fl s = (if d_isfinite fl (d_strtod fl s) then JFloat (d_strtod fl s) else JNull)"

definition digits_from :: "nat \<Rightarrow> string \<Rightarrow> nat" where
  "digits_from n cs = foldl (\<lambda>a c. 10 * a + digit_val c) n cs"

lemma digits_from_simps [simp]:
  "digits_from n [] = n" "digits_from n (c # cs) = digits_from (10 * n + digit_val c) cs"
  by (simp_all add: digits_from_def)

lemma digits_from_ge: "n \<le> digits_from n cs"
proof (induction cs arbitrary: n)
  case (Cons c cs)
  show ?case using Cons [of "10 * n + digit_val c"] by simp
qed simp

lemma digit_val_le: "c_isdigit c \<Longrightarrow> digit_val c \<le> 9"
  by (auto simp: c_isdigit_def digit_val_def in_range_def)

lemma number_loop_float: "fst (number_loop mx cs V_number_float v) = V_number_float"
  by (induction cs arbitrary: v) auto

lemma number_loop_step:
  assumes "c_isdigit c" "unat v \<le> unat mx" "9 \<le> unat mx" "type \<noteq> V_number_float"
  shows "if 10 * unat v + digit_val c \<le> unat mx
    then number_loop mx (c # cs) type v = number_loop mx cs type (v * 10 + word_of_nat (digit_val c))
      \<and> unat (v * 10 + word_of_nat (digit_val c)) = 10 * unat v + digit_val c
    else number_loop mx (c # cs) type v = number_loop mx cs V_number_float v"
proof -
  let ?d = "word_of_nat (digit_val c) :: u64"
  have M: "unat mx < 2 ^ 64" using unsigned_less [of mx] by simp
  have d: "digit_val c \<le> 9" by (rule digit_val_le) fact
  then have ud: "unat ?d = digit_val c" by (simp add: unat_of_nat)
  then have sub: "unat (mx - ?d) = unat mx - digit_val c"
    using assms(3) d by (subst unat_sub) (auto simp: word_le_nat_alt)
  have test: "(mx - ?d) div 10 < v \<longleftrightarrow> unat mx < 10 * unat v + digit_val c"
    using d assms(3) by (auto simp: word_less_nat_alt unat_div sub div_less_iff_less_mult)
  have step: "unat (v * 10 + ?d) = 10 * unat v + digit_val c"
    if "10 * unat v + digit_val c \<le> unat mx"
    using that M by (simp add: unat_word_ariths ud)
  show ?thesis
    using test step assms(1,4) by auto
qed

lemma number_loop_digits:
  assumes "\<forall>c\<in>set cs. c_isdigit c" "unat v \<le> unat mx" "9 \<le> unat mx" "type \<noteq> V_number_float"
  shows "if digits_from (unat v) cs \<le> unat mx
    then number_loop mx cs type v = (type, word_of_nat (digits_from (unat v) cs))
    else fst (number_loop mx cs type v) = V_number_float"
  using assms
proof (induction cs arbitrary: v)
  case (Cons c cs)
  have c: "c_isdigit c" using Cons.prems by simp
  let ?v = "v * 10 + word_of_nat (digit_val c) :: u64"
  show ?case
  proof (cases "10 * unat v + digit_val c \<le> unat mx")
    case True
    then have "number_loop mx (c # cs) type v = number_loop mx cs type ?v"
      "unat ?v = 10 * unat v + digit_val c"
      using number_loop_step [OF c Cons.prems(2-4), of cs] by auto
    then show ?thesis using Cons.IH [of ?v] Cons.prems True by simp
  next
    case False
    then have "number_loop mx (c # cs) type v = number_loop mx cs V_number_float v"
      using number_loop_step [OF c Cons.prems(2-4), of cs] by auto
    then show ?thesis
      using False digits_from_ge [of "10 * unat v + digit_val c" cs] number_loop_float by simp
  qed
qed simp

lemma number_loop_nondigit:
  "\<exists>c\<in>set cs. \<not> c_isdigit c \<Longrightarrow> fst (number_loop mx cs type v) = V_number_float"
  by (induction cs arbitrary: type v) (auto simp: number_loop_float Let_def)

lemma digits_from_0: "digits_from 0 ds = nat_of_digits ds"
  by (simp add: digits_from_def nat_of_digits_def)

lemma get_number_float:
  "\<exists>c\<in>set (if peek (token_text l) = CHR ''-'' then tl (token_text l) else token_text l). \<not> c_isdigit c
    \<Longrightarrow> get_number fl l = float_or_null fl (token_text l)"
  using number_loop_nondigit
  by (auto simp: get_number_def Let_def float_or_null_def split_beta)

lemma get_number_digits:
  assumes "ds \<noteq> []" "\<forall>c\<in>set ds. c_isdigit c"
  shows "get_number fl \<lparr>last_token = k, token_text = ds, rest_text = r\<rparr> =
      (if nat_of_digits ds < 2 ^ 64 then JUint (word_of_nat (nat_of_digits ds))
       else float_or_null fl ds)
    \<and> get_number fl \<lparr>last_token = k, token_text = CHR ''-'' # ds, rest_text = r\<rparr> =
      (if nat_of_digits ds \<le> 2 ^ 63 then JInt (word_of_int (- int (nat_of_digits ds)))
       else float_or_null fl (CHR ''-'' # ds))"
proof
  let ?N = "nat_of_digits ds"
  have pk: "peek ds \<noteq> CHR ''-''" using assms by (cases ds) auto
  have mx': "unat uint64_max = 2 ^ 64 - 1" by (simp add: uint64_max_def)
  have loop: "if ?N < 2 ^ 64
      then number_loop uint64_max ds V_number_unsigned 0 = (V_number_unsigned, word_of_nat ?N)
      else fst (number_loop uint64_max ds V_number_unsigned 0) = V_number_float"
    using number_loop_digits [OF assms(2), of 0 uint64_max V_number_unsigned] mx'
    by (auto simp: digits_from_0 split: if_splits)
  then show "get_number fl \<lparr>last_token = k, token_text = ds, rest_text = r\<rparr> =
      (if ?N < 2 ^ 64 then JUint (word_of_nat ?N) else float_or_null fl ds)"
    using pk by (cases "?N < 2 ^ 64") (auto simp: get_number_def Let_def float_or_null_def split_beta)
  have mx: "unat (int64_max + 1) = 2 ^ 63" "int64_max + 1 = (2 ^ 63 :: u64)" by (simp_all add: int64_max_def)
  have eq: "(word_of_nat ?N :: u64) = int64_max + 1 \<longleftrightarrow> ?N = 2 ^ 63" if "?N \<le> 2 ^ 63"
    using that mx by (auto simp: word_unat_eq_iff unat_of_nat)
  have "if ?N \<le> 2 ^ 63
      then number_loop (int64_max + 1) ds V_number_integer 0 = (V_number_integer, word_of_nat ?N)
      else fst (number_loop (int64_max + 1) ds V_number_integer 0) = V_number_float"
    using number_loop_digits [OF assms(2), of 0 "int64_max + 1" V_number_integer] mx(1)
    by (auto simp: digits_from_0 split: if_splits)
  then show "get_number fl \<lparr>last_token = k, token_text = CHR ''-'' # ds, rest_text = r\<rparr> =
      (if ?N \<le> 2 ^ 63 then JInt (word_of_int (- int ?N)) else float_or_null fl (CHR ''-'' # ds))"
    using eq
    by (cases "?N \<le> 2 ^ 63"; cases "?N = 2 ^ 63")
      (simp_all add: get_number_def Let_def float_or_null_def split_beta int64_min_def)
qed

text \<open>
  Property C34: a token of digits is read exactly when its value is below 2^64, and a minus sign
  followed by digits exactly when the value is at most 2^63; everything longer becomes a
  floating-point number (null if that is not finite).
\<close>

theorem get_number_exact:
  assumes "ds \<noteq> []" "\<forall>c\<in>set ds. c_isdigit c"
  shows "get_number fl \<lparr>last_token = k, token_text = ds, rest_text = r\<rparr> =
      (if nat_of_digits ds < 2 ^ 64 then JUint (word_of_nat (nat_of_digits ds))
       else float_or_null fl ds)
    \<and> get_number fl \<lparr>last_token = k, token_text = CHR ''-'' # ds, rest_text = r\<rparr> =
      (if nat_of_digits ds \<le> 2 ^ 63 then JInt (word_of_int (- int (nat_of_digits ds)))
       else float_or_null fl (CHR ''-'' # ds))"
  using assms by (rule get_number_digits)

theorem get_number_exact_witness:
  "get_number int_dbl \<lparr>last_token = T_value_number, token_text = ''-128'', rest_text = []\<rparr> = JInt (-128)"
  using get_number_exact [of "''128''" int_dbl T_value_number "[]"]
  by (simp add: nat_of_digits_def digit_val_def c_isdigit_def in_range_def)

section \<open>Printed integers\<close>

lemma hd_string_of_nat: "n \<noteq> 0 \<Longrightarrow> hd (string_of_nat n) \<noteq> CHR ''0''"
proof (induction n rule: string_of_nat.induct)
  case (1 n)
  show ?case
  proof (cases "n < 10")
    case True
    then have "digit_val (hd (string_of_nat n)) = n" by (subst string_of_nat.simps) simp
    then show ?thesis using 1(2) by (auto simp: digit_val_def)
  next
    case False
    then have "n div 10 \<noteq> 0" by simp
    with 1 False show ?thesis by (subst string_of_nat.simps) simp
  qed
qed

lemma string_of_nat_0: "string_of_nat 0 = ''0''"
  by (simp add: libc_simps)

definition ends_number :: "string \<Rightarrow> bool" where
  "ends_number s \<longleftrightarrow> \<not> c_isdigit (peek s) \<and> peek s \<notin> {CHR ''.'', CHR ''e'', CHR ''E''}"

lemma number_prefix_string_of_nat:
  assumes "ends_number s"
  shows "number_prefix (string_of_nat n @ s) = Some (string_of_nat n)"
    "number_prefix (CHR ''-'' # string_of_nat n @ s) = Some (CHR ''-'' # string_of_nat n)"
proof -
  have dig: "\<forall>c\<in>set (string_of_nat n). c_isdigit c" using string_of_nat_digits by blast
  have "digits_part (string_of_nat n @ s) = string_of_nat n"
  proof -
    have "takeWhile c_isdigit s = []" using assms by (cases s) (auto simp: ends_number_def)
    then show ?thesis using dig by (simp add: digits_part_def takeWhile_append2)
  qed
  moreover have "peek (string_of_nat n @ s) = hd (string_of_nat n)"
    by (cases "string_of_nat n") auto
  ultimately have i: "int_part (string_of_nat n @ s) = string_of_nat n"
    using hd_string_of_nat [of n] string_of_nat_0 by (cases "n = 0") (auto simp: int_part_def)
  have f: "frac_part s = []" "exp_part s = []"
    using assms by (auto simp: ends_number_def frac_part_def exp_part_none)
  have m: "peek (string_of_nat n @ s) \<noteq> CHR ''-''"
    using dig by (cases "string_of_nat n") auto
  show "number_prefix (string_of_nat n @ s) = Some (string_of_nat n)"
    "number_prefix (CHR ''-'' # string_of_nat n @ s) = Some (CHR ''-'' # string_of_nat n)"
    using i f m by (simp_all add: number_prefix_def Let_def)
qed

text \<open>A printed integer is read as one token with its own value.\<close>

lemma scan_string_of_nat:
  assumes "ends_number s"
  shows "scan_token (string_of_nat n @ s) =
      \<lparr>last_token = T_value_number, token_text = string_of_nat n, rest_text = s\<rparr>"
    "scan_token (CHR ''-'' # string_of_nat n @ s) =
      \<lparr>last_token = T_value_number, token_text = CHR ''-'' # string_of_nat n, rest_text = s\<rparr>"
proof -
  have "c_isdigit (peek (string_of_nat n @ s))"
    using string_of_nat_digits [of _ n] by (cases "string_of_nat n") auto
  then show "scan_token (string_of_nat n @ s) =
      \<lparr>last_token = T_value_number, token_text = string_of_nat n, rest_text = s\<rparr>"
    using scan_number [of "string_of_nat n @ s"]
    by (simp add: number_prefix_string_of_nat [OF assms])
  show "scan_token (CHR ''-'' # string_of_nat n @ s) =
      \<lparr>last_token = T_value_number, token_text = CHR ''-'' # string_of_nat n, rest_text = s\<rparr>"
    using scan_number [of "CHR ''-'' # string_of_nat n @ s"]
    by (simp add: number_prefix_string_of_nat [OF assms])
qed

end
