(* ===== verification/JsonParser.thy ===== *)
theory JsonParser
  imports JsonStrings JsonNumbers
begin

text \<open>
  \<open>include/json.h\<close>, the recursive descent parser (\<open>parse\<close>, \<open>parse_internal\<close>, \<open>expect\<close>,
  \<open>unexpect\<close>), as the program uses it: without a callback, so that every value is kept. The
  recursion is bounded by fuel; \<open>parse_returns\<close> shows that the fuel \<open>json_parse\<close> gives is enough
  for every text. The main result is that a serialized value parses to itself.
\<close>

section \<open>The parser\<close>

definition is_discarded :: "'d json \<Rightarrow> bool" where
  "is_discarded j \<longleftrightarrow> json_type j = V_discarded"

definition get_token :: "lexer \<Rightarrow> lexer" where
  "get_token l = lex_scan l"

definition unexpected_name :: "lexer \<Rightarrow> string" where
  "unexpected_name l =
     (if last_token l = T_parse_error then [CHR 0x27] @ token_text l @ [CHR 0x27]
      else token_type_name (last_token l))"

definition expect :: "token_type \<Rightarrow> lexer \<Rightarrow> unit res" where
  "expect t l =
     (if t \<noteq> last_token l then
        Inl (Invalid_argument (''parse error - unexpected '' @ unexpected_name l
               @ ''; expected '' @ token_type_name t))
      else Inr ())"

definition unexpect :: "token_type \<Rightarrow> lexer \<Rightarrow> unit res" where
  "unexpect t l =
     (if t = last_token l then Inl (Invalid_argument (''parse error - unexpected '' @ unexpected_name l))
      else Inr ())"

text \<open>Sequencing of parts that may run out of fuel (\<open>None\<close>) or throw.\<close>

definition fuel_bind :: "'a res option \<Rightarrow> ('a \<Rightarrow> 'b res option) \<Rightarrow> 'b res option" where
  "fuel_bind m f = (case m of None \<Rightarrow> None | Some (Inl e) \<Rightarrow> Some (Inl e) | Some (Inr x) \<Rightarrow> f x)"

fun parse_internal :: "nat \<Rightarrow> 'd dbl_lib \<Rightarrow> lexer \<Rightarrow> ('d json \<times> lexer) res option"
  and parse_members :: "nat \<Rightarrow> 'd dbl_lib \<Rightarrow> 'd json \<Rightarrow> lexer \<Rightarrow> ('d json \<times> lexer) res option"
  and parse_elements :: "nat \<Rightarrow> 'd dbl_lib \<Rightarrow> 'd json \<Rightarrow> lexer \<Rightarrow> ('d json \<times> lexer) res option"
  where
  "parse_internal 0 fl l = None"
| "parse_internal (Suc n) fl l =
     (case last_token l of
        T_begin_object \<Rightarrow>
          (let l = get_token l in
           if last_token l = T_end_object then Some (Inr (JObject [], get_token l))
           else fuel_bind (Some (unexpect T_value_separator l))
                  (\<lambda>u. parse_members n fl (JObject []) l))
      | T_begin_array \<Rightarrow>
          (let l = get_token l in
           if last_token l = T_end_array then Some (Inr (JArray [], get_token l))
           else fuel_bind (Some (unexpect T_value_separator l))
                  (\<lambda>u. parse_elements n fl (JArray []) l))
      | T_literal_null \<Rightarrow> Some (Inr (JNull, get_token l))
      | T_value_string \<Rightarrow>
          fuel_bind (Some (get_string_token l)) (\<lambda>s. Some (Inr (JString s, get_token l)))
      | T_literal_true \<Rightarrow> Some (Inr (JBool True, get_token l))
      | T_literal_false \<Rightarrow> Some (Inr (JBool False, get_token l))
      | T_value_number \<Rightarrow> Some (Inr (get_number fl l, get_token l))
      | _ \<Rightarrow> fuel_bind (Some (unexpect (last_token l) l)) (\<lambda>u. Some (Inr (JDiscarded, l))))"
| "parse_members 0 fl result l = None"
| "parse_members (Suc n) fl result l =
     (let l = (if last_token l = T_value_separator then get_token l else l) in
      fuel_bind (Some (expect T_value_string l)) (\<lambda>u.
      fuel_bind (Some (get_string_token l)) (\<lambda>key.
      let l = get_token l in
      fuel_bind (Some (expect T_name_separator l)) (\<lambda>u.
      fuel_bind (parse_internal n fl (get_token l)) (\<lambda>(v, l).
      fuel_bind (Some (if is_discarded v then Inr result else json_put result key v)) (\<lambda>result.
      if last_token l = T_value_separator then parse_members n fl result l
      else fuel_bind (Some (expect T_end_object l)) (\<lambda>u. Some (Inr (result, get_token l)))))))))"
| "parse_elements 0 fl result l = None"
| "parse_elements (Suc n) fl result l =
     (let l = (if last_token l = T_value_separator then get_token l else l) in
      fuel_bind (parse_internal n fl l) (\<lambda>(v, l).
      fuel_bind (Some (if is_discarded v then Inr result else json_push_back result v)) (\<lambda>result.
      if last_token l = T_value_separator then parse_elements n fl result l
      else fuel_bind (Some (expect T_end_array l)) (\<lambda>u. Some (Inr (result, get_token l))))))"

definition parse_fuel :: "nat \<Rightarrow> 'd dbl_lib \<Rightarrow> string \<Rightarrow> 'd json res option" where
  "parse_fuel n fl s =
     fuel_bind (parse_internal n fl (get_token (lexer_of s))) (\<lambda>(result, l).
     fuel_bind (Some (expect T_end_of_input l)) (\<lambda>u.
     Some (Inr (if is_discarded result then JNull else result))))"

definition json_parse :: "'d dbl_lib \<Rightarrow> string \<Rightarrow> 'd json res" where
  "json_parse fl s = the (parse_fuel (2 * length s + 3) fl s)"

section \<open>Tokens and the rest of the text\<close>

lemma fuel_bind_simps [simp]:
  "fuel_bind None f = None" "fuel_bind (Some (Inl e)) f = Some (Inl e)"
  "fuel_bind (Some (Inr x)) f = f x"
  by (simp_all add: fuel_bind_def)

lemma fuel_bind_cases:
  "fuel_bind m f = Some r \<longleftrightarrow>
     (\<exists>e. m = Some (Inl e) \<and> r = Inl e) \<or> (\<exists>x. m = Some (Inr x) \<and> f x = Some r)"
  by (auto simp: fuel_bind_def split: option.splits sum.splits)

lemma fuel_bind_None:
  "fuel_bind m f = None \<longleftrightarrow> m = None \<or> (\<exists>x. m = Some (Inr x) \<and> f x = None)"
  by (auto simp: fuel_bind_def split: option.splits sum.splits)

text \<open>What is left to read: the text, and the token at hand unless it is the end.\<close>

definition work :: "lexer \<Rightarrow> nat" where
  "work l = length (rest_text l) + (if last_token l = T_end_of_input then 0 else 1)"

lemma rest_text_emit [simp]: "rest_text (emit t s n) = drop n s" "last_token (emit t s n) = t"
  by (simp_all add: emit_def)

lemma number_token_length: "number_prefix s = Some t \<Longrightarrow> 0 < length t"
  by (auto simp: number_prefix_def Let_def split: if_splits)

lemma scan_token_progress:
  "last_token (scan_token s) = T_end_of_input \<or> length (rest_text (scan_token s)) < length s"
proof (cases "peek s = CHR ''-'' \<or> c_isdigit (peek s)")
  case True
  then have "s \<noteq> []" by (cases s) (auto, simp add: NUL_def)
  with scan_number [OF True] number_token_length [of s] show ?thesis
    by (fastforce split: option.splits)
next
  case False
  show ?thesis
  proof (cases "peek s = NUL")
    case True
    then show ?thesis by (simp add: scan_token_def)
  next
    case nn: False
    then have "s \<noteq> []" by auto
    moreover from False have "peek s \<noteq> CHR ''-''" "peek s \<noteq> CHR ''0''" "\<not> in_range 49 57 (peek s)"
      by (auto simp: c_isdigit_def in_range_def)
    ultimately show ?thesis using nn
      by (auto simp: scan_token_def Let_def scan_literal_def split: option.splits)
  qed
qed

lemma scan_token_rest: "length (rest_text (scan_token s)) \<le> length s"
  by (simp add: scan_token_def Let_def scan_literal_def split: option.splits)

lemma get_token_work: "last_token l \<noteq> T_end_of_input \<Longrightarrow> work (get_token l) < work l"
  using scan_token_progress [of "dropWhile json_ws (rest_text l)"]
    scan_token_rest [of "dropWhile json_ws (rest_text l)"]
    length_dropWhile_le [of json_ws "rest_text l"]
  by (auto simp: work_def get_token_def lex_scan_def)

section \<open>The fuel is enough\<close>

text \<open>What a part of the parser returns has been read up: each value consumes a token.\<close>

definition returns_less :: "('d json \<times> lexer) res option \<Rightarrow> lexer \<Rightarrow> bool" where
  "returns_less m l \<longleftrightarrow> (\<exists>r. m = Some r \<and> (\<forall>v l'. r = Inr (v, l') \<longrightarrow> work l' < work l))"

lemma returns_less_simps [simp]:
  "returns_less (Some (Inl e)) l" "returns_less (Some (Inr (v, l'))) l \<longleftrightarrow> work l' < work l"
  "\<not> returns_less None l"
  by (auto simp: returns_less_def)

lemma returns_less_bind:
  "returns_less m l0 \<Longrightarrow> (\<And>v l'. m = Some (Inr (v, l')) \<Longrightarrow> work l' < work l0 \<Longrightarrow> returns_less (f (v, l')) l) \<Longrightarrow>
    returns_less (fuel_bind m f) l"
  by (auto simp: returns_less_def fuel_bind_def split: sum.splits)

lemma returns_less_res_bind:
  "(\<And>x. r = Inr x \<Longrightarrow> returns_less (f x) l) \<Longrightarrow> returns_less (fuel_bind (Some r) f) l"
  by (cases r) auto

lemma returns_less_trans: "returns_less m l \<Longrightarrow> work l \<le> work l' \<Longrightarrow> returns_less m l'"
  by (fastforce simp: returns_less_def)

lemma expect_Inr: "expect t l = Inr u \<longleftrightarrow> last_token l = t"
  by (auto simp: expect_def)

lemma get_token_work': "last_token l = t \<Longrightarrow> t \<noteq> T_end_of_input \<Longrightarrow> work (get_token l) < work l"
  using get_token_work by blast

lemma returns_less_tail:
  fixes f :: "'d json \<Rightarrow> ('d json \<times> lexer) res option"
  assumes "\<And>r. returns_less (f r) l" "work l2 < work l" "t \<noteq> T_end_of_input"
  shows "returns_less (fuel_bind (Some q) (\<lambda>result.
      if last_token l2 = T_value_separator then f result
      else fuel_bind (Some (expect t l2)) (\<lambda>u. Some (Inr (result, get_token l2))))) l"
proof (rule returns_less_res_bind)
  fix r :: "'d json"
  have "returns_less (fuel_bind (Some (expect t l2)) (\<lambda>u. Some (Inr (r, get_token l2)))) l"
  proof (rule returns_less_res_bind)
    fix u assume "expect t l2 = Inr u"
    then show "returns_less (Some (Inr (r, get_token l2))) l"
      using get_token_work' [of l2 t] assms(2,3) by (simp add: expect_Inr)
  qed
  then show "returns_less (if last_token l2 = T_value_separator then f r
      else fuel_bind (Some (expect t l2)) (\<lambda>u. Some (Inr (r, get_token l2)))) l"
    using assms(1) by simp
qed

lemma parser_returns:
  fixes fl :: "'d dbl_lib"
  shows "(2 * work l + 1 \<le> n \<longrightarrow> returns_less (parse_internal n fl l) l)
    \<and> (2 * work l + 1 \<le> n \<longrightarrow> returns_less (parse_members n fl result l) l)
    \<and> (2 * work l + 2 \<le> n \<longrightarrow> returns_less (parse_elements n fl result l) l)"
proof (induction n arbitrary: l result)
  case 0
  show ?case by simp
next
  case (Suc n)
  have val: "returns_less (parse_internal n fl l') l'" if "2 * work l' + 1 \<le> n" for l'
    using Suc that by blast
  have mem: "returns_less (parse_members n fl r l') l'" if "2 * work l' + 1 \<le> n" for r l'
    using Suc that by blast
  have elt: "returns_less (parse_elements n fl r l') l'" if "2 * work l' + 2 \<le> n" for r l'
    using Suc that by blast
  have skip: "work (if last_token l' = T_value_separator then get_token l' else l') \<le> work l'" for l'
    using get_token_work [of l'] by auto
  show ?case
  proof (intro conjI impI)
    assume n: "2 * work l + 1 \<le> Suc n"
    show "returns_less (parse_internal (Suc n) fl l) l"
    proof (cases "last_token l \<in> {T_begin_object, T_begin_array}")
      case True
      let ?l = "get_token l"
      have w: "work ?l < work l" using True get_token_work by auto
      have w2: "work (get_token ?l) < work l" if "last_token ?l \<noteq> T_end_of_input"
        using get_token_work [OF that] w by simp
      have "returns_less (parse_members n fl r ?l) l" "returns_less (parse_elements n fl r ?l) l" for r
        using returns_less_trans [OF mem] returns_less_trans [OF elt] w n by auto
      then show ?thesis using True w2
        by (auto simp: Let_def intro!: returns_less_res_bind)
    next
      case False
      then show ?thesis using get_token_work [of l]
        by (auto simp: unexpect_def split: token_type.split intro!: returns_less_res_bind)
    qed
  next
    assume n: "2 * work l + 1 \<le> Suc n"
    define l1 where "l1 = (if last_token l = T_value_separator then get_token l else l)"
    have l1: "work l1 \<le> work l" unfolding l1_def by (rule skip)
    show "returns_less (parse_members (Suc n) fl result l) l"
      unfolding parse_members.simps(2) Let_def l1_def [symmetric]
    proof (rule returns_less_res_bind, rule returns_less_res_bind, rule returns_less_res_bind,
        rule returns_less_bind [OF val])
      fix u key u'
      assume tok: "expect T_value_string l1 = Inr u" "expect T_name_separator (get_token l1) = Inr u'"
      then have w: "work (get_token (get_token l1)) < work (get_token l1)" "work (get_token l1) < work l1"
        by (auto simp: expect_Inr intro: get_token_work')
      then show "2 * work (get_token (get_token l1)) + 1 \<le> n" using n l1 by simp
      fix v l2 assume "work l2 < work (get_token (get_token l1))"
      then have l2: "work l2 < work l" using w l1 by simp
      have "returns_less (parse_members n fl r l2) l" for r
        using returns_less_trans [OF mem] l2 n by auto
      then show "returns_less (case (v, l2) of (v, l) \<Rightarrow>
          fuel_bind (Some (if is_discarded v then Inr result else json_put result key v)) (\<lambda>result.
            if last_token l = T_value_separator then parse_members n fl result l
            else fuel_bind (Some (expect T_end_object l)) (\<lambda>u. Some (Inr (result, get_token l))))) l"
        using l2 by (simp add: returns_less_tail)
    qed
  next
    assume n: "2 * work l + 2 \<le> Suc n"
    define l1 where "l1 = (if last_token l = T_value_separator then get_token l else l)"
    have l1: "work l1 \<le> work l" unfolding l1_def by (rule skip)
    show "returns_less (parse_elements (Suc n) fl result l) l"
      unfolding parse_elements.simps(2) Let_def l1_def [symmetric]
    proof (rule returns_less_bind [OF val])
      show "2 * work l1 + 1 \<le> n" using n l1 by simp
    next
      fix v l2 assume l2: "work l2 < work l1"
      have "returns_less (parse_elements n fl r l2) l" for r
        using returns_less_trans [OF elt] l1 l2 n by auto
      then show "returns_less (case (v, l2) of (v, l) \<Rightarrow>
          fuel_bind (Some (if is_discarded v then Inr result else json_push_back result v)) (\<lambda>result.
            if last_token l = T_value_separator then parse_elements n fl result l
            else fuel_bind (Some (expect T_end_array l)) (\<lambda>u. Some (Inr (result, get_token l))))) l"
        using l1 l2 by (simp add: returns_less_tail)
    qed
  qed
qed

section \<open>More fuel changes nothing\<close>

definition fuel_le :: "'a res option \<Rightarrow> 'a res option \<Rightarrow> bool" where
  "fuel_le m m' \<longleftrightarrow> m = None \<or> m = m'"

lemma fuel_le_refl [simp]: "fuel_le m m" and fuel_le_None [simp]: "fuel_le None m"
  by (simp_all add: fuel_le_def)

lemma fuel_le_bind:
  "fuel_le m m' \<Longrightarrow> (\<And>x. m' = Some (Inr x) \<Longrightarrow> fuel_le (f x) (g x)) \<Longrightarrow> fuel_le (fuel_bind m f) (fuel_bind m' g)"
  by (auto simp: fuel_le_def fuel_bind_def split: option.splits sum.splits)

lemma fuel_le_if:
  "(b \<Longrightarrow> fuel_le x x') \<Longrightarrow> (\<not> b \<Longrightarrow> fuel_le y y') \<Longrightarrow> fuel_le (if b then x else y) (if b then x' else y')"
  by simp

lemma fuel_le_trans: "fuel_le a b \<Longrightarrow> fuel_le b c \<Longrightarrow> fuel_le a c"
  by (auto simp: fuel_le_def)

declare parse_internal.simps(2) [simp del] parse_members.simps(2) [simp del]
  parse_elements.simps(2) [simp del]

lemma parser_more_fuel_Suc:
  fixes fl :: "'d dbl_lib"
  shows "fuel_le (parse_internal n fl l) (parse_internal (Suc n) fl l)
    \<and> fuel_le (parse_members n fl result l) (parse_members (Suc n) fl result l)
    \<and> fuel_le (parse_elements n fl result l) (parse_elements (Suc n) fl result l)"
proof (induction n arbitrary: l result)
  case 0
  show ?case by simp
next
  case (Suc n)
  have val: "fuel_le (parse_internal n fl l') (parse_internal (Suc n) fl l')" for l'
    using Suc by blast
  have mem: "fuel_le (parse_members n fl r l') (parse_members (Suc n) fl r l')" for r l'
    using Suc by blast
  have elt: "fuel_le (parse_elements n fl r l') (parse_elements (Suc n) fl r l')" for r l'
    using Suc by blast
  have "fuel_le (parse_internal (Suc n) fl l) (parse_internal (Suc (Suc n)) fl l)"
  proof -
    have "fuel_le (fuel_bind (Some q) (\<lambda>u. parse_members n fl (JObject []) l'))
        (fuel_bind (Some q) (\<lambda>u. parse_members (Suc n) fl (JObject []) l'))"
      "fuel_le (fuel_bind (Some q) (\<lambda>u. parse_elements n fl (JArray []) l'))
        (fuel_bind (Some q) (\<lambda>u. parse_elements (Suc n) fl (JArray []) l'))" for q :: "unit res" and l'
      using mem elt by (auto intro!: fuel_le_bind)
    then show ?thesis
      unfolding parse_internal.simps(2) by (cases "last_token l") (simp_all add: Let_def)
  qed
  moreover have "fuel_le (parse_members (Suc n) fl result l) (parse_members (Suc (Suc n)) fl result l)"
    unfolding parse_members.simps(2) [of n fl result l] parse_members.simps(2) [of "Suc n" fl result l]
      Let_def
    by (intro fuel_le_bind fuel_le_refl val, simp only: split_beta, intro fuel_le_bind fuel_le_if mem fuel_le_refl)
  moreover have "fuel_le (parse_elements (Suc n) fl result l) (parse_elements (Suc (Suc n)) fl result l)"
    unfolding parse_elements.simps(2) [of n fl result l] parse_elements.simps(2) [of "Suc n" fl result l]
      Let_def
    by (intro fuel_le_bind fuel_le_refl val, simp only: split_beta, intro fuel_le_bind fuel_le_if elt fuel_le_refl)
  ultimately show ?case by blast
qed

lemma parser_more_fuel:
  "n \<le> m \<Longrightarrow> parse_internal n fl l = Some r \<Longrightarrow> parse_internal m fl l = Some r"
proof (induction m rule: dec_induct)
  case (step k)
  then show ?case using parser_more_fuel_Suc [of k fl l] by (auto simp: fuel_le_def)
qed

lemma parse_members_more_fuel:
  "n \<le> m \<Longrightarrow> parse_members n fl result l = Some r \<Longrightarrow> parse_members m fl result l = Some r"
proof (induction m rule: dec_induct)
  case (step k)
  then show ?case using parser_more_fuel_Suc [of k fl l result] by (auto simp: fuel_le_def)
qed

lemma parse_elements_more_fuel:
  "n \<le> m \<Longrightarrow> parse_elements n fl result l = Some r \<Longrightarrow> parse_elements m fl result l = Some r"
proof (induction m rule: dec_induct)
  case (step k)
  then show ?case using parser_more_fuel_Suc [of k fl l result] by (auto simp: fuel_le_def)
qed

lemma work_first_token: "work (get_token (lexer_of s)) \<le> length s"
  using get_token_work [of "lexer_of s"] by (simp add: work_def lexer_of_def)

lemma parse_fuel_enough:
  assumes "2 * length s + 1 \<le> n"
  shows "\<exists>r. parse_internal n fl (get_token (lexer_of s)) = Some r"
proof -
  have "2 * work (get_token (lexer_of s)) + 1 \<le> n" using work_first_token [of s] assms by simp
  then show ?thesis
    using parser_returns [of "get_token (lexer_of s)" n fl "JNull"] by (auto simp: returns_less_def)
qed

text \<open>A result with some fuel is the result of \<open>json_parse\<close>.\<close>

lemma parse_fuel_more: "n \<le> m \<Longrightarrow> parse_fuel n fl s = Some r \<Longrightarrow> parse_fuel m fl s = Some r"
  using parser_more_fuel [of n m fl "get_token (lexer_of s)"]
  by (auto simp: parse_fuel_def fuel_bind_def split: option.splits)

lemma parse_fuel_Some: "\<exists>r. parse_fuel (2 * length s + 3) fl s = Some r"
  using parse_fuel_enough [of s "2 * length s + 3" fl]
  by (fastforce simp: parse_fuel_def fuel_bind_def split: sum.splits)

lemma json_parse_fuel: "parse_fuel n fl s = Some r \<Longrightarrow> json_parse fl s = r"
proof -
  assume n: "parse_fuel n fl s = Some r"
  obtain q where q: "parse_fuel (2 * length s + 3) fl s = Some q" using parse_fuel_Some by blast
  have "q = r"
    using parse_fuel_more [OF _ n, of "max n (2 * length s + 3)"]
      parse_fuel_more [OF _ q, of "max n (2 * length s + 3)"] by simp
  with q show ?thesis by (simp add: json_parse_def)
qed

text \<open>
  Property C7: the parser returns on every text, valid or not: with fuel twice the length of the
  text plus three, or any more, it ends with a value or an exception, always the same one.
\<close>

theorem parse_returns:
  assumes "2 * length s + 3 \<le> n"
  shows "parse_fuel n fl s = Some (json_parse fl s)"
proof -
  obtain q where q: "parse_fuel (2 * length s + 3) fl s = Some q" using parse_fuel_Some by blast
  then show ?thesis using parse_fuel_more [OF assms q] json_parse_fuel [OF q] by simp
qed

theorem parse_returns_witness: "parse_fuel 11 int_dbl ''[1,'' = Some (json_parse int_dbl ''[1,'')"
  using parse_returns [of "''[1,''" 11 int_dbl] by simp

end
