(* ===== verification/JsonRoundtrip.thy ===== *)
theory JsonRoundtrip
  imports JsonParser
begin

text \<open>
  Reading back what the serializer writes: for values without floating-point numbers and with valid
  UTF-8 strings, the parser applied to the text of \<open>dump\<close>, compact or indented, gives the value
  again. Non-negative integers come back as unsigned ones.
\<close>

section \<open>The values\<close>

function json_plain :: "'d json \<Rightarrow> bool" where
  "json_plain JNull = True"
| "json_plain (JObject m) = (map_sorted m \<and> (\<forall>e\<in>set m. utf8_text (fst e) \<and> json_plain (snd e)))"
| "json_plain (JArray xs) = (\<forall>x\<in>set xs. json_plain x)"
| "json_plain (JString s) = utf8_text s"
| "json_plain (JBool b) = True"
| "json_plain (JInt i) = True"
| "json_plain (JUint u) = True"
| "json_plain (JFloat d) = False"
| "json_plain JDiscarded = False"
  by pat_completeness auto
termination
  by (relation "measure size") (auto dest!: json_size simp del: json.size)

text \<open>The value as the parser types it: a number without a minus sign is unsigned.\<close>

function canon :: "'d json \<Rightarrow> 'd json" where
  "canon JNull = JNull"
| "canon (JObject m) = JObject (map (\<lambda>e. (fst e, canon (snd e))) m)"
| "canon (JArray xs) = JArray (map canon xs)"
| "canon (JString s) = JString s"
| "canon (JBool b) = JBool b"
| "canon (JInt i) = (if 0 \<le> sint i then JUint i else JInt i)"
| "canon (JUint u) = JUint u"
| "canon (JFloat d) = JFloat d"
| "canon JDiscarded = JDiscarded"
  by pat_completeness auto
termination
  by (relation "measure size") (auto dest!: json_size simp del: json.size)

lemma canon_not_discarded: "json_plain j \<Longrightarrow> \<not> is_discarded (canon j)"
  by (cases j) (auto simp: is_discarded_def)

section \<open>Results with some fuel\<close>

definition val_yields :: "'d dbl_lib \<Rightarrow> lexer \<Rightarrow> ('d json \<times> lexer) res \<Rightarrow> bool" where
  "val_yields fl l r \<longleftrightarrow> (\<exists>n. parse_internal n fl l = Some r)"

definition mem_yields :: "'d dbl_lib \<Rightarrow> 'd json \<Rightarrow> lexer \<Rightarrow> ('d json \<times> lexer) res \<Rightarrow> bool" where
  "mem_yields fl result l r \<longleftrightarrow> (\<exists>n. parse_members n fl result l = Some r)"

definition elt_yields :: "'d dbl_lib \<Rightarrow> 'd json \<Rightarrow> lexer \<Rightarrow> ('d json \<times> lexer) res \<Rightarrow> bool" where
  "elt_yields fl result l r \<longleftrightarrow> (\<exists>n. parse_elements n fl result l = Some r)"

lemma expect_ok [simp]: "last_token l = t \<Longrightarrow> expect t l = Inr ()"
  by (simp add: expect_def)

lemma mem_yields_step:
  assumes "last_token l = T_value_string" "get_string_token l = Inr key"
    "last_token (get_token l) = T_name_separator"
    "val_yields fl (get_token (get_token l)) (Inr (v, l2))" "\<not> is_discarded v"
    "last_token l2 = T_end_object \<and> r = Inr (JObject (map_assign key v m), get_token l2)
      \<or> last_token l2 = T_value_separator \<and> mem_yields fl (JObject (map_assign key v m)) l2 r"
  shows "mem_yields fl (JObject m) l r"
proof -
  obtain n where n: "parse_internal n fl (get_token (get_token l)) = Some (Inr (v, l2))"
    using assms(4) by (auto simp: val_yields_def)
  have put: "json_put (JObject m) key v = Inr (JObject (map_assign key v m))"
    by (simp add: json_put_cases)
  from assms(6) show ?thesis
  proof (elim disjE conjE)
    assume "last_token l2 = T_end_object" "r = Inr (JObject (map_assign key v m), get_token l2)"
    with assms n put have "parse_members (Suc n) fl (JObject m) l = Some r"
      by (simp add: parse_members.simps(2))
    then show ?thesis by (auto simp: mem_yields_def)
  next
    assume sep: "last_token l2 = T_value_separator"
      and "mem_yields fl (JObject (map_assign key v m)) l2 r"
    then obtain k where "parse_members k fl (JObject (map_assign key v m)) l2 = Some r"
      by (auto simp: mem_yields_def)
    then have "parse_members (max n k) fl (JObject (map_assign key v m)) l2 = Some r"
      by (rule parse_members_more_fuel [rotated]) simp
    moreover have "parse_internal (max n k) fl (get_token (get_token l)) = Some (Inr (v, l2))"
      using n by (rule parser_more_fuel [rotated]) simp
    ultimately have "parse_members (Suc (max n k)) fl (JObject m) l = Some r"
      using assms(1-3,5) put sep by (simp add: parse_members.simps(2))
    then show ?thesis unfolding mem_yields_def by blast
  qed
qed

lemma elt_yields_step:
  assumes "last_token l \<noteq> T_value_separator" "val_yields fl l (Inr (v, l2))" "\<not> is_discarded v"
    "last_token l2 = T_end_array \<and> r = Inr (JArray (xs @ [v]), get_token l2)
      \<or> last_token l2 = T_value_separator \<and> elt_yields fl (JArray (xs @ [v])) l2 r"
  shows "elt_yields fl (JArray xs) l r"
proof -
  obtain n where n: "parse_internal n fl l = Some (Inr (v, l2))"
    using assms(2) by (auto simp: val_yields_def)
  have push: "json_push_back (JArray xs) v = Inr (JArray (xs @ [v]))"
    by (simp add: json_push_back_def is_null_def is_array_def)
  from assms(4) show ?thesis
  proof (elim disjE conjE)
    assume "last_token l2 = T_end_array" "r = Inr (JArray (xs @ [v]), get_token l2)"
    with assms n push have "parse_elements (Suc n) fl (JArray xs) l = Some r"
      by (simp add: parse_elements.simps(2))
    then show ?thesis by (auto simp: elt_yields_def)
  next
    assume sep: "last_token l2 = T_value_separator" and "elt_yields fl (JArray (xs @ [v])) l2 r"
    then obtain k where "parse_elements k fl (JArray (xs @ [v])) l2 = Some r"
      by (auto simp: elt_yields_def)
    then have "parse_elements (max n k) fl (JArray (xs @ [v])) l2 = Some r"
      by (rule parse_elements_more_fuel [rotated]) simp
    moreover have "parse_internal (max n k) fl l = Some (Inr (v, l2))"
      using n by (rule parser_more_fuel [rotated]) simp
    ultimately have "parse_elements (Suc (max n k)) fl (JArray xs) l = Some r"
      using assms(1,3) push sep by (simp add: parse_elements.simps(2))
    then show ?thesis unfolding elt_yields_def by blast
  qed
qed

text \<open>The loops start in the same way before and after a comma.\<close>

lemma yields_after_comma:
  assumes "last_token l = T_value_separator" "last_token (get_token l) \<noteq> T_value_separator"
  shows "mem_yields fl r l x \<longleftrightarrow> mem_yields fl r (get_token l) x"
    "elt_yields fl r l x \<longleftrightarrow> elt_yields fl r (get_token l) x"
proof -
  have "parse_members n fl r l = parse_members n fl r (get_token l)"
    "parse_elements n fl r l = parse_elements n fl r (get_token l)" for n
    using assms by (cases n; simp add: parse_members.simps(2) parse_elements.simps(2))+
  then show "mem_yields fl r l x \<longleftrightarrow> mem_yields fl r (get_token l) x"
    "elt_yields fl r l x \<longleftrightarrow> elt_yields fl r (get_token l) x"
    by (simp_all add: mem_yields_def elt_yields_def)
qed

lemma val_yields_Suc: "parse_internal (Suc n) fl l = Some r \<Longrightarrow> val_yields fl l r"
  unfolding val_yields_def by blast

lemma val_yields_object:
  assumes "last_token l = T_begin_object" "last_token (get_token l) \<noteq> T_end_object"
    "last_token (get_token l) \<noteq> T_value_separator" "mem_yields fl (JObject []) (get_token l) r"
  shows "val_yields fl l r"
proof -
  obtain n where "parse_members n fl (JObject []) (get_token l) = Some r"
    using assms(4) by (auto simp: mem_yields_def)
  then show ?thesis using assms(1-3)
    by (intro val_yields_Suc [of n]) (simp add: parse_internal.simps(2) unexpect_def)
qed

lemma val_yields_array:
  assumes "last_token l = T_begin_array" "last_token (get_token l) \<noteq> T_end_array"
    "last_token (get_token l) \<noteq> T_value_separator" "elt_yields fl (JArray []) (get_token l) r"
  shows "val_yields fl l r"
proof -
  obtain n where "parse_elements n fl (JArray []) (get_token l) = Some r"
    using assms(4) by (auto simp: elt_yields_def)
  then show ?thesis using assms(1-3)
    by (intro val_yields_Suc [of n]) (simp add: parse_internal.simps(2) unexpect_def)
qed

section \<open>Tokens of the serialized text\<close>

lemma get_token_eq: "get_token l = scan_token (dropWhile json_ws (rest_text l))"
  by (simp add: get_token_def lex_scan_def)

lemma scan_punctuation [simp]:
  "scan_token (CHR '','' # s) = \<lparr>last_token = T_value_separator, token_text = '','', rest_text = s\<rparr>"
  "scan_token (CHR '':'' # s) = \<lparr>last_token = T_name_separator, token_text = '':'', rest_text = s\<rparr>"
  "scan_token (CHR ''['' # s) = \<lparr>last_token = T_begin_array, token_text = ''['', rest_text = s\<rparr>"
  "scan_token (CHR '']'' # s) = \<lparr>last_token = T_end_array, token_text = '']'', rest_text = s\<rparr>"
  "scan_token (CHR ''{'' # s) = \<lparr>last_token = T_begin_object, token_text = ''{'', rest_text = s\<rparr>"
  "scan_token (CHR ''}'' # s) = \<lparr>last_token = T_end_object, token_text = ''}'', rest_text = s\<rparr>"
  by (simp_all add: scan_token_def NUL_def in_range_def emit_def)

lemma scan_words [simp]:
  "scan_token (CHR ''n'' # CHR ''u'' # CHR ''l'' # CHR ''l'' # s) = \<lparr>last_token = T_literal_null, token_text = ''null'', rest_text = s\<rparr>"
  "scan_token (CHR ''t'' # CHR ''r'' # CHR ''u'' # CHR ''e'' # s) = \<lparr>last_token = T_literal_true, token_text = ''true'', rest_text = s\<rparr>"
  "scan_token (CHR ''f'' # CHR ''a'' # CHR ''l'' # CHR ''s'' # CHR ''e'' # s) = \<lparr>last_token = T_literal_false, token_text = ''false'', rest_text = s\<rparr>"
  by (simp_all add: scan_token_def NUL_def in_range_def emit_def scan_literal_def)

lemma json_ws_chars [simp]:
  "json_ws CHR '' ''" "json_ws CHR 0x0A" "\<not> json_ws CHR '',''" "\<not> json_ws CHR '':''"
  "\<not> json_ws CHR 0x22" "\<not> json_ws CHR ''{''" "\<not> json_ws CHR ''}''" "\<not> json_ws CHR ''[''"
  "\<not> json_ws CHR '']''" "\<not> json_ws CHR ''-''" "\<not> json_ws CHR ''n''" "\<not> json_ws CHR ''t''"
  "\<not> json_ws CHR ''f''"
  by (simp_all add: json_ws_def)

lemma digit_not_ws: "c_isdigit c \<Longrightarrow> \<not> json_ws c"
  by (auto simp: c_isdigit_def in_range_def json_ws_def)

lemma dropWhile_spaces [simp]:
  "dropWhile json_ws (replicate n CHR '' '' @ s) = dropWhile json_ws s"
  by (induction n) auto

lemma dropWhile_not_ws: "\<not> json_ws (peek s) \<Longrightarrow> dropWhile json_ws s = s"
  by (cases s) auto

definition value_start :: "token_type set" where
  "value_start = {T_literal_null, T_literal_true, T_literal_false, T_value_string, T_value_number,
     T_begin_array, T_begin_object}"

lemma string_of_nat_peek: "c_isdigit (peek (string_of_nat n @ s))"
  using string_of_nat_digits [of _ n] by (cases "string_of_nat n") auto

lemma string_of_int_cases:
  "string_of_int i = (if i < 0 then CHR ''-'' # string_of_nat (nat (- i)) else string_of_nat (nat i))"
  by (simp add: string_of_int_def)

lemma dump_start:
  assumes "json_plain j" "ends_number rest"
  shows "last_token (scan_token (dump_to fl pp st cur j @ rest)) \<in> value_start"
    "\<not> json_ws (peek (dump_to fl pp st cur j @ rest))"
proof -
  have "last_token (scan_token (dump_to fl pp st cur j @ rest)) \<in> value_start
    \<and> \<not> json_ws (peek (dump_to fl pp st cur j @ rest))"
  proof (cases j)
    case (JString s)
    then have "utf8_text s" using assms by simp
    then show ?thesis using scan_quoted [of s rest] JString by (simp add: value_start_def)
  next
    case (JInt i)
    then show ?thesis using assms(2) digit_not_ws [OF string_of_nat_peek]
      by (simp add: string_of_int_cases scan_string_of_nat value_start_def)
  next
    case (JUint u)
    then show ?thesis using assms(2) digit_not_ws [OF string_of_nat_peek]
      by (simp add: scan_string_of_nat value_start_def)
  qed (use assms in \<open>auto simp: value_start_def Let_def\<close>)
  then show "last_token (scan_token (dump_to fl pp st cur j @ rest)) \<in> value_start"
    "\<not> json_ws (peek (dump_to fl pp st cur j @ rest))" by auto
qed

section \<open>One member, one element\<close>

definition reads :: "'d dbl_lib \<Rightarrow> string \<Rightarrow> 'd json \<Rightarrow> bool" where
  "reads fl s j \<longleftrightarrow> (\<forall>rest. ends_number rest \<longrightarrow>
     val_yields fl (scan_token (s @ rest)) (Inr (j, scan_token (dropWhile json_ws rest))))"

definition canon_members :: "(string \<times> 'd json) list \<Rightarrow> (string \<times> 'd json) list" where
  "canon_members m = map (\<lambda>e. (fst e, canon (snd e))) m"

lemma canon_members_simps [simp]:
  "canon_members [] = []" "canon_members (e # m) = (fst e, canon (snd e)) # canon_members m"
  "fst ` set (canon_members m) = fst ` set m"
  by (simp_all add: canon_members_def image_image)

lemma dump_members_False:
  "m \<noteq> [] \<Longrightarrow> dump_members fl pp st ni False m =
     CHR '','' # (if pp then [CHR 0x0A] else []) @ dump_members fl pp st ni True m"
  by (cases m) auto

lemma dump_elements_False:
  "xs \<noteq> [] \<Longrightarrow> dump_elements fl pp st ni False xs =
     CHR '','' # (if pp then [CHR 0x0A] else []) @ dump_elements fl pp st ni True xs"
  by (cases xs) auto

lemma ends_number_intro [simp]:
  "ends_number (CHR '','' # s)" "ends_number (CHR ''}'' # s)" "ends_number (CHR '']'' # s)"
  "ends_number (CHR 0x0A # s)" "ends_number []"
  by (simp_all add: ends_number_def c_isdigit_def in_range_def NUL_def)

lemma ends_number_ws: "dropWhile json_ws s = c # r \<Longrightarrow> c = CHR ''}'' \<or> c = CHR '']'' \<Longrightarrow> ends_number s"
  by (cases s) (auto simp: ends_number_def json_ws_def c_isdigit_def in_range_def split: if_splits)

text \<open>The first token of the members is the key of the first one.\<close>

lemma members_first:
  assumes "m \<noteq> []" "utf8_text (fst (hd m))"
  shows "last_token (scan_token (dropWhile json_ws (dump_members fl pp st ni True m @ tail))) = T_value_string"
proof -
  obtain e m' where m: "m = e # m'" using assms(1) by (cases m) auto
  show ?thesis using assms(2) scan_quoted [of "fst e"] by (simp add: m)
qed

lemma members_step:
  assumes e: "utf8_text (fst e)" "json_plain (snd e)"
    and val: "reads fl (dump_to fl pp st ni (snd e)) (canon (snd e))"
    and sorted: "\<forall>k\<in>fst ` set acc. k < fst e"
    and tail: "dropWhile json_ws tail = CHR ''}'' # rest"
    and more: "m \<noteq> [] \<Longrightarrow> utf8_text (fst (hd m))
      \<and> mem_yields fl (JObject (acc @ [(fst e, canon (snd e))]))
          (scan_token (dropWhile json_ws (dump_members fl pp st ni True m @ tail)))
          (Inr (JObject (acc @ (fst e, canon (snd e)) # canon_members m), scan_token (dropWhile json_ws rest)))"
  shows "mem_yields fl (JObject acc)
      (scan_token (dropWhile json_ws (dump_members fl pp st ni True (e # m) @ tail)))
      (Inr (JObject (acc @ (fst e, canon (snd e)) # canon_members m), scan_token (dropWhile json_ws rest)))"
proof -
  define U where "U = dump_members fl pp st ni False m @ tail"
  define V where "V = dump_to fl pp st ni (snd e) @ U"
  define l where "l = scan_token (CHR 0x22 # escape_string (fst e) @ CHR 0x22 # CHR '':'' # (if pp then '' '' else []) @ V)"
  have U: "ends_number U"
    using ends_number_ws [OF tail] dump_members_False [of m fl pp st ni] by (cases "m = []") (auto simp: U_def)
  have whole: "scan_token (dropWhile json_ws (dump_members fl pp st ni True (e # m) @ tail)) = l"
    by (simp add: l_def V_def U_def)
  have l: "last_token l = T_value_string" "get_string_token l = Inr (fst e)"
    "get_token l = \<lparr>last_token = T_name_separator, token_text = '':'', rest_text = (if pp then '' '' else []) @ V\<rparr>"
    unfolding l_def get_token_eq using scan_quoted [OF e(1)] by (simp, blast, simp)
  have l3: "last_token (get_token l) = T_name_separator" by (simp add: l(3))
  have "dropWhile json_ws V = V"
    using dump_start(2) [OF e(2) U] by (simp add: V_def dropWhile_not_ws)
  then have "get_token (get_token l) = scan_token V"
    unfolding l(3) by (cases pp) (simp_all add: get_token_eq)
  then have "val_yields fl (get_token (get_token l)) (Inr (canon (snd e), scan_token (dropWhile json_ws U)))"
    using val U by (simp add: reads_def V_def)
  moreover have "last_token (scan_token (dropWhile json_ws U)) = T_end_object
      \<and> Inr (JObject (acc @ (fst e, canon (snd e)) # canon_members m), scan_token (dropWhile json_ws rest))
        = Inr (JObject (map_assign (fst e) (canon (snd e)) acc), get_token (scan_token (dropWhile json_ws U)))
    \<or> last_token (scan_token (dropWhile json_ws U)) = T_value_separator
      \<and> mem_yields fl (JObject (map_assign (fst e) (canon (snd e)) acc)) (scan_token (dropWhile json_ws U))
        (Inr (JObject (acc @ (fst e, canon (snd e)) # canon_members m), scan_token (dropWhile json_ws rest)))"
  proof (cases "m = []")
    case True
    then show ?thesis using tail sorted by (simp add: U_def get_token_eq map_assign_last)
  next
    case False
    define l4 where "l4 = scan_token (dropWhile json_ws U)"
    have sep: "last_token l4 = T_value_separator"
      "get_token l4 = scan_token (dropWhile json_ws (dump_members fl pp st ni True m @ tail))"
      by (simp_all add: l4_def U_def dump_members_False [OF False] get_token_eq)
    have "last_token (get_token l4) \<noteq> T_value_separator"
      using members_first [OF False] more [OF False] by (simp add: sep)
    then have "mem_yields fl r l4 x \<longleftrightarrow> mem_yields fl r (get_token l4) x" for r x
      by (rule yields_after_comma(1) [OF sep(1)])
    then show ?thesis using more [OF False] sep sorted by (simp add: l4_def [symmetric] map_assign_last)
  qed
  ultimately show ?thesis
    unfolding whole by (rule mem_yields_step [OF l(1,2) l3 _ canon_not_discarded [OF e(2)]])
qed

lemma elements_step:
  assumes x: "json_plain x"
    and val: "reads fl (dump_to fl pp st ni x) (canon x)"
    and tail: "dropWhile json_ws tail = CHR '']'' # rest"
    and more: "xs \<noteq> [] \<Longrightarrow> json_plain (hd xs)
      \<and> elt_yields fl (JArray (acc @ [canon x]))
          (scan_token (dropWhile json_ws (dump_elements fl pp st ni True xs @ tail)))
          (Inr (JArray (acc @ canon x # map canon xs), scan_token (dropWhile json_ws rest)))"
  shows "elt_yields fl (JArray acc)
      (scan_token (dropWhile json_ws (dump_elements fl pp st ni True (x # xs) @ tail)))
      (Inr (JArray (acc @ canon x # map canon xs), scan_token (dropWhile json_ws rest)))"
proof -
  define U where "U = dump_elements fl pp st ni False xs @ tail"
  define l where "l = scan_token (dump_to fl pp st ni x @ U)"
  have U: "ends_number (dump_elements fl pp st ni False ys @ tail)" for ys
    using ends_number_ws [OF tail] dump_elements_False [of ys fl pp st ni] by (cases "ys = []") auto
  have whole: "scan_token (dropWhile json_ws (dump_elements fl pp st ni True (x # xs) @ tail)) = l"
    using dump_start(2) [OF x U, of fl pp st ni xs] by (simp add: l_def U_def dropWhile_not_ws)
  have l: "last_token l \<noteq> T_value_separator"
    using dump_start(1) [OF x U, of fl pp st ni xs] by (auto simp: l_def U_def value_start_def)
  have "val_yields fl l (Inr (canon x, scan_token (dropWhile json_ws U)))"
    using val U by (simp add: reads_def l_def U_def)
  moreover have "last_token (scan_token (dropWhile json_ws U)) = T_end_array
      \<and> Inr (JArray (acc @ canon x # map canon xs), scan_token (dropWhile json_ws rest))
        = Inr (JArray (acc @ [canon x]), get_token (scan_token (dropWhile json_ws U)))
    \<or> last_token (scan_token (dropWhile json_ws U)) = T_value_separator
      \<and> elt_yields fl (JArray (acc @ [canon x])) (scan_token (dropWhile json_ws U))
        (Inr (JArray (acc @ canon x # map canon xs), scan_token (dropWhile json_ws rest)))"
  proof (cases xs)
    case Nil
    then show ?thesis using tail by (simp add: U_def get_token_eq)
  next
    case (Cons y ys)
    define l4 where "l4 = scan_token (dropWhile json_ws U)"
    have sep: "last_token l4 = T_value_separator"
      "get_token l4 = scan_token (dropWhile json_ws (dump_elements fl pp st ni True xs @ tail))"
      using Cons by (simp_all add: l4_def U_def get_token_eq)
    have y: "json_plain y" using more Cons by simp
    have "last_token (get_token l4) \<in> value_start"
      using dump_start [OF y U, of fl pp st ni ys] by (simp add: sep Cons dropWhile_not_ws)
    then have "last_token (get_token l4) \<noteq> T_value_separator" by (auto simp: value_start_def)
    then have "elt_yields fl r l4 x \<longleftrightarrow> elt_yields fl r (get_token l4) x" for r x
      by (rule yields_after_comma(2) [OF sep(1)])
    then show ?thesis using more sep Cons by (simp add: l4_def [symmetric])
  qed
  ultimately show ?thesis
    unfolding whole by (rule elt_yields_step [OF l _ canon_not_discarded [OF x]])
qed

section \<open>The round trip\<close>

lemma reads_object:
  assumes "m \<noteq> []" "utf8_text (fst (hd m))"
    and "\<And>tail rest. dropWhile json_ws tail = CHR ''}'' # rest \<Longrightarrow>
      mem_yields fl (JObject []) (scan_token (dropWhile json_ws (dump_members fl pp st ni True m @ tail)))
        (Inr (JObject (canon_members m), scan_token (dropWhile json_ws rest)))"
  shows "reads fl (''{'' @ (if pp then [CHR 0x0A] else []) @ dump_members fl pp st ni True m
      @ (if pp then [CHR 0x0A] else []) @ replicate k CHR '' '' @ ''}'') (JObject (canon_members m))"
  unfolding reads_def
proof (intro allI impI)
  fix rest
  define tail where "tail = (if pp then [CHR 0x0A] else []) @ replicate k CHR '' '' @ CHR ''}'' # rest"
  define l where "l = scan_token (CHR ''{'' # (if pp then [CHR 0x0A] else [])
      @ dump_members fl pp st ni True m @ tail)"
  have l: "last_token l = T_begin_object"
    "get_token l = scan_token (dropWhile json_ws (dump_members fl pp st ni True m @ tail))"
    by (simp_all add: l_def get_token_eq)
  have "last_token (get_token l) = T_value_string"
    using members_first [OF assms(1,2)] by (simp add: l(2))
  moreover have "dropWhile json_ws tail = CHR ''}'' # rest" by (simp add: tail_def)
  ultimately have "val_yields fl l (Inr (JObject (canon_members m), scan_token (dropWhile json_ws rest)))"
    using assms(3) [of tail rest] l by (intro val_yields_object) simp_all
  then show "val_yields fl (scan_token ((''{'' @ (if pp then [CHR 0x0A] else [])
        @ dump_members fl pp st ni True m @ (if pp then [CHR 0x0A] else [])
        @ replicate k CHR '' '' @ ''}'') @ rest))
      (Inr (JObject (canon_members m), scan_token (dropWhile json_ws rest)))"
    by (simp add: l_def tail_def)
qed

lemma reads_array:
  assumes "xs \<noteq> []" "json_plain (hd xs)"
    and "\<And>tail rest. dropWhile json_ws tail = CHR '']'' # rest \<Longrightarrow>
      elt_yields fl (JArray []) (scan_token (dropWhile json_ws (dump_elements fl pp st ni True xs @ tail)))
        (Inr (JArray (map canon xs), scan_token (dropWhile json_ws rest)))"
  shows "reads fl (''['' @ (if pp then [CHR 0x0A] else []) @ dump_elements fl pp st ni True xs
      @ (if pp then [CHR 0x0A] else []) @ replicate k CHR '' '' @ '']'') (JArray (map canon xs))"
  unfolding reads_def
proof (intro allI impI)
  fix rest
  define tail where "tail = (if pp then [CHR 0x0A] else []) @ replicate k CHR '' '' @ CHR '']'' # rest"
  define l where "l = scan_token (CHR ''['' # (if pp then [CHR 0x0A] else [])
      @ dump_elements fl pp st ni True xs @ tail)"
  have tail: "dropWhile json_ws tail = CHR '']'' # rest" by (simp add: tail_def)
  have l: "last_token l = T_begin_array"
    "get_token l = scan_token (dropWhile json_ws (dump_elements fl pp st ni True xs @ tail))"
    by (simp_all add: l_def get_token_eq)
  obtain y ys where xs: "xs = y # ys" using assms(1) by (cases xs) auto
  have "ends_number (dump_elements fl pp st ni False ys @ tail)"
    using ends_number_ws [OF tail] dump_elements_False [of ys fl pp st ni] by (cases "ys = []") auto
  from dump_start [OF _ this, of y] have "last_token (get_token l) \<in> value_start"
    using assms(2) by (simp add: xs l(2) dropWhile_not_ws)
  then have "val_yields fl l (Inr (JArray (map canon xs), scan_token (dropWhile json_ws rest)))"
    using assms(3) [OF tail] l by (intro val_yields_array) (auto simp: value_start_def)
  then show "val_yields fl (scan_token ((''['' @ (if pp then [CHR 0x0A] else [])
        @ dump_elements fl pp st ni True xs @ (if pp then [CHR 0x0A] else [])
        @ replicate k CHR '' '' @ '']'') @ rest))
      (Inr (JArray (map canon xs), scan_token (dropWhile json_ws rest)))"
    by (simp add: l_def tail_def)
qed

lemma val_yields_token:
  "last_token l = T_literal_null \<Longrightarrow> val_yields fl l (Inr (JNull, get_token l))"
  "last_token l = T_literal_true \<Longrightarrow> val_yields fl l (Inr (JBool True, get_token l))"
  "last_token l = T_literal_false \<Longrightarrow> val_yields fl l (Inr (JBool False, get_token l))"
  "last_token l = T_value_number \<Longrightarrow> val_yields fl l (Inr (get_number fl l, get_token l))"
  "last_token l = T_value_string \<Longrightarrow> get_string_token l = Inr s \<Longrightarrow> val_yields fl l (Inr (JString s, get_token l))"
  "last_token l = T_begin_object \<Longrightarrow> last_token (get_token l) = T_end_object \<Longrightarrow>
    val_yields fl l (Inr (JObject [], get_token (get_token l)))"
  "last_token l = T_begin_array \<Longrightarrow> last_token (get_token l) = T_end_array \<Longrightarrow>
    val_yields fl l (Inr (JArray [], get_token (get_token l)))"
  by (rule val_yields_Suc [of 0], simp add: parse_internal.simps(2))+

lemma reads_string: "utf8_text s \<Longrightarrow> reads fl ([CHR 0x22] @ escape_string s @ [CHR 0x22]) (JString s)"
  unfolding reads_def
proof (intro allI impI)
  fix rest
  assume s: "utf8_text s"
  let ?l = "scan_token (CHR 0x22 # escape_string s @ CHR 0x22 # rest)"
  have "last_token ?l = T_value_string" "get_string_token ?l = Inr s" "rest_text ?l = rest"
    using scan_quoted [OF s, of rest] by auto
  then show "val_yields fl (scan_token (([CHR 0x22] @ escape_string s @ [CHR 0x22]) @ rest))
      (Inr (JString s, scan_token (dropWhile json_ws rest)))"
    using val_yields_token(5) [of ?l s fl] by (simp add: get_token_eq)
qed

lemma nat_sint_unat: "0 \<le> sint i \<Longrightarrow> nat (sint i) = unat i" for i :: u64
proof -
  assume nn: "0 \<le> sint i"
  have "sint i < 2 ^ 63" using sint_less [of i] by simp
  moreover have "uint i = sint i mod 2 ^ 64"
    using uint_word_of_int [of "sint i", where ?'a = 64] by simp
  ultimately have "uint i = sint i" using nn by simp
  then show ?thesis by (simp add: unat_eq_nat_uint)
qed

lemma reads_integers:
  "reads fl (string_of_nat (unat u)) (JUint u)"
  "reads fl (string_of_int (sint i)) (if 0 \<le> sint i then JUint i else JInt i)"
proof -
  have dig: "string_of_nat n \<noteq> []" "\<forall>c\<in>set (string_of_nat n). c_isdigit c" for n
    using string_of_nat_digits by auto
  note num = get_number_digits [OF dig, of fl T_value_number]
  show u: "reads fl (string_of_nat (unat u)) (JUint u)" for u
    unfolding reads_def
  proof (intro allI impI)
    fix rest assume e: "ends_number rest"
    have "unat u < 2 ^ 64" using unsigned_less [of u] by simp
    then show "val_yields fl (scan_token (string_of_nat (unat u) @ rest))
        (Inr (JUint u, scan_token (dropWhile json_ws rest)))"
      using val_yields_token(4) [of "scan_token (string_of_nat (unat u) @ rest)" fl]
        num [of "unat u" rest]
      by (simp add: scan_string_of_nat(1) [OF e] get_token_eq)
  qed
  show "reads fl (string_of_int (sint i)) (if 0 \<le> sint i then JUint i else JInt i)"
  proof (cases "0 \<le> sint i")
    case True
    then have "nat (sint i) = unat i" by (simp add: nat_sint_unat)
    then show ?thesis using True u [of i] by (simp add: string_of_int_def)
  next
    case False
    have "- (2 ^ 63) \<le> sint i" using sint_greater_eq [of i] by simp
    then have "nat (- sint i) \<le> 2 ^ 63" by simp
    show ?thesis unfolding reads_def
    proof (intro allI impI)
      fix rest assume e: "ends_number rest"
      show "val_yields fl (scan_token (string_of_int (sint i) @ rest))
          (Inr (if 0 \<le> sint i then JUint i else JInt i, scan_token (dropWhile json_ws rest)))"
        using val_yields_token(4) [of "scan_token (string_of_int (sint i) @ rest)" fl]
          num [of "nat (- sint i)" rest] False \<open>nat (- sint i) \<le> 2 ^ 63\<close>
        by (simp add: string_of_int_def scan_string_of_nat(2) [OF e] get_token_eq)
    qed
  qed
qed

lemma reads_words:
  "reads fl ''null'' JNull" "reads fl ''true'' (JBool True)" "reads fl ''false'' (JBool False)"
  "reads fl ''{}'' (JObject [])" "reads fl ''[]'' (JArray [])"
  using val_yields_token(1) [of "scan_token (''null'' @ rest)" fl for rest]
    val_yields_token(2) [of "scan_token (''true'' @ rest)" fl for rest]
    val_yields_token(3) [of "scan_token (''false'' @ rest)" fl for rest]
    val_yields_token(6) [of "scan_token (''{}'' @ rest)" fl for rest]
    val_yields_token(7) [of "scan_token (''[]'' @ rest)" fl for rest]
  by (simp_all add: reads_def get_token_eq)

definition members_ok :: "(string \<times> 'd json) list \<Rightarrow> (string \<times> 'd json) list \<Rightarrow> bool" where
  "members_ok acc m \<longleftrightarrow> map_sorted m \<and> (\<forall>e\<in>set m. utf8_text (fst e) \<and> json_plain (snd e))
     \<and> (\<forall>k\<in>fst ` set acc. \<forall>k'\<in>fst ` set m. k < k')"

lemma members_ok_Cons:
  "members_ok acc (e # m) \<Longrightarrow> utf8_text (fst e) \<and> json_plain (snd e) \<and> (\<forall>k\<in>fst ` set acc. k < fst e)
    \<and> members_ok (acc @ [(fst e, v)]) m \<and> (m \<noteq> [] \<longrightarrow> utf8_text (fst (hd m)))"
  by (cases e) (auto simp: members_ok_def map_sorted_Cons)

lemma dump_reads:
  fixes fl :: "'d dbl_lib" and first first' :: bool
  shows "json_plain j \<longrightarrow> reads fl (dump_to fl pp st cur j) (canon j)"
    and "m \<noteq> [] \<longrightarrow> (\<forall>acc tail rest. members_ok acc m \<longrightarrow> dropWhile json_ws tail = CHR ''}'' # rest \<longrightarrow>
      mem_yields fl (JObject acc) (scan_token (dropWhile json_ws (dump_members fl pp st ni True m @ tail)))
        (Inr (JObject (acc @ canon_members m), scan_token (dropWhile json_ws rest))))"
    and "xs \<noteq> [] \<longrightarrow> (\<forall>acc tail rest. (\<forall>x\<in>set xs. json_plain x) \<longrightarrow> dropWhile json_ws tail = CHR '']'' # rest \<longrightarrow>
      elt_yields fl (JArray acc) (scan_token (dropWhile json_ws (dump_elements fl pp st ni True xs @ tail)))
        (Inr (JArray (acc @ map canon xs), scan_token (dropWhile json_ws rest))))"
proof (induction fl pp st cur j and fl pp st ni first m and fl pp st ni first' xs
    rule: dump_to_dump_members_dump_elements.induct)
  case (1 fl pp st cur m)
  show ?case
  proof (cases "m = []")
    case True
    then show ?thesis by (simp add: reads_words)
  next
    case False
    show ?thesis
    proof
      assume j: "json_plain (JObject m)"
      then have ok: "members_ok [] m" "utf8_text (fst (hd m))"
        using False by (auto simp: members_ok_def)
      define ni where "ni = (if pp then cur + st else cur)"
      have "mem_yields fl (JObject [])
          (scan_token (dropWhile json_ws (dump_members fl pp st ni True m @ tail)))
          (Inr (JObject (canon_members m), scan_token (dropWhile json_ws rest)))"
        if "dropWhile json_ws tail = CHR ''}'' # rest" for tail rest
        using spec [OF spec [OF spec [OF mp [OF 1 [OF False ni_def] False], of "[]"], of tail], of rest]
          ok(1) that by simp
      from reads_object [OF False ok(2) this, of "unat (if pp then ni - st else ni)"]
      show "reads fl (dump_to fl pp st cur (JObject m)) (canon (JObject m))"
        using False by (cases pp) (simp_all add: Let_def canon_members_def ni_def)
    qed
  qed
next
  case (2 fl pp st cur xs)
  show ?case
  proof (cases "xs = []")
    case True
    then show ?thesis by (simp add: reads_words)
  next
    case False
    show ?thesis
    proof
      assume "json_plain (JArray xs)"
      then have ok: "\<forall>x\<in>set xs. json_plain x" "json_plain (hd xs)"
        using False by auto
      define ni where "ni = (if pp then cur + st else cur)"
      have "elt_yields fl (JArray [])
          (scan_token (dropWhile json_ws (dump_elements fl pp st ni True xs @ tail)))
          (Inr (JArray (map canon xs), scan_token (dropWhile json_ws rest)))"
        if "dropWhile json_ws tail = CHR '']'' # rest" for tail rest
        using spec [OF spec [OF spec [OF mp [OF 2 [OF False ni_def] False], of "[]"], of tail], of rest]
          ok(1) that by simp
      from reads_array [OF False ok(2) this, of "unat (if pp then ni - st else ni)"]
      show "reads fl (dump_to fl pp st cur (JArray xs)) (canon (JArray xs))"
        using False by (cases pp) (simp_all add: Let_def ni_def)
    qed
  qed
next
  case (3 fl pp st cur s)
  show ?case using reads_string [of s fl] by simp
next
  case (4 fl pp st cur b)
  show ?case by (simp add: reads_words)
next
  case (5 fl pp st cur i)
  show ?case using reads_integers(2) [of fl i] by simp
next
  case (6 fl pp st cur u)
  show ?case using reads_integers(1) [of fl u] by simp
next
  case (9 fl pp st cur)
  show ?case by (simp add: reads_words)
next
  case (11 fl pp st ni first e m)
  show ?case
  proof (intro impI allI)
    fix acc tail rest
    assume ok: "members_ok acc (e # m)" and tail: "dropWhile json_ws tail = CHR ''}'' # rest"
    note e = members_ok_Cons [OF ok, of "canon (snd e)"]
    have "mem_yields fl (JObject acc)
        (scan_token (dropWhile json_ws (dump_members fl pp st ni True (e # m) @ tail)))
        (Inr (JObject (acc @ (fst e, canon (snd e)) # canon_members m), scan_token (dropWhile json_ws rest)))"
    proof (rule members_step)
      show "reads fl (dump_to fl pp st ni (snd e)) (canon (snd e))" using 11(1) e by simp
      assume m: "m \<noteq> []"
      from spec [OF spec [OF spec [OF mp [OF 11(2) m], of "acc @ [(fst e, canon (snd e))]"], of tail], of rest]
      show "utf8_text (fst (hd m))
        \<and> mem_yields fl (JObject (acc @ [(fst e, canon (snd e))]))
            (scan_token (dropWhile json_ws (dump_members fl pp st ni True m @ tail)))
            (Inr (JObject (acc @ (fst e, canon (snd e)) # canon_members m), scan_token (dropWhile json_ws rest)))"
        using e m tail by simp
    qed (use e tail in simp_all)
    then show "mem_yields fl (JObject acc)
        (scan_token (dropWhile json_ws (dump_members fl pp st ni True (e # m) @ tail)))
        (Inr (JObject (acc @ canon_members (e # m)), scan_token (dropWhile json_ws rest)))"
      by simp
  qed
next
  case (13 fl pp st ni first x xs)
  show ?case
  proof (intro impI allI)
    fix acc tail rest
    assume ok: "\<forall>y\<in>set (x # xs). json_plain y" and tail: "dropWhile json_ws tail = CHR '']'' # rest"
    have "elt_yields fl (JArray acc)
        (scan_token (dropWhile json_ws (dump_elements fl pp st ni True (x # xs) @ tail)))
        (Inr (JArray (acc @ canon x # map canon xs), scan_token (dropWhile json_ws rest)))"
    proof (rule elements_step)
      show "reads fl (dump_to fl pp st ni x) (canon x)" using 13(1) ok by simp
      assume m: "xs \<noteq> []"
      from spec [OF spec [OF spec [OF mp [OF 13(2) m], of "acc @ [canon x]"], of tail], of rest]
      show "json_plain (hd xs)
        \<and> elt_yields fl (JArray (acc @ [canon x]))
            (scan_token (dropWhile json_ws (dump_elements fl pp st ni True xs @ tail)))
            (Inr (JArray (acc @ canon x # map canon xs), scan_token (dropWhile json_ws rest)))"
        using ok m tail by simp
    qed (use ok tail in simp_all)
    then show "elt_yields fl (JArray acc)
        (scan_token (dropWhile json_ws (dump_elements fl pp st ni True (x # xs) @ tail)))
        (Inr (JArray (acc @ map canon (x # xs)), scan_token (dropWhile json_ws rest)))"
      by simp
  qed
qed simp_all

lemma scan_token_end: "last_token (scan_token s) = T_end_of_input \<longleftrightarrow> peek s = NUL"
  by (simp add: scan_token_def Let_def scan_literal_def split: option.splits)

definition after_value :: "string \<Rightarrow> 'd json \<Rightarrow> 'd json res" where
  "after_value tail j =
     (let s = dropWhile json_ws tail in
      if peek s = NUL then Inr j
      else Inl (Invalid_argument (''parse error - unexpected '' @ unexpected_name (scan_token s)
             @ ''; expected end of input'')))"

lemma json_parse_dump_tail:
  assumes "json_plain j" "ends_number tail"
  shows "json_parse fl (json_dump fl indent j @ tail) = after_value tail (canon j)"
proof -
  let ?s = "json_dump fl indent j @ tail"
  have "reads fl (json_dump fl indent j) (canon j)"
    using dump_reads(1) [of j fl] assms by (simp add: json_dump_def)
  then have "val_yields fl (scan_token ?s) (Inr (canon j, scan_token (dropWhile json_ws tail)))"
    using assms(2) by (simp add: reads_def)
  then obtain n where
    "parse_internal n fl (scan_token ?s) = Some (Inr (canon j, scan_token (dropWhile json_ws tail)))"
    by (auto simp: val_yields_def)
  moreover have "\<not> json_ws (peek ?s)"
    using dump_start(2) [OF assms] by (simp add: json_dump_def)
  then have "get_token (lexer_of ?s) = scan_token ?s"
    by (simp add: get_token_eq lexer_of_def dropWhile_not_ws)
  ultimately have "parse_fuel n fl ?s = Some (after_value tail (canon j))"
    using canon_not_discarded [OF assms(1)] scan_token_end [of "dropWhile json_ws tail"]
    by (auto simp: parse_fuel_def after_value_def Let_def expect_def)
  then show ?thesis by (rule json_parse_fuel)
qed

lemma json_parse_dump: "json_plain j \<Longrightarrow> json_parse fl (json_dump fl indent j) = Inr (canon j)"
  using json_parse_dump_tail [of j "[]" fl indent] by (simp add: after_value_def)

text \<open>
  Property C6: what the serializer writes, the parser reads: for every value whose strings are
  valid UTF-8, whose objects are in map order and which has no floating-point number, parsing the
  text of \<open>dump\<close>, with any indentation or none, gives the value, with its non-negative integers
  typed as unsigned.
\<close>

theorem json_roundtrip:
  assumes "json_plain j"
  shows "json_parse fl (json_dump fl indent j) = Inr (canon j)"
  using assms by (rule json_parse_dump)

lemma utf8_text_ascii: "\<forall>c\<in>set s. in_range 0 127 c \<Longrightarrow> utf8_text s"
  by (induction s) (auto intro: utf8_text.intros)

theorem json_roundtrip_witness:
  "json_parse int_dbl (json_dump int_dbl 2 (JObject [(''a'', JArray [JInt (-1), JUint 7, JNull]), (''b'', JString [CHR 0x0A])]))
     = Inr (JObject [(''a'', JArray [JInt (-1), JUint 7, JNull]), (''b'', JString [CHR 0x0A])])"
proof -
  have "json_plain (JObject [(''a'', JArray [JInt (-1), JUint 7, JNull]), (''b'', JString [CHR 0x0A])] :: int json)"
    by (simp add: map_sorted_def utf8_text_ascii in_range_def)
  then show ?thesis
    using json_roundtrip [of "JObject [(''a'', JArray [JInt (-1), JUint 7, JNull]), (''b'', JString [CHR 0x0A])]" int_dbl 2]
    by simp
qed

interpretation documents: codec "json_dump (fl :: 'd dbl_lib) (- 1)"
  "\<lambda>s. case json_parse fl s of Inl e \<Rightarrow> None | Inr j \<Rightarrow> Some j" "\<lambda>j. json_plain j \<and> canon j = j"
  by unfold_locales (simp add: json_parse_dump)

text \<open>
  The serialization is unambiguous: two such values with canonical integers have the
  same text only if they are equal.
\<close>

theorem json_dump_inject:
  assumes "json_plain j" "canon j = j" "json_plain k" "canon k = k"
  shows "json_dump fl (- 1) j = json_dump fl (- 1) k \<longleftrightarrow> j = k"
  using assms by (intro documents.enc_inject) simp_all

theorem json_dump_inject_witness:
  "json_dump int_dbl (- 1) (JString ''1'') \<noteq> json_dump int_dbl (- 1) (JUint 1 :: int json)"
  using json_dump_inject [of "JString ''1''" "JUint 1" int_dbl] by (simp add: utf8_text_ascii in_range_def)

text \<open>
  What may follow a document: white space, and after a NUL character anything; the
  first other token makes the whole document an error that names it.
\<close>

theorem json_trailing_text:
  assumes "json_plain j" "ends_number tail"
  shows "json_parse fl (json_dump fl indent j @ tail) =
    (let s = dropWhile json_ws tail in
     if s = [] \<or> hd s = NUL then Inr (canon j)
     else Inl (Invalid_argument (''parse error - unexpected '' @ unexpected_name (scan_token s)
            @ ''; expected end of input'')))"
  using json_parse_dump_tail [OF assms, of fl indent]
  by (cases "dropWhile json_ws tail") (auto simp: after_value_def)

theorem json_trailing_text_witness:
  "json_parse int_dbl (json_dump int_dbl (- 1) (JBool True) @ [CHR 0x0A, NUL, CHR ''x'']) = Inr (JBool True)
   \<and> (\<exists>e. json_parse int_dbl (json_dump int_dbl (- 1) (JBool True) @ '' x'') = Inl e)"
  using json_trailing_text [of "JBool True" "[CHR 0x0A, NUL, CHR ''x'']" int_dbl "- 1"]
    json_trailing_text [of "JBool True" "'' x''" int_dbl "- 1"]
  by (simp add: ends_number_def c_isdigit_def in_range_def NUL_def json_ws_def)

end
