(* ===== verification/JsonFilter.thy ===== *)
theory JsonFilter
  imports JsonParser
begin

text \<open>
  \<open>include/json.h\<close>, the parser with a callback (\<open>parser_callback_t\<close>), which is told of what the
  parser reads and decides what is kept. The callback may keep a state of its own and may change the
  value that it is shown; \<open>depth\<close> and that state are passed along.
\<close>

section \<open>Callbacks\<close>

datatype parse_event = Object_start | Object_end | Array_start | Array_end | Key | Value

text \<open>
  A call with depth, event and value: whether to keep, the value afterwards, the state afterwards.
\<close>

type_synonym ('s, 'd) callback = "'s \<Rightarrow> int \<Rightarrow> parse_event \<Rightarrow> 'd json \<Rightarrow> bool \<times> 'd json \<times> 's"

text \<open>
  The beginning of an object or array: the new \<open>keep\<close>, the result so far (\<open>start\<close> if it is kept),
  and the depth, which is counted up when there is a call.
\<close>

definition start_event :: "('s, 'd) callback option \<Rightarrow> bool \<Rightarrow> parse_event \<Rightarrow> 'd json \<Rightarrow> int \<times> 's \<Rightarrow> bool \<times> 'd json \<times> int \<times> 's" where
  "start_event cb keep event start q =
     (if \<not> keep then (False, JDiscarded, q)
      else case cb of
        None \<Rightarrow> (True, start, q)
      | Some f \<Rightarrow> (case f (snd q) (fst q) event JDiscarded of
            (k, v, s) \<Rightarrow> (k, if k then start else v, fst q + 1, s)))"

text \<open>The end of an object or array, with the condition under which the callback is called.\<close>

definition end_event :: "('s, 'd) callback option \<Rightarrow> bool \<Rightarrow> parse_event \<Rightarrow> 'd json \<Rightarrow> int \<times> 's \<Rightarrow> 'd json \<times> int \<times> 's" where
  "end_event cb guard event result q =
     (case cb of
        None \<Rightarrow> (result, q)
      | Some f \<Rightarrow>
          if guard
          then (case f (snd q) (fst q - 1) event result of
              (k, v, s) \<Rightarrow> (if k then v else JDiscarded, fst q - 1, s))
          else (result, q))"

definition key_event :: "('s, 'd) callback option \<Rightarrow> bool \<Rightarrow> string \<Rightarrow> int \<times> 's \<Rightarrow> bool \<times> int \<times> 's" where
  "key_event cb keep key q =
     (if \<not> keep then (False, q)
      else case cb of
        None \<Rightarrow> (True, q)
      | Some f \<Rightarrow> (case f (snd q) (fst q) Key (JString key) of (k, v, s) \<Rightarrow> (k, fst q, s)))"

definition value_event :: "('s, 'd) callback option \<Rightarrow> bool \<Rightarrow> 'd json \<Rightarrow> int \<times> 's \<Rightarrow> 'd json \<times> int \<times> 's" where
  "value_event cb keep result q =
     (case cb of
        None \<Rightarrow> (result, q)
      | Some f \<Rightarrow>
          if keep
          then (case f (snd q) (fst q) Value result of (k, v, s) \<Rightarrow> (if k then v else JDiscarded, fst q, s))
          else (result, q))"

section \<open>The parser\<close>

text \<open>A value that is complete, with the lexer behind it and what an event leaves.\<close>

definition finish :: "'l \<Rightarrow> 'd json \<times> int \<times> 's \<Rightarrow> ('d json \<times> 'l \<times> int \<times> 's) res option" where
  "finish l r = (case r of (v, q) \<Rightarrow> Some (Inr (v, l, q)))"

function parse_filter :: "nat \<Rightarrow> 'd dbl_lib \<Rightarrow> ('s, 'd) callback option \<Rightarrow> bool \<Rightarrow> lexer \<Rightarrow> int \<times> 's \<Rightarrow> ('d json \<times> lexer \<times> int \<times> 's) res option"
  and filter_members :: "nat \<Rightarrow> 'd dbl_lib \<Rightarrow> ('s, 'd) callback option \<Rightarrow> bool \<Rightarrow> 'd json \<Rightarrow> lexer \<Rightarrow> int \<times> 's \<Rightarrow> ('d json \<times> lexer \<times> int \<times> 's) res option"
  and filter_elements :: "nat \<Rightarrow> 'd dbl_lib \<Rightarrow> ('s, 'd) callback option \<Rightarrow> bool \<Rightarrow> 'd json \<Rightarrow> lexer \<Rightarrow> int \<times> 's \<Rightarrow> ('d json \<times> lexer \<times> int \<times> 's) res option"
  where
  "parse_filter 0 fl cb keep l q = None"
| "parse_filter (Suc n) fl cb keep l q =
     (case last_token l of
        T_begin_object \<Rightarrow>
          (case start_event cb keep Object_start (JObject []) q of (keep, result, q) \<Rightarrow>
           let l = get_token l in
           if last_token l = T_end_object then finish (get_token l) (end_event cb keep Object_end result q)
           else fuel_bind (Some (unexpect T_value_separator l))
                  (\<lambda>u. filter_members n fl cb keep result l q))
      | T_begin_array \<Rightarrow>
          (case start_event cb keep Array_start (JArray []) q of (keep, result, q) \<Rightarrow>
           let l = get_token l in
           if last_token l = T_end_array then finish (get_token l) (end_event cb True Array_end result q)
           else fuel_bind (Some (unexpect T_value_separator l))
                  (\<lambda>u. filter_elements n fl cb keep result l q))
      | T_literal_null \<Rightarrow> finish (get_token l) (value_event cb keep JNull q)
      | T_value_string \<Rightarrow>
          fuel_bind (Some (get_string_token l)) (\<lambda>s. finish (get_token l) (value_event cb keep (JString s) q))
      | T_literal_true \<Rightarrow> finish (get_token l) (value_event cb keep (JBool True) q)
      | T_literal_false \<Rightarrow> finish (get_token l) (value_event cb keep (JBool False) q)
      | T_value_number \<Rightarrow> finish (get_token l) (value_event cb keep (get_number fl l) q)
      | _ \<Rightarrow> fuel_bind (Some (unexpect (last_token l) l)) (\<lambda>u. finish l (value_event cb keep JDiscarded q)))"
| "filter_members 0 fl cb keep result l q = None"
| "filter_members (Suc n) fl cb keep result l q =
     (let l = (if last_token l = T_value_separator then get_token l else l) in
      fuel_bind (Some (expect T_value_string l)) (\<lambda>u.
      fuel_bind (Some (get_string_token l)) (\<lambda>key.
      case key_event cb keep key q of (keep_tag, q) \<Rightarrow>
      let l = get_token l in
      fuel_bind (Some (expect T_name_separator l)) (\<lambda>u.
      fuel_bind (parse_filter n fl cb keep (get_token l) q) (\<lambda>(v, l, q).
      fuel_bind (Some (if keep \<and> keep_tag \<and> \<not> is_discarded v then json_put result key v else Inr result)) (\<lambda>result.
      if last_token l = T_value_separator then filter_members n fl cb keep result l q
      else fuel_bind (Some (expect T_end_object l)) (\<lambda>u.
             finish (get_token l) (end_event cb keep Object_end result q))))))))"
| "filter_elements 0 fl cb keep result l q = None"
| "filter_elements (Suc n) fl cb keep result l q =
     (let l = (if last_token l = T_value_separator then get_token l else l) in
      fuel_bind (parse_filter n fl cb keep l q) (\<lambda>(v, l, q).
      fuel_bind (Some (if keep \<and> \<not> is_discarded v then json_push_back result v else Inr result)) (\<lambda>result.
      if last_token l = T_value_separator then filter_elements n fl cb keep result l q
      else fuel_bind (Some (expect T_end_array l)) (\<lambda>u.
             finish (get_token l) (end_event cb keep Array_end result q)))))"

  by pat_completeness auto

termination parse_filter
  by (relation "measure (case_sum fst (case_sum fst fst))") simp_all

definition parse_filter_fuel :: "nat \<Rightarrow> 'd dbl_lib \<Rightarrow> ('s, 'd) callback option \<Rightarrow> string \<Rightarrow> 's \<Rightarrow> ('d json \<times> int \<times> 's) res option" where
  "parse_filter_fuel n fl cb src s =
     fuel_bind (parse_filter n fl cb True (get_token (lexer_of src)) (0, s)) (\<lambda>(result, l, q).
     fuel_bind (Some (expect T_end_of_input l)) (\<lambda>u.
     Some (Inr (if is_discarded result then JNull else result, q))))"

definition json_parse_filter :: "'d dbl_lib \<Rightarrow> ('s, 'd) callback option \<Rightarrow> string \<Rightarrow> 's \<Rightarrow> ('d json \<times> int \<times> 's) res" where
  "json_parse_filter fl cb src s = the (parse_filter_fuel (2 * length src + 3) fl cb src s)"

declare parse_filter.simps(2) [simp del] filter_members.simps(2) [simp del] filter_elements.simps(2) [simp del]

section \<open>The same course with and without a callback\<close>

text \<open>A callback that keeps everything and changes nothing.\<close>

definition accepting :: "('s, 'd) callback option \<Rightarrow> bool" where
  "accepting cb \<longleftrightarrow> (\<forall>f s d e v. cb = Some f \<longrightarrow> fst (f s d e v) \<and> fst (snd (f s d e v)) = v)"

text \<open>
  The filtering run ends as the plain one does, with the same rest of the text; if \<open>strict\<close>, with the
  same value and at the depth \<open>d\<close>.
\<close>

definition course :: "bool \<Rightarrow> int \<Rightarrow> ('d json \<times> lexer) res option \<Rightarrow> ('d json \<times> lexer \<times> int \<times> 's) res option \<Rightarrow> bool" where
  "course strict d m m' \<longleftrightarrow> (case m of
      None \<Rightarrow> m' = None
    | Some (Inl e) \<Rightarrow> m' = Some (Inl e)
    | Some (Inr (v, l)) \<Rightarrow> (\<exists>w q. m' = Some (Inr (w, l, q)) \<and> (strict \<longrightarrow> w = v \<and> fst q = d)))"

lemma course_simps [simp]:
  "course b d None m' \<longleftrightarrow> m' = None" "course b d (Some (Inl e)) m' \<longleftrightarrow> m' = Some (Inl e)"
  "course b d (Some (Inr (v, l))) (Some (Inr (w, l', q))) \<longleftrightarrow> l' = l \<and> (b \<longrightarrow> w = v \<and> fst q = d)"
  by (auto simp: course_def)

lemma course_SomeD:
  "course b d (Some (Inr (v, l))) m' \<Longrightarrow> \<exists>w q. m' = Some (Inr (w, l, q)) \<and> (b \<longrightarrow> w = v \<and> fst q = d)"
  by (simp add: course_def)

lemma course_Some: "course b d (Some r) m' \<Longrightarrow> \<exists>r'. m' = Some r'"
  by (cases r) (auto dest: course_SomeD)

lemma course_bind:
  assumes "course b d m m'"
    "\<And>v l w q. m = Some (Inr (v, l)) \<Longrightarrow> (b \<Longrightarrow> w = v \<and> fst q = d) \<Longrightarrow> course b d2 (f (v, l)) (f' (w, l, q))"
  shows "course b d2 (fuel_bind m f) (fuel_bind m' f')"
proof (cases m)
  case (Some r)
  show ?thesis
  proof (cases r)
    case (Inr x)
    obtain v l where x: "x = (v, l)" by (cases x)
    show ?thesis using assms(2) [of v l] course_SomeD [of b d v l m'] assms(1) Some Inr x by auto
  qed (use assms Some in simp)
qed (use assms in simp)

lemma course_res_bind:
  "(\<And>x. r = Inr x \<Longrightarrow> course b d (f x) (f' x)) \<Longrightarrow>
   course b d (fuel_bind (Some r) f) (fuel_bind (Some r) f')"
  by (cases r) auto

lemma course_finish: "(b \<Longrightarrow> fst r = v \<and> fst (snd r) = d) \<Longrightarrow> course b d (Some (Inr (v, l))) (finish l r)"
  by (cases r) (auto simp: finish_def)

text \<open>The events of an accepting callback.\<close>

lemma acceptingD: "accepting (Some f) \<Longrightarrow> \<exists>s'. f s d e v = (True, v, s')"
  by (rule exI [of _ "snd (snd (f s d e v))"]) (simp add: accepting_def prod_eq_iff)

definition counted :: "('s, 'd) callback option \<Rightarrow> int" where
  "counted cb = (case cb of None \<Rightarrow> 0 | Some f \<Rightarrow> 1)"

lemma accepting_start:
  "accepting cb \<Longrightarrow> \<exists>s. start_event cb True e start q = (True, start, fst q + counted cb, s)"
  using acceptingD [of "the cb" "snd q" "fst q" e JDiscarded]
  by (cases cb) (auto simp: start_event_def counted_def prod_eq_iff split_beta)

lemma accepting_end:
  "accepting cb \<Longrightarrow> \<exists>s. end_event cb True e v q = (v, fst q - counted cb, s)"
  using acceptingD [of "the cb" "snd q" "fst q - 1" e v]
  by (cases cb) (auto simp: end_event_def counted_def prod_eq_iff split_beta)

lemma accepting_key: "accepting cb \<Longrightarrow> \<exists>s. key_event cb True k q = (True, fst q, s)"
  using acceptingD [of "the cb" "snd q" "fst q" Key "JString k"]
  by (cases cb) (auto simp: key_event_def prod_eq_iff split_beta)

lemma accepting_value: "accepting cb \<Longrightarrow> \<exists>s. value_event cb True v q = (v, fst q, s)"
  using acceptingD [of "the cb" "snd q" "fst q" Value v]
  by (cases cb) (auto simp: value_event_def prod_eq_iff split_beta)

lemma start_event_kept:
  "start_event cb keep e start q = (keep', r, q') \<Longrightarrow> keep' \<Longrightarrow> r = start"
  by (auto simp: start_event_def split: if_splits option.splits prod.splits)

lemma course_value:
  assumes "b \<Longrightarrow> accepting cb \<and> g \<and> fst q = d"
  shows "course b d (Some (Inr (v, l))) (finish l (value_event cb g v q))"
  using assms accepting_value [of cb v q] by (auto intro!: course_finish)

lemma course_end:
  assumes "b \<Longrightarrow> accepting cb \<and> g \<and> w = v \<and> fst q = d + counted cb"
  shows "course b d (Some (Inr (v, l))) (finish l (end_event cb g e w q))"
  using assms accepting_end [of cb e w q] by (auto intro!: course_finish)

text \<open>The end of a round of a loop: a value is stored, and the loop goes on or ends.\<close>

lemma course_store:
  fixes r r' :: "'d json" and m :: "('d json \<times> lexer) res option"
    and m' :: "('d json \<times> lexer \<times> int \<times> 's) res option"
  assumes "course b d' m m'"
    "P r" "keep \<Longrightarrow> P r'" "b \<Longrightarrow> keep \<and> tag \<and> r' = r"
    "\<And>x v. P x \<Longrightarrow> \<exists>y. store x v = Inr y \<and> P y"
    "\<And>x x' l q. P x \<Longrightarrow> (keep \<Longrightarrow> P x') \<Longrightarrow> (b \<Longrightarrow> x' = x \<and> fst q = d') \<Longrightarrow>
       course b d (after x l) (after' x' l q)"
  shows "course b d
      (fuel_bind m (\<lambda>(v, l).
        fuel_bind (Some (if is_discarded v then Inr r else store r v)) (\<lambda>x. after x l)))
      (fuel_bind m' (\<lambda>(w, l, q).
        fuel_bind (Some (if keep \<and> tag \<and> \<not> is_discarded w then store r' w else Inr r')) (\<lambda>x. after' x l q)))"
proof (rule course_bind [OF assms(1)], simp only: split_conv)
  fix v w :: "'d json" and l and q :: "int \<times> 's" assume wv: "b \<Longrightarrow> w = v \<and> fst q = d'"
  obtain x where x: "(if is_discarded v then Inr r else store r v) = Inr x" "P x"
    using assms(2) assms(5) [of r v] by (cases "is_discarded v") auto
  obtain x' where x': "(if keep \<and> tag \<and> \<not> is_discarded w then store r' w else Inr r') = Inr x'" "keep \<Longrightarrow> P x'"
    using assms(3) assms(5) [of r' w] by (cases "keep \<and> tag \<and> \<not> is_discarded w") auto
  have "x' = x" if b using x(1) x'(1) wv [OF that] assms(4) [OF that] by (simp split: if_splits)
  then have "course b d (after x l) (after' x' l q)" using x(2) x'(2) wv by (intro assms(6)) auto
  then show "course b d (fuel_bind (Some (if is_discarded v then Inr r else store r v)) (\<lambda>x. after x l))
      (fuel_bind (Some (if keep \<and> tag \<and> \<not> is_discarded w then store r' w else Inr r')) (\<lambda>x. after' x l q))"
    unfolding x(1) x'(1) by simp
qed

lemma course_loop:
  assumes "course b d (f x l) (f' x' l q)" "b \<Longrightarrow> accepting cb \<and> keep \<and> x' = x \<and> fst q = d + counted cb"
  shows "course b d
      (if last_token l = T_value_separator then f x l
       else fuel_bind (Some (expect t l)) (\<lambda>u. Some (Inr (x, get_token l))))
      (if last_token l = T_value_separator then f' x' l q
       else fuel_bind (Some (expect t l)) (\<lambda>u. finish (get_token l) (end_event cb keep e x' q)))"
  using assms by (auto intro!: course_res_bind course_end)

lemma put_object: "is_object x \<Longrightarrow> \<exists>y. json_put x key v = Inr y \<and> is_object y"
  by (cases x) (auto simp: json_put_cases is_object_def)

lemma push_array: "is_array x \<Longrightarrow> \<exists>y. json_push_back x v = Inr y \<and> is_array y"
  by (cases x) (auto simp: json_push_back_def is_null_def is_array_def)

lemma filter_course:
  fixes fl :: "'d dbl_lib" and q :: "int \<times> 's"
  assumes "b \<Longrightarrow> accepting cb"
  shows "((b \<longrightarrow> keep \<and> fst q = d) \<longrightarrow> course b d (parse_internal n fl l) (parse_filter n fl cb keep l q))
    \<and> (is_object r \<longrightarrow> (keep \<longrightarrow> is_object r') \<longrightarrow> (b \<longrightarrow> keep \<and> r' = r \<and> fst q = d + counted cb) \<longrightarrow>
        course b d (parse_members n fl r l) (filter_members n fl cb keep r' l q))
    \<and> (is_array r \<longrightarrow> (keep \<longrightarrow> is_array r') \<longrightarrow> (b \<longrightarrow> keep \<and> r' = r \<and> fst q = d + counted cb) \<longrightarrow>
        course b d (parse_elements n fl r l) (filter_elements n fl cb keep r' l q))"
proof (induction n arbitrary: l r r' q keep d)
  case 0
  show ?case by simp
next
  case (Suc n)
  have val: "course b d (parse_internal n fl l) (parse_filter n fl cb keep l q)"
    if "b \<Longrightarrow> keep \<and> fst q = d" for l q keep d
    using Suc that by blast
  have mem: "course b d (parse_members n fl r l) (filter_members n fl cb keep r' l q)"
    if "is_object r" "keep \<Longrightarrow> is_object r'" "b \<Longrightarrow> keep \<and> r' = r \<and> fst q = d + counted cb" for l r r' q keep d
    using Suc that by blast
  have elt: "course b d (parse_elements n fl r l) (filter_elements n fl cb keep r' l q)"
    if "is_array r" "keep \<Longrightarrow> is_array r'" "b \<Longrightarrow> keep \<and> r' = r \<and> fst q = d + counted cb" for l r r' q keep d
    using Suc that by blast
  have start: "\<exists>keep' x q'. start_event cb keep e j q = (keep', x, q') \<and> (keep' \<longrightarrow> x = j)
      \<and> (b \<longrightarrow> keep' \<and> fst q' = d + counted cb)"
    if "b \<Longrightarrow> keep \<and> fst q = d" for e j q keep d
  proof -
    obtain keep' x q' where s: "start_event cb keep e j q = (keep', x, q')" by (cases "start_event cb keep e j q")
    then show ?thesis using that assms accepting_start [of cb e j q] start_event_kept [OF s] by auto
  qed
  show ?case
  proof (intro conjI impI)
    assume q: "b \<longrightarrow> keep \<and> fst q = d"
    show "course b d (parse_internal (Suc n) fl l) (parse_filter (Suc n) fl cb keep l q)"
    proof (cases "last_token l \<in> {T_begin_object, T_begin_array}")
      case False
      have fin: "course b d (Some (Inr (v, l'))) (finish l' (value_event cb keep v q))" for v :: "'d json" and l'
        using q assms by (intro course_value) auto
      show ?thesis using False fin
        by (cases "last_token l")
          (simp_all add: parse_internal.simps(2) parse_filter.simps(2) unexpect_def course_res_bind)
    next
      case True
      obtain keep1 x1 q1 where s1: "start_event cb keep Object_start (JObject []) q = (keep1, x1, q1)"
        "keep1 \<longrightarrow> x1 = JObject []" "b \<longrightarrow> keep1 \<and> fst q1 = d + counted cb"
        using start [of keep q d Object_start "JObject []"] q by auto
      obtain keep2 x2 q2 where s2: "start_event cb keep Array_start (JArray []) q = (keep2, x2, q2)"
        "keep2 \<longrightarrow> x2 = JArray []" "b \<longrightarrow> keep2 \<and> fst q2 = d + counted cb"
        using start [of keep q d Array_start "JArray []"] q by auto
      have "course b d (Some (Inr (JObject [], l'))) (finish l' (end_event cb keep1 Object_end x1 q1))"
        "course b d (Some (Inr (JArray [], l'))) (finish l' (end_event cb True Array_end x2 q2))" for l'
        using s1 s2 assms by (auto intro!: course_end)
      moreover have "course b d (parse_members n fl (JObject []) l') (filter_members n fl cb keep1 x1 l' q1)"
        "course b d (parse_elements n fl (JArray []) l') (filter_elements n fl cb keep2 x2 l' q2)" for l'
        using s1 s2 by (auto intro!: mem elt simp: is_object_def is_array_def)
      ultimately show ?thesis using True s1(1) s2(1)
        by (auto simp: parse_internal.simps(2) parse_filter.simps(2) Let_def intro!: course_res_bind)
    qed
  next
    assume r: "is_object r" "keep \<longrightarrow> is_object r'" "b \<longrightarrow> keep \<and> r' = r \<and> fst q = d + counted cb"
    show "course b d (parse_members (Suc n) fl r l) (filter_members (Suc n) fl cb keep r' l q)"
      unfolding parse_members.simps(2) filter_members.simps(2) Let_def
    proof (rule course_res_bind, rule course_res_bind)
      fix u key
      define l1 where "l1 = (if last_token l = T_value_separator then get_token l else l)"
      obtain tag q1 where q1: "key_event cb keep key q = (tag, q1)" by (cases "key_event cb keep key q")
      have b: "accepting cb \<and> keep \<and> tag \<and> r' = r \<and> fst q1 = d + counted cb" if b
        using that q1 r(3) assms accepting_key [of cb key q] by auto
      show "course b d
          (fuel_bind (Some (expect T_name_separator (get_token (if last_token l = T_value_separator then get_token l else l))))
            (\<lambda>u. fuel_bind (parse_internal n fl (get_token (get_token (if last_token l = T_value_separator then get_token l else l))))
              (\<lambda>(v, l). fuel_bind (Some (if is_discarded v then Inr r else json_put r key v)) (\<lambda>result.
                if last_token l = T_value_separator then parse_members n fl result l
                else fuel_bind (Some (expect T_end_object l)) (\<lambda>u. Some (Inr (result, get_token l)))))))
          (case key_event cb keep key q of (keep_tag, q) \<Rightarrow>
            fuel_bind (Some (expect T_name_separator (get_token (if last_token l = T_value_separator then get_token l else l))))
            (\<lambda>u. fuel_bind (parse_filter n fl cb keep (get_token (get_token (if last_token l = T_value_separator then get_token l else l))) q)
              (\<lambda>(v, l, q). fuel_bind (Some (if keep \<and> keep_tag \<and> \<not> is_discarded v then json_put r' key v else Inr r')) (\<lambda>result.
                if last_token l = T_value_separator then filter_members n fl cb keep result l q
                else fuel_bind (Some (expect T_end_object l)) (\<lambda>u. finish (get_token l) (end_event cb keep Object_end result q))))))"
        unfolding q1 split_conv
        using r b put_object
        by (intro course_res_bind course_store [where d' = "d + counted cb" and P = is_object] course_loop val mem) auto
    qed
  next
    assume r: "is_array r" "keep \<longrightarrow> is_array r'" "b \<longrightarrow> keep \<and> r' = r \<and> fst q = d + counted cb"
    show "course b d (parse_elements (Suc n) fl r l) (filter_elements (Suc n) fl cb keep r' l q)"
      unfolding parse_elements.simps(2) filter_elements.simps(2) Let_def
    proof -
      have b: "accepting cb \<and> keep \<and> r' = r \<and> fst q = d + counted cb" if b using that r(3) assms by auto
      show "course b d
          (fuel_bind (parse_internal n fl (if last_token l = T_value_separator then get_token l else l))
            (\<lambda>(v, l). fuel_bind (Some (if is_discarded v then Inr r else json_push_back r v)) (\<lambda>result.
              if last_token l = T_value_separator then parse_elements n fl result l
              else fuel_bind (Some (expect T_end_array l)) (\<lambda>u. Some (Inr (result, get_token l))))))
          (fuel_bind (parse_filter n fl cb keep (if last_token l = T_value_separator then get_token l else l) q)
            (\<lambda>(v, l, q). fuel_bind (Some (if keep \<and> \<not> is_discarded v then json_push_back r' v else Inr r')) (\<lambda>result.
              if last_token l = T_value_separator then filter_elements n fl cb keep result l q
              else fuel_bind (Some (expect T_end_array l)) (\<lambda>u. finish (get_token l) (end_event cb keep Array_end result q)))))"
        using r b push_array
        by (intro course_store [where d' = "d + counted cb" and P = is_array and tag = True, simplified] course_loop val elt) auto
    qed
  qed
qed

lemma filter_fuel_course:
  "course (accepting cb) 0 (parse_internal n fl (get_token (lexer_of src)))
     (parse_filter n fl cb True (get_token (lexer_of src)) (0, s))"
  using filter_course [of "accepting cb" cb True "(0, s)" 0 n fl "get_token (lexer_of src)"] by simp

lemma json_parse_internal:
  "\<exists>r. parse_internal (2 * length s + 3) fl (get_token (lexer_of s)) = Some r
     \<and> Some (json_parse fl s) = fuel_bind (Some r) (\<lambda>(result, l). fuel_bind (Some (expect T_end_of_input l))
         (\<lambda>u. Some (Inr (if is_discarded result then JNull else result))))"
  using parse_fuel_enough [of s "2 * length s + 3" fl] parse_returns [of s "2 * length s + 3" fl]
  by (auto simp: parse_fuel_def)

text \<open>More fuel changes nothing.\<close>

lemma filter_more_fuel_Suc:
  fixes fl :: "'d dbl_lib" and q :: "int \<times> 's"
  shows "fuel_le (parse_filter n fl cb keep l q) (parse_filter (Suc n) fl cb keep l q)
    \<and> fuel_le (filter_members n fl cb keep r l q) (filter_members (Suc n) fl cb keep r l q)
    \<and> fuel_le (filter_elements n fl cb keep r l q) (filter_elements (Suc n) fl cb keep r l q)"
proof (induction n arbitrary: l r q keep)
  case 0
  show ?case by simp
next
  case (Suc n)
  have val: "fuel_le (parse_filter n fl cb keep l q) (parse_filter (Suc n) fl cb keep l q)"
    and mem: "fuel_le (filter_members n fl cb keep r l q) (filter_members (Suc n) fl cb keep r l q)"
    and elt: "fuel_le (filter_elements n fl cb keep r l q) (filter_elements (Suc n) fl cb keep r l q)"
    for l r q keep
    using Suc by blast+
  have "fuel_le (parse_filter (Suc n) fl cb keep l q) (parse_filter (Suc (Suc n)) fl cb keep l q)"
    unfolding parse_filter.simps(2)
    by (cases "last_token l") (auto simp: Let_def split_beta intro!: fuel_le_if fuel_le_bind mem elt)
  moreover have "fuel_le (filter_members (Suc n) fl cb keep r l q) (filter_members (Suc (Suc n)) fl cb keep r l q)"
    unfolding filter_members.simps(2) [of n fl cb keep r l q] filter_members.simps(2) [of "Suc n" fl cb keep r l q] Let_def split_beta
    by (intro fuel_le_bind fuel_le_if fuel_le_refl val mem)
  moreover have "fuel_le (filter_elements (Suc n) fl cb keep r l q) (filter_elements (Suc (Suc n)) fl cb keep r l q)"
    unfolding filter_elements.simps(2) [of n fl cb keep r l q] filter_elements.simps(2) [of "Suc n" fl cb keep r l q] Let_def split_beta
    by (intro fuel_le_bind fuel_le_if fuel_le_refl val elt)
  ultimately show ?case by blast
qed

lemma filter_more_fuel:
  "n \<le> m \<Longrightarrow> parse_filter n fl cb keep l q = Some r \<Longrightarrow> parse_filter m fl cb keep l q = Some r"
proof (induction m rule: dec_induct)
  case (step k)
  then show ?case using filter_more_fuel_Suc [of k fl cb keep l q] by (auto simp: fuel_le_def)
qed

lemma parse_filter_returns:
  assumes "2 * length src + 3 \<le> n"
  shows "parse_filter_fuel n fl cb src s = Some (json_parse_filter fl cb src s)"
proof -
  obtain r where r: "parse_filter (2 * length src + 3) fl cb True (get_token (lexer_of src)) (0, s) = Some r"
    using filter_fuel_course [of cb "2 * length src + 3" fl src s] parse_fuel_enough [of src "2 * length src + 3" fl]
    by (auto dest!: course_Some)
  have "parse_filter n fl cb True (get_token (lexer_of src)) (0, s) = Some r"
    using filter_more_fuel [OF assms r] .
  moreover have "parse_filter_fuel (2 * length src + 3) fl cb src s \<noteq> None"
    using r by (auto simp: parse_filter_fuel_def fuel_bind_None)
  then obtain x where "parse_filter_fuel (2 * length src + 3) fl cb src s = Some x" by blast
  ultimately show ?thesis using r by (simp add: json_parse_filter_def parse_filter_fuel_def)
qed

text \<open>Nothing is stored while a part is not kept.\<close>

lemma not_kept_events [simp]:
  "key_event cb False k q = (False, q)" "end_event cb False e v q = (v, q)"
  by (simp_all add: key_event_def end_event_def split: option.split)

lemma not_kept:
  "(filter_members n fl cb False r l q = Some (Inr (w, l', q')) \<longrightarrow> w = r)
   \<and> (filter_elements n fl cb False r l q = Some (Inr (w, l', q')) \<longrightarrow> w = r)"
proof (induction n arbitrary: l q)
  case (Suc n)
  have "filter_members n fl cb False r l q = Some (Inr (w, l', q')) \<Longrightarrow> w = r"
    "filter_elements n fl cb False r l q = Some (Inr (w, l', q')) \<Longrightarrow> w = r" for l q
    using Suc by blast+
  then show ?case
    by (auto simp: filter_members.simps(2) filter_elements.simps(2) Let_def fuel_bind_cases finish_def
        split: if_splits)
qed simp

lemma rejecting:
  assumes "\<And>s d e v. \<not> fst (f s d e v) \<and> fst (snd (f s d e v)) = v"
    and "parse_filter (Suc n) fl (Some f) True l q = Some (Inr (w, l', q'))"
  shows "w = JDiscarded"
proof -
  have start: "start_event (Some f) True e j q = (False, JDiscarded, fst q + 1, snd (snd (f (snd q) (fst q) e JDiscarded)))" for e j
    using assms(1) by (simp add: start_event_def split_beta)
  have "fst (end_event (Some f) True e v q) = JDiscarded" "fst (value_event (Some f) True v q) = JDiscarded" for e v q
    using assms(1) by (simp_all add: end_event_def value_event_def split_beta)
  then have fin: "finish l (end_event (Some f) True e v q) = Some (Inr (w, l', q')) \<Longrightarrow> w = JDiscarded"
    "finish l (value_event (Some f) True v q) = Some (Inr (w, l', q')) \<Longrightarrow> w = JDiscarded" for l e v q
    by (auto simp: finish_def split_beta)
  have loops: "filter_members n fl (Some f) False JDiscarded l q = Some (Inr (w, l', q')) \<Longrightarrow> w = JDiscarded"
    "filter_elements n fl (Some f) False JDiscarded l q = Some (Inr (w, l', q')) \<Longrightarrow> w = JDiscarded" for l q
    using not_kept [of n fl "Some f" JDiscarded l q w l' q'] by auto
  show ?thesis using assms(2)
    by (auto simp: parse_filter.simps(2) start Let_def fuel_bind_cases unexpect_def finish_def [of _ "(_, _)"]
        dest: fin loops split: token_type.splits if_splits)
qed

lemma filter_parse:
  "(case json_parse fl src of
      Inl e \<Rightarrow> json_parse_filter fl cb src s = Inl e
    | Inr v \<Rightarrow> (\<exists>w d s'. json_parse_filter fl cb src s = Inr (w, d, s') \<and> (accepting cb \<longrightarrow> w = v \<and> d = 0)))"
proof -
  obtain r where r: "parse_internal (2 * length src + 3) fl (get_token (lexer_of src)) = Some r"
      "Some (json_parse fl src) = fuel_bind (Some r) (\<lambda>(result, l). fuel_bind (Some (expect T_end_of_input l))
         (\<lambda>u. Some (Inr (if is_discarded result then JNull else result))))"
    using json_parse_internal by blast
  have c: "course (accepting cb) 0 (Some r) (parse_filter (2 * length src + 3) fl cb True (get_token (lexer_of src)) (0, s))"
    using filter_fuel_course [of cb "2 * length src + 3" fl src s] r(1) by simp
  show ?thesis
  proof (cases r)
    case (Inl e)
    then show ?thesis using r c by (simp add: json_parse_filter_def parse_filter_fuel_def)
  next
    case (Inr vl)
    obtain v l where vl: "vl = (v, l)" by (cases vl)
    obtain w q where w: "parse_filter (2 * length src + 3) fl cb True (get_token (lexer_of src)) (0, s)
        = Some (Inr (w, l, q))" "accepting cb \<longrightarrow> w = v \<and> fst q = 0"
      using course_SomeD [of "accepting cb" 0 v l "parse_filter (2 * length src + 3) fl cb True (get_token (lexer_of src)) (0, s)"] c Inr vl by auto
    show ?thesis using r(2) Inr vl w
      by (cases "expect T_end_of_input l"; cases q) (auto simp: json_parse_filter_def parse_filter_fuel_def)
  qed
qed

section \<open>Properties\<close>

text \<open>
  Property C18: the callback filters values and never the language. Whatever it answers, whatever state it
  keeps and however it changes the values that it is shown, the parser returns on every text, and it
  accepts the same texts as without a callback and rejects the others with the same message. A callback
  that keeps everything and changes nothing gives the same value, and it has seen the depth return to 0.
\<close>

theorem callback_same_texts:
  "(case json_parse fl src of
      Inl e \<Rightarrow> json_parse_filter fl cb src s = Inl e
    | Inr v \<Rightarrow> (\<exists>w d s'. json_parse_filter fl cb src s = Inr (w, d, s') \<and> (accepting cb \<longrightarrow> w = v \<and> d = 0)))"
  by (rule filter_parse)

text \<open>A callback that keeps everything, and a log of its calls.\<close>

definition keep_all :: "((int \<times> parse_event) list, 'd) callback" where
  "keep_all s d e v = (True, v, s @ [(d, e)])"

theorem callback_same_texts_witness:
  "\<exists>s'. json_parse_filter int_dbl (Some keep_all) ''[1,null]'' [] = Inr (JArray [JUint 1, JNull], 0, s')"
proof -
  have "json_parse int_dbl ''[1,null]'' = Inr (JArray [JUint 1, JNull])" by code_simp
  then show ?thesis
    using callback_same_texts [where fl = int_dbl and src = "''[1,null]''" and cb = "Some keep_all" and s = "[]"]
    by (simp add: accepting_def keep_all_def)
qed

text \<open>
  A callback that rejects everything leaves null of every text that is accepted.
\<close>

theorem reject_everything:
  assumes "\<forall>s d e v. \<not> fst (f s d e v) \<and> fst (snd (f s d e v)) = v"
    and "json_parse_filter fl (Some f) src s = Inr (w, q)"
  shows "w = JNull"
proof -
  obtain r where "parse_filter_fuel (2 * length src + 3) fl (Some f) src s = Some r" "r = Inr (w, q)"
    using assms(2) filter_fuel_course [of "Some f" "2 * length src + 3" fl src s]
      parse_fuel_enough [of src "2 * length src + 3" fl]
    by (cases "parse_filter_fuel (2 * length src + 3) fl (Some f) src s")
      (auto simp: json_parse_filter_def parse_filter_fuel_def course_def fuel_bind_None split: sum.splits)
  then obtain v l q' where v: "parse_filter (2 * length src + 3) fl (Some f) True (get_token (lexer_of src)) (0, s)
      = Some (Inr (v, l, q'))" "w = (if is_discarded v then JNull else v)"
    by (auto simp: parse_filter_fuel_def fuel_bind_cases)
  have "2 * length src + 3 = Suc (2 * length src + 2)" by simp
  then have "v = JDiscarded" using v(1) assms(1) rejecting [of f "2 * length src + 2"] by metis
  then show ?thesis using v(2) by (simp add: is_discarded_def)
qed

theorem reject_everything_witness:
  "\<forall>w q. json_parse_filter int_dbl (Some (\<lambda>s d e v. (False, v, s))) ''[1]'' () \<noteq> Inr (w, q) \<or> w = JNull"
  using reject_everything [of "\<lambda>s d e v. (False, v, s)" int_dbl "''[1]''" "()"] by auto

text \<open>
  The depth is wrong after a rejected beginning: it is counted up by the call and not down again, so that
  the values behind are one level too deep; and the end of an empty array inside an array that is not
  kept is announced without a beginning, so that the depth becomes negative.
\<close>

definition log_events :: "parse_event \<Rightarrow> ((int \<times> parse_event) list, 'd) callback" where
  "log_events rejected s d e v = (e \<noteq> rejected, v, s @ [(d, e)])"

theorem depth_drifts:
  "json_parse_filter int_dbl (Some (log_events Object_start)) ''[{},1]'' []
     = Inr (JArray [JUint 1], 1, [(0, Array_start), (1, Object_start), (2, Value), (1, Array_end)])
   \<and> json_parse_filter int_dbl (Some (log_events Array_start)) ''[[],[]]'' []
     = Inr (JNull, - 1, [(0, Array_start), (0, Array_end), (- 1, Array_end)])"
  by code_simp

end
