(* ===== verification/JsonStream.thy ===== *)
theory JsonStream
  imports JsonFilter
begin

text \<open>
  \<open>include/json.h\<close>, reading from a \<open>std::istream\<close>: the line buffer of the lexer with its pointers,
  \<open>fill_line_buffer\<close>, and the ways to call the parser. The pointers are positions in the memory that
  starts at \<open>m_content\<close>. The scanner sees the buffer as a window that moves over the text of the stream
  followed by a newline, which makes no difference to the parser.
\<close>

section \<open>Streams\<close>

text \<open>
  The characters to come, whether they are followed by the end of the file or by an error of reading,
  and the state bits (\<open>is_fail\<close>: \<open>failbit\<close> or \<open>badbit\<close>).
\<close>

record istream =
  is_text :: string
  is_ends :: bool
  is_eof :: bool
  is_fail :: bool

definition stream_of :: "string \<Rightarrow> istream" where
  "stream_of s = \<lparr>is_text = s, is_ends = True, is_eof = False, is_fail = False\<rparr>"

abbreviation newline :: char where
  "newline \<equiv> CHR 0x0A"

text \<open>\<open>std::getline\<close> into an empty string.\<close>

definition getline :: "istream \<Rightarrow> string \<times> istream" where
  "getline s =
     (if is_eof s \<or> is_fail s then ([], s\<lparr>is_fail := True\<rparr>)
      else let line = takeWhile (\<lambda>c. c \<noteq> newline) (is_text s); behind = dropWhile (\<lambda>c. c \<noteq> newline) (is_text s)
        in if behind \<noteq> [] then (line, s\<lparr>is_text := tl behind\<rparr>)
           else if is_ends s then (line, s\<lparr>is_text := [], is_eof := True, is_fail := (line = [])\<rparr>)
           else (line, s\<lparr>is_text := [], is_fail := True\<rparr>))"

section \<open>The line buffer\<close>

record line_lexer =
  ll_stream :: "istream option"
  ll_line_buffer :: string
  ll_content :: string
  ll_start :: nat
  ll_marker :: "int option"
  ll_cursor :: nat
  ll_limit :: nat

definition buffer_lexer :: "string \<Rightarrow> line_lexer" where
  "buffer_lexer buff = \<lparr>ll_stream = None, ll_line_buffer = [], ll_content = buff, ll_start = 0,
     ll_marker = None, ll_cursor = 0, ll_limit = length buff\<rparr>"

text \<open>The assertions at the beginning of \<open>fill_line_buffer\<close>.\<close>

definition fill_asserts :: "line_lexer \<Rightarrow> bool" where
  "fill_asserts l \<longleftrightarrow>
     (ll_line_buffer l = [] \<or> ll_content l = ll_line_buffer l)
     \<and> (ll_line_buffer l = [] \<or> ll_limit l = length (ll_line_buffer l))
     \<and> ll_start l \<le> ll_cursor l \<and> ll_cursor l \<le> ll_limit l
     \<and> (case ll_marker l of None \<Rightarrow> True | Some m \<Rightarrow> m \<le> int (ll_limit l))"

definition at_end :: "line_lexer \<Rightarrow> bool" where
  "at_end l = (case ll_stream l of None \<Rightarrow> True | Some s \<Rightarrow> is_eof s)"

definition fill_line_buffer :: "nat \<Rightarrow> line_lexer \<Rightarrow> line_lexer" where
  "fill_line_buffer n l =
     (let num_processed_chars = ll_start l;
          offset_marker = (case ll_marker l of None \<Rightarrow> 0 | Some m \<Rightarrow> m - int (ll_start l));
          offset_cursor = ll_cursor l - ll_start l;
          (buffer, stream) =
            (case ll_stream l of
               Some s \<Rightarrow>
                 if \<not> is_eof s
                 then let (line, s') = getline s
                      in (drop num_processed_chars (ll_line_buffer l) @ line @ [newline], Some s')
                 else (drop (ll_start l) (take (ll_limit l) (ll_content l)) @ [NUL]
                        @ (if 0 < n then replicate (n - 1) (CHR 0x01) else []), Some s)
             | None \<Rightarrow> (drop (ll_start l) (take (ll_limit l) (ll_content l)) @ [NUL]
                        @ (if 0 < n then replicate (n - 1) (CHR 0x01) else []), None))
      in \<lparr>ll_stream = stream, ll_line_buffer = buffer, ll_content = buffer, ll_start = 0,
          ll_marker = Some offset_marker, ll_cursor = offset_cursor, ll_limit = length buffer\<rparr>)"

definition utf8_bom :: string where
  "utf8_bom = [CHR 0xEF, CHR 0xBB, CHR 0xBF]"

definition blank_bom :: "string \<Rightarrow> string" where
  "blank_bom s = (if 3 \<le> length s \<and> take 3 s = utf8_bom then ''   '' @ drop 3 s else s)"

definition stream_lexer :: "istream \<Rightarrow> line_lexer res" where
  "stream_lexer s =
     (if is_fail s then Inl (Invalid_argument ''stream error'')
      else let l = fill_line_buffer 0 \<lparr>ll_stream = Some s, ll_line_buffer = [], ll_content = [],
                 ll_start = 0, ll_marker = None, ll_cursor = 0, ll_limit = 0\<rparr>
        in Inr (l\<lparr>ll_line_buffer := blank_bom (ll_line_buffer l), ll_content := blank_bom (ll_content l)\<rparr>))"

section \<open>The window\<close>

text \<open>What the scanner has of the text: from the beginning of the token to the limit; and what is to come.\<close>

definition window :: "line_lexer \<Rightarrow> string" where
  "window l = drop (ll_start l) (take (ll_limit l) (ll_content l))"

definition coming :: "istream \<Rightarrow> string" where
  "coming s = (if is_eof s then [] else is_text s @ [newline])"

definition coming_to :: "line_lexer \<Rightarrow> string" where
  "coming_to l = (case ll_stream l of None \<Rightarrow> [] | Some s \<Rightarrow> coming s)"

text \<open>A stream without errors, and the buffer between two fillings.\<close>

definition stream_ok :: "istream \<Rightarrow> bool" where
  "stream_ok s \<longleftrightarrow> is_ends s \<and> (is_fail s \<longrightarrow> is_eof s)"

definition lexer_ok :: "line_lexer \<Rightarrow> bool" where
  "lexer_ok l \<longleftrightarrow> fill_asserts l \<and> ll_limit l = length (ll_content l) \<and> ll_content l = ll_line_buffer l
     \<and> (\<forall>s. ll_stream l = Some s \<longrightarrow> stream_ok s)"

text \<open>
  The steps while a stream is scanned: the scanner moves its pointers within the buffer, never back
  before the beginning of the token, and has the buffer filled. What lies before that beginning is the
  first argument.
\<close>

inductive scanning :: "string \<Rightarrow> string \<Rightarrow> line_lexer \<Rightarrow> bool" for src where
  scan_start: "stream_lexer (stream_of src) = Inr l \<Longrightarrow> scanning src [] l"
| scan_move: "scanning src read l \<Longrightarrow> ll_start l \<le> start \<Longrightarrow> start \<le> cursor \<Longrightarrow> cursor \<le> ll_limit l \<Longrightarrow>
     marker \<le> int (ll_limit l) \<Longrightarrow>
     scanning src (read @ take (start - ll_start l) (window l))
       (l\<lparr>ll_start := start, ll_marker := Some marker, ll_cursor := cursor\<rparr>)"
| scan_fill: "scanning src read l \<Longrightarrow> \<not> at_end l \<Longrightarrow> scanning src read (fill_line_buffer n l)"

lemma line_split:
  "dropWhile (\<lambda>c. c \<noteq> newline) xs = [] \<Longrightarrow> takeWhile (\<lambda>c. c \<noteq> newline) xs = xs"
  "dropWhile (\<lambda>c. c \<noteq> newline) xs = c # cs \<Longrightarrow> xs = takeWhile (\<lambda>c. c \<noteq> newline) xs @ newline # cs"
  by (induction xs) (auto split: if_splits)

lemma getline_coming:
  assumes "stream_ok s" "\<not> is_eof s" "getline s = (line, s')"
  shows "coming s = line @ [newline] @ coming s' \<and> stream_ok s'"
proof (cases "dropWhile (\<lambda>c. c \<noteq> newline) (is_text s)")
  case Nil
  have "getline s = (is_text s, s\<lparr>is_text := [], is_eof := True, is_fail := (is_text s = [])\<rparr>)"
    using assms(1,2) unfolding getline_def Let_def Nil line_split(1) [OF Nil] by (simp add: stream_ok_def)
  then have "line = is_text s" "s' = s\<lparr>is_text := [], is_eof := True, is_fail := (is_text s = [])\<rparr>"
    using assms(3) by simp_all
  then show ?thesis using assms(1,2) by (simp add: stream_ok_def coming_def)
next
  case (Cons c cs)
  have "getline s = (takeWhile (\<lambda>c. c \<noteq> newline) (is_text s), s\<lparr>is_text := cs\<rparr>)"
    using assms(1,2) unfolding getline_def Let_def Cons by (simp add: stream_ok_def)
  then have "line = takeWhile (\<lambda>c. c \<noteq> newline) (is_text s)" "s' = s\<lparr>is_text := cs\<rparr>"
    using assms(3) by simp_all
  moreover have "is_text s @ [newline] = (takeWhile (\<lambda>c. c \<noteq> newline) (is_text s) @ newline # cs) @ [newline]"
    by (rule arg_cong [OF line_split(2) [OF Cons]])
  ultimately show ?thesis using assms(1,2) unfolding coming_def by (simp add: stream_ok_def)
qed

lemma blank_bom_append: "3 \<le> length u \<Longrightarrow> blank_bom u @ rest = blank_bom (u @ rest)"
  by (simp add: blank_bom_def)

lemma blank_bom_line:
  assumes "newline \<notin> set line"
  shows "blank_bom (line @ [newline]) @ rest = blank_bom (line @ [newline] @ rest)"
proof (cases "3 \<le> length (line @ [newline])")
  case True
  then show ?thesis using blank_bom_append [of "line @ [newline]" rest] by simp
next
  case False
  have "newline \<in> set (take 3 (line @ [newline] @ rest))" using False
    by (cases "3 - length line") auto
  moreover have "newline \<notin> set utf8_bom" by (simp add: utf8_bom_def)
  ultimately have "take 3 (line @ [newline] @ rest) \<noteq> utf8_bom" by metis
  with False show ?thesis by (simp add: blank_bom_def)
qed

lemma length_blank_bom [simp]: "length (blank_bom s) = length s"
  by (auto simp: blank_bom_def)

lemma fill_ok:
  assumes "lexer_ok l" "\<not> at_end l"
  shows "lexer_ok (fill_line_buffer n l)"
    and "window (fill_line_buffer n l) @ coming_to (fill_line_buffer n l) = window l @ coming_to l"
    and "length (coming_to (fill_line_buffer n l)) < length (coming_to l)"
proof -
  obtain s where s: "ll_stream l = Some s" "\<not> is_eof s" using assms(2) by (auto simp: at_end_def split: option.splits)
  obtain line s' where g: "getline s = (line, s')" by (cases "getline s")
  have c: "coming s = line @ [newline] @ coming s'" "stream_ok s'"
    using getline_coming [OF _ s(2) g] assms(1) s(1) by (auto simp: lexer_ok_def)
  have w: "window l = drop (ll_start l) (ll_line_buffer l)" using assms(1) by (simp add: window_def lexer_ok_def)
  have f: "fill_line_buffer n l = \<lparr>ll_stream = Some s', ll_line_buffer = window l @ line @ [newline],
      ll_content = window l @ line @ [newline], ll_start = 0,
      ll_marker = Some (case ll_marker l of None \<Rightarrow> 0 | Some m \<Rightarrow> m - int (ll_start l)),
      ll_cursor = ll_cursor l - ll_start l, ll_limit = length (window l @ line @ [newline])\<rparr>"
    using s g by (simp add: fill_line_buffer_def Let_def w)
  have len: "length (window l) = ll_limit l - ll_start l" using assms(1) by (auto simp: w lexer_ok_def fill_asserts_def)
  show "lexer_ok (fill_line_buffer n l)"
    using assms(1) c(2) len by (auto simp: f lexer_ok_def fill_asserts_def split: option.splits)
  show "window (fill_line_buffer n l) @ coming_to (fill_line_buffer n l) = window l @ coming_to l"
    "length (coming_to (fill_line_buffer n l)) < length (coming_to l)"
    by (simp_all add: f window_def [of "\<lparr>ll_stream = _, ll_line_buffer = _, ll_content = _, ll_start = _,
      ll_marker = _, ll_cursor = _, ll_limit = _\<rparr>"] coming_to_def s c(1))
qed

text \<open>At the end, the NUL character that ends the text and as much padding as was asked for.\<close>

lemma fill_end:
  "lexer_ok l \<Longrightarrow> at_end l \<Longrightarrow> window (fill_line_buffer n l) = window l @ NUL # replicate (n - 1) (CHR 0x01)"
  by (cases "ll_stream l"; cases n) (simp_all add: fill_line_buffer_def at_end_def window_def)

lemma stream_lexer_Inr: "\<exists>l. stream_lexer (stream_of src) = Inr l"
  by (simp add: stream_lexer_def stream_of_def Let_def)

lemma stream_lexer_ok:
  assumes "stream_lexer (stream_of src) = Inr l"
  shows "lexer_ok l" "window l @ coming_to l = blank_bom (src @ [newline])"
proof -
  let ?l = "\<lparr>ll_stream = Some (stream_of src), ll_line_buffer = [], ll_content = [], ll_start = 0,
      ll_marker = None, ll_cursor = 0, ll_limit = 0\<rparr>"
  obtain line s' where g: "getline (stream_of src) = (line, s')" by (cases "getline (stream_of src)")
  have n: "newline \<notin> set line" using g
    by (auto simp: getline_def stream_of_def Let_def dest: set_takeWhileD split: if_splits)
  have c: "coming (stream_of src) = line @ [newline] @ coming s'" "stream_ok s'"
    using getline_coming [OF _ _ g] by (auto simp: stream_of_def stream_ok_def)
  have l: "l = \<lparr>ll_stream = Some s', ll_line_buffer = blank_bom (line @ [newline]),
      ll_content = blank_bom (line @ [newline]), ll_start = 0, ll_marker = Some 0, ll_cursor = 0,
      ll_limit = length (line @ [newline])\<rparr>"
    using assms g by (simp add: stream_lexer_def fill_line_buffer_def Let_def stream_of_def)
  show "lexer_ok l" using c(2) by (simp add: l lexer_ok_def fill_asserts_def)
  have "window l @ coming_to l = blank_bom (line @ [newline]) @ coming s'"
    by (simp add: l window_def coming_to_def)
  also have "\<dots> = blank_bom (coming (stream_of src))" using blank_bom_line [OF n] c(1) by simp
  finally show "window l @ coming_to l = blank_bom (src @ [newline])"
    by (simp add: coming_def stream_of_def)
qed

lemma scanning_ok:
  "scanning src read l \<Longrightarrow> lexer_ok l \<and> read @ window l @ coming_to l = blank_bom (src @ [newline])"
proof (induction rule: scanning.induct)
  case (scan_start l)
  then show ?case using stream_lexer_ok by simp
next
  case (scan_move read l start cursor marker)
  let ?l = "l\<lparr>ll_start := start, ll_marker := Some marker, ll_cursor := cursor\<rparr>"
  let ?k = "start - ll_start l"
  have w: "window ?l = drop ?k (window l)" using scan_move.hyps by (simp add: window_def)
  have "coming_to ?l = coming_to l" by (simp add: coming_to_def)
  moreover have "lexer_ok ?l" using scan_move by (auto simp: lexer_ok_def fill_asserts_def)
  moreover have "(read @ take ?k (window l)) @ drop ?k (window l) @ coming_to l = read @ window l @ coming_to l"
    by (metis append.assoc append_take_drop_id)
  ultimately show ?case using scan_move.IH w by metis
next
  case (scan_fill read l n)
  then show ?case using fill_ok [of l n] by simp
qed

section \<open>Texts with another rest\<close>

text \<open>
  Two runs of a lexer that see the same tokens: what the parser makes of them is the same. Its laws are
  about the lexer only.
\<close>

definition same_result :: "('l \<Rightarrow> 'm \<Rightarrow> bool) \<Rightarrow> ('d json \<times> 'l \<times> int \<times> 's) res option \<Rightarrow> ('d json \<times> 'm \<times> int \<times> 's) res option \<Rightarrow> bool" where
  "same_result R m m' \<longleftrightarrow> (case m of
      None \<Rightarrow> m' = None
    | Some (Inl e) \<Rightarrow> m' = Some (Inl e)
    | Some (Inr (v, l, q)) \<Rightarrow> (\<exists>l'. m' = Some (Inr (v, l', q)) \<and> R l l'))"

lemma same_result_simps [simp]:
  "same_result R None m' \<longleftrightarrow> m' = None" "same_result R (Some (Inl e)) m' \<longleftrightarrow> m' = Some (Inl e)"
  "same_result R (Some (Inr (v, l, q))) m' \<longleftrightarrow> (\<exists>l'. m' = Some (Inr (v, l', q)) \<and> R l l')"
  by (simp_all add: same_result_def)

lemma same_result_finish: "R l l' \<Longrightarrow> same_result R (finish l r) (finish l' r)"
  by (cases r) (simp add: finish_def)

lemma same_result_bind:
  assumes "same_result R m m'" "\<And>v l l' q. R l l' \<Longrightarrow> same_result R (f (v, l, q)) (f' (v, l', q))"
  shows "same_result R (fuel_bind m f) (fuel_bind m' f')"
proof (cases m)
  case (Some r)
  then show ?thesis using assms by (cases r) auto
qed (use assms in simp)

lemma same_result_res:
  "r = r' \<Longrightarrow> (\<And>x. r = Inr x \<Longrightarrow> same_result R (f x) (f' x)) \<Longrightarrow>
   same_result R (fuel_bind (Some r) f) (fuel_bind (Some r') f')"
  by (cases r') auto

lemma same_result_if:
  "b = b' \<Longrightarrow> same_result R x x' \<Longrightarrow> same_result R y y' \<Longrightarrow>
   same_result R (if b then x else y) (if b' then x' else y')"
  by simp

locale lexer_simulation =
  fixes R :: "lexer \<Rightarrow> lexer \<Rightarrow> bool"
  assumes same_token: "R l l' \<Longrightarrow> last_token l' = last_token l"
    and same_text: "R l l' \<Longrightarrow> token_text l' = token_text l"
    and same_next: "R l l' \<Longrightarrow> R (get_token l) (get_token l')"
begin

lemma same_checks:
  assumes "R l l'"
  shows "expect t l' = expect t l" "unexpect t l' = unexpect t l"
    "get_string_token l' = get_string_token l" "get_number fl l' = get_number fl l"
  using assms
  by (simp_all add: expect_def unexpect_def unexpected_name_def get_string_token_def get_number_def
      same_token same_text)

lemma same_skip: "R l l' \<Longrightarrow>
   R (if last_token l = t then get_token l else l) (if last_token l' = t then get_token l' else l')"
  by (simp add: same_token same_next)

lemma parser_same:
  fixes fl :: "'d dbl_lib" and q :: "int \<times> 's"
  assumes "R l l'"
  shows "same_result R (parse_filter n fl cb keep l q) (parse_filter n fl cb keep l' q)
    \<and> same_result R (filter_members n fl cb keep r l q) (filter_members n fl cb keep r l' q)
    \<and> same_result R (filter_elements n fl cb keep r l q) (filter_elements n fl cb keep r l' q)"
  using assms
proof (induction n arbitrary: l l' r q keep)
  case 0
  show ?case by simp
next
  case (Suc n)
  have val: "same_result R (parse_filter n fl cb keep l q) (parse_filter n fl cb keep l' q)"
    and mem: "same_result R (filter_members n fl cb keep r l q) (filter_members n fl cb keep r l' q)"
    and elt: "same_result R (filter_elements n fl cb keep r l q) (filter_elements n fl cb keep r l' q)"
    if "R l l'" for l l' r q keep
    using Suc.IH that by blast+
  have "same_result R (parse_filter (Suc n) fl cb keep l q) (parse_filter (Suc n) fl cb keep l' q)"
  proof -
    have n: "R (get_token l) (get_token l')" "R (get_token (get_token l)) (get_token (get_token l'))"
      using Suc.prems by (simp_all add: same_next)
    show ?thesis
      using Suc.prems n
      by (cases "last_token l")
        (auto simp: parse_filter.simps(2) same_token same_checks Let_def split_beta
          intro!: same_result_finish same_result_res same_result_if mem elt)
  qed
  moreover have "same_result R (filter_members (Suc n) fl cb keep r l q) (filter_members (Suc n) fl cb keep r l' q)"
  proof -
    define l1 where "l1 = (if last_token l = T_value_separator then get_token l else l)"
    define l2 where "l2 = (if last_token l' = T_value_separator then get_token l' else l')"
    have "R l1 l2" unfolding l1_def l2_def using Suc.prems by (rule same_skip)
    note s = same_checks [OF this] same_checks [OF same_next [OF this]] same_next [OF same_next [OF this]]
    show ?thesis
      unfolding filter_members.simps(2) Let_def split_beta l1_def [symmetric] l2_def [symmetric]
      by (intro same_result_res same_result_bind same_result_if same_result_finish mem val)
        (auto simp: s same_checks same_token same_next intro!: mem same_result_finish)
  qed
  moreover have "same_result R (filter_elements (Suc n) fl cb keep r l q) (filter_elements (Suc n) fl cb keep r l' q)"
  proof -
    define l1 where "l1 = (if last_token l = T_value_separator then get_token l else l)"
    define l2 where "l2 = (if last_token l' = T_value_separator then get_token l' else l')"
    have s: "R l1 l2" unfolding l1_def l2_def using Suc.prems by (rule same_skip)
    show ?thesis
      unfolding filter_elements.simps(2) Let_def split_beta l1_def [symmetric] l2_def [symmetric]
      by (intro same_result_res same_result_bind same_result_if same_result_finish elt val)
        (auto simp: s same_checks same_token same_next intro!: elt same_result_finish)
  qed
  ultimately show ?case by blast
qed

end

section \<open>A newline at the end\<close>

lemma peek_append: "peek (s @ t) = (if s = [] then peek t else peek s)"
  by (cases s) auto

lemma digits_newline [simp]: "digits_part (s @ [newline]) = digits_part s"
  by (induction s) (auto simp: c_isdigit_def in_range_def)

lemma drop_newline: "length p \<le> length s \<Longrightarrow> drop (length p) (s @ [newline]) = drop (length p) s @ [newline]"
  by simp

lemma prefix_length: "p @ drop (length p) s = s \<Longrightarrow> length p \<le> length s"
  by (metis append_eq_conv_conj length_append le_add1)

lemma int_newline [simp]: "int_part (s @ [newline]) = int_part s"
  by (simp add: int_part_def peek_append NUL_def)

lemma frac_newline [simp]: "frac_part (s @ [newline]) = frac_part s"
  by (cases s) (simp_all add: frac_part_def NUL_def)

lemma sign_newline [simp]: "sign_part (s @ [newline]) = sign_part s"
  by (simp add: sign_part_def peek_append NUL_def)

lemma sign_length: "length (sign_part s) \<le> length s"
  by (cases s) (auto simp: sign_part_def NUL_def)

lemma exp_newline [simp]: "exp_part (s @ [newline]) = exp_part s"
proof (cases s)
  case (Cons c cs)
  then show ?thesis using sign_length [of cs] by (simp add: exp_part_def Let_def)
qed (simp add: exp_part_def NUL_def Let_def)

lemma number_newline: "s \<noteq> [] \<Longrightarrow> number_prefix (s @ [newline]) = number_prefix s"
proof -
  assume s: "s \<noteq> []"
  define m where "m = (if peek s = CHR ''-'' then ''-'' else [])"
  define s1 where "s1 = drop (length m) s"
  define s2 where "s2 = drop (length (int_part s1)) s1"
  have "length m \<le> length s" using s by (cases s) (auto simp: m_def)
  moreover have "length (int_part s1) \<le> length s1" using int_part_prefix by (rule prefix_length)
  moreover have "length (frac_part s2) \<le> length s2" using frac_part_prefix by (rule prefix_length)
  ultimately show ?thesis using s
    by (simp add: number_prefix_def Let_def peek_append m_def [symmetric] s1_def [symmetric] s2_def [symmetric])
qed

lemma str_scan_newline:
  "str_scan st (s @ [newline]) = map_option (\<lambda>(a, b). (a, b @ [newline])) (str_scan st s)"
proof (induction s arbitrary: st)
  case Nil
  have "str_next st newline = Reject"
    by (cases st) (simp_all add: str_next_S31_def plain_char_def c_isxdigit_def in_range_def)
  then show ?case by simp
next
  case (Cons c s)
  then show ?case by (auto simp: option.map_comp comp_def split_beta split: str_action.split)
qed

lemma str_scan_length: "str_scan st s = Some (a, b) \<Longrightarrow> length a + length b < length s"
  by (induction st s arbitrary: a b rule: str_scan.induct) (auto split: str_action.splits)

lemma starts_with_newline: "newline \<notin> set w \<Longrightarrow> starts_with w (s @ [newline]) = starts_with w s"
  by (induction w s rule: starts_with.induct) auto

lemma emit_append: "n \<le> length s \<Longrightarrow> emit t (s @ r) n = (emit t s n)\<lparr>rest_text := rest_text (emit t s n) @ r\<rparr>"
  by (simp add: emit_def)

lemma scan_newline:
  assumes "s \<noteq> []"
  shows "scan_token (s @ [newline]) = (scan_token s)\<lparr>rest_text := rest_text (scan_token s) @ [newline]\<rparr>"
proof (cases "peek s = CHR ''-'' \<or> c_isdigit (peek s)")
  case True
  moreover have "peek (s @ [newline]) = peek s" using assms by (simp add: peek_append)
  ultimately have "scan_token (s @ [newline]) = (case number_prefix s of
      None \<Rightarrow> \<lparr>last_token = T_parse_error, token_text = take 1 (s @ [newline]), rest_text = drop 1 (s @ [newline])\<rparr>
    | Some t \<Rightarrow> \<lparr>last_token = T_value_number, token_text = t, rest_text = drop (length t) (s @ [newline])\<rparr>)"
    using assms by (simp add: scan_number number_newline)
  moreover have "1 \<le> length s" using assms by (cases s) auto
  moreover have "length t \<le> length s" if "number_prefix s = Some t" for t
    using number_prefix_prefix [OF that] by (rule prefix_length)
  ultimately show ?thesis using True by (simp add: scan_number split: option.splits)
next
  case False
  then have p: "peek s \<noteq> CHR ''-''" "peek s \<noteq> CHR ''0''" "\<not> in_range 49 57 (peek s)"
    by (auto simp: c_isdigit_def in_range_def)
  have one: "1 \<le> length s" using assms by (cases s) auto
  have w: "length w \<le> length s" if "starts_with w s" for w using that by (auto simp: starts_with_iff)
  have lit: "scan_literal w t (s @ [newline])
      = (scan_literal w t s)\<lparr>rest_text := rest_text (scan_literal w t s) @ [newline]\<rparr>"
    if "newline \<notin> set w" for w t
    using that one w [of w] by (simp add: scan_literal_def starts_with_newline emit_append)
  have str: "length content + 2 \<le> length s" if "str_scan S30 (tl s) = Some (content, rest)" for content rest
    using str_scan_length [OF that] assms by (cases s) auto
  show ?thesis using p one lit str
    by (auto simp: scan_token_def Let_def peek_append assms emit_append str_scan_newline split: option.split)
qed

text \<open>The rest of the text, and the same with the newline behind it, until both are at their ends.\<close>

definition newline_behind :: "lexer \<Rightarrow> lexer \<Rightarrow> bool" where
  "newline_behind l l' \<longleftrightarrow> last_token l' = last_token l \<and> token_text l' = token_text l
     \<and> (rest_text l' = rest_text l @ [newline] \<or> rest_text l = [] \<and> rest_text l' = [])"

lemma newline_behind_next:
  assumes "newline_behind l l'"
  shows "newline_behind (get_token l) (get_token l')"
proof (cases "dropWhile json_ws (rest_text l) = []")
  case True
  have "json_ws newline" by (simp add: json_ws_def)
  then have "\<forall>c\<in>set (rest_text l'). json_ws c" using assms True by (auto simp: newline_behind_def)
  then have "dropWhile json_ws (rest_text l') = []" by (simp only: dropWhile_eq_Nil_conv)
  with True show ?thesis
    by (simp only: get_token_def lex_scan_def) (simp add: newline_behind_def scan_token_def emit_def NUL_def)
next
  case False
  then have "rest_text l' = rest_text l @ [newline]" using assms by (auto simp: newline_behind_def)
  then have "dropWhile json_ws (rest_text l') = dropWhile json_ws (rest_text l) @ [newline]"
    using False by (auto simp: dropWhile_append)
  then show ?thesis using scan_newline [OF False] by (simp add: get_token_def lex_scan_def newline_behind_def)
qed

interpretation behind: lexer_simulation newline_behind
  by (unfold_locales; (erule newline_behind_next | simp add: newline_behind_def))

lemma newline_first: "newline_behind (get_token (lexer_of s)) (get_token (lexer_of (s @ [newline])))"
  by (rule newline_behind_next) (simp add: newline_behind_def lexer_of_def)

lemma parse_newline: "json_parse_filter fl cb (s @ [newline]) q = json_parse_filter fl cb s q"
proof -
  let ?n = "2 * length (s @ [newline]) + 3"
  have "same_result newline_behind (parse_filter ?n fl cb True (get_token (lexer_of s)) (0, q))
      (parse_filter ?n fl cb True (get_token (lexer_of (s @ [newline]))) (0, q))"
    using behind.parser_same [OF newline_first, of _ fl cb True s "(0, q)"] by blast
  then have "parse_filter_fuel ?n fl cb (s @ [newline]) q = parse_filter_fuel ?n fl cb s q"
    unfolding parse_filter_fuel_def same_result_def
    by (auto simp: fuel_bind_def behind.same_checks split: option.splits sum.splits prod.splits)
  then show ?thesis using parse_filter_returns [of s ?n fl cb q] parse_filter_returns [of "s @ [newline]" ?n fl cb q]
    by simp
qed

lemma blank_bom_newline:
  "blank_bom (src @ [newline]) = (if take 3 src = utf8_bom then ''   '' @ drop 3 src else src) @ [newline]"
proof (cases "3 \<le> length src")
  case False
  then have "take 3 src \<noteq> utf8_bom" by (auto simp: utf8_bom_def dest: arg_cong [of _ _ length])
  moreover have "take 3 (src @ [newline]) \<noteq> utf8_bom"
  proof -
    have "newline \<in> set (take 3 (src @ [newline]))" using False by simp
    moreover have "newline \<notin> set utf8_bom" by (simp add: utf8_bom_def)
    ultimately show ?thesis by metis
  qed
  ultimately show ?thesis by (simp add: blank_bom_def)
qed (simp add: blank_bom_def)

section \<open>The ways to parse\<close>

text \<open>
  \<open>parse\<close> of a pointer (up to the NUL character) and of a range; that of a stream is in \<open>JsonBuffer\<close>.
\<close>

definition parse_pointer :: "'d dbl_lib \<Rightarrow> ('s, 'd) callback option \<Rightarrow> string \<Rightarrow> 's \<Rightarrow> ('d json \<times> int \<times> 's) res" where
  "parse_pointer fl cb s q = json_parse_filter fl cb (takeWhile (\<lambda>c. c \<noteq> NUL) s) q"

definition parse_range :: "'d dbl_lib \<Rightarrow> ('s, 'd) callback option \<Rightarrow> string \<Rightarrow> 's \<Rightarrow> ('d json \<times> int \<times> 's) res" where
  "parse_range fl cb bytes q =
     (if bytes = [] then json_parse_filter fl None [] q else json_parse_filter fl cb bytes q)"

section \<open>Properties\<close>

text \<open>
  The line buffer loses nothing. Whatever the scanner does with its pointers and whenever it
  asks for more, the assertions of \<open>fill_line_buffer\<close> hold, and the characters behind the beginning of
  the token, in the buffer and in the stream, are those of the text and a newline that have not been left
  behind (with blanks for a byte-order mark); each line that is read shortens what is to come, and at the
  end of the stream the buffer ends with a NUL character.
\<close>

theorem stream_window:
  assumes "scanning src read l"
  shows "fill_asserts l
    \<and> read @ window l @ coming_to l = blank_bom (src @ [newline])
    \<and> (if at_end l then window (fill_line_buffer n l) = window l @ NUL # replicate (n - 1) (CHR 0x01)
       else length (coming_to (fill_line_buffer n l)) < length (coming_to l))"
  using scanning_ok [OF assms] fill_ok(3) [of l n] fill_end [of l n] by (auto simp: lexer_ok_def)

theorem stream_window_witness:
  "\<exists>l. scanning ''[1]'' [] l \<and> window l @ coming_to l = ''[1]'' @ [newline]"
proof -
  obtain l where "stream_lexer (stream_of ''[1]'') = Inr l" using stream_lexer_Inr by blast
  then have "scanning ''[1]'' [] l" by (rule scan_start)
  from stream_window [OF this] this show ?thesis by (auto simp: blank_bom_def utf8_bom_def)
qed

lemma read_error_stays:
  "ll_stream l = Some s \<Longrightarrow> \<not> is_ends s \<Longrightarrow> \<not> is_eof s \<Longrightarrow>
   \<exists>s'. ll_stream (fill_line_buffer n l) = Some s' \<and> \<not> is_ends s' \<and> \<not> is_eof s'"
  by (auto simp: fill_line_buffer_def getline_def Let_def)

text \<open>
  An error of reading that is not the end of the file is not noticed: the end is never reached, however
  often the buffer is filled.
\<close>

theorem read_error_never_ends:
  assumes "ll_stream l = Some s" "\<not> is_ends s" "\<not> is_eof s"
  shows "\<not> at_end ((fill_line_buffer n ^^ k) l)"
proof -
  have "\<exists>s. ll_stream ((fill_line_buffer n ^^ k) l) = Some s \<and> \<not> is_ends s \<and> \<not> is_eof s"
  proof (induction k)
    case (Suc k)
    then show ?case using read_error_stays by fastforce
  qed (use assms in simp)
  then show ?thesis by (auto simp: at_end_def)
qed

theorem read_error_never_ends_witness:
  "\<not> at_end ((fill_line_buffer 5 ^^ 7) (buffer_lexer []
     \<lparr>ll_stream := Some \<lparr>is_text = ''['', is_ends = False, is_eof = False, is_fail = False\<rparr>\<rparr>))"
  by (rule read_error_never_ends [of _ "\<lparr>is_text = ''['', is_ends = False, is_eof = False, is_fail = False\<rparr>"])
    (simp_all add: buffer_lexer_def)

end
