(* ===== verification/JsonAutomaton.thy ===== *)
theory JsonAutomaton
  imports JsonLexer
begin

text \<open>
  \<open>include/json.h\<close>, \<open>lexer::scan\<close> as it was generated: the labels with their jumps and the table of character
  classes, as an automaton that runs on a text. It is shown to be the scanner of \<open>JsonLexer\<close>, which
  \<open>JsonScan\<close> uses for the code with its pointers.
\<close>

section \<open>The labels\<close>

text \<open>
  \<open>L0\<close> is the beginning of the loop; the others have the number of the label \<open>basic_json_parser_\<close> in the
  code. The code at a label has one of six forms: a step moves the cursor, perhaps keeps its position
  in \<open>m_marker\<close> (with \<open>yyaccept\<close>), sees to it that there are as many characters as it says, and
  reads the character there; \<open>L31\<close> looks at that character again; \<open>L32\<close> goes back to the marker; and the
  labels of tokens end the scan, with or without moving the cursor.
\<close>

datatype (plugins only: size code) label =
    L0 | L2 | L4 | L5 | L6 | L9 | L10 | L12 | L13 | L14 | L15 | L17 | L19 | L21 | L23 | L24
  | L25 | L26 | L28 | L30 | L31 | L32 | L33 | L35 | L36 | L37 | L38 | L39 | L40 | L41 | L42 | L43
  | L44 | L45 | L46 | L47 | L48 | L49 | L51 | L52 | L54 | L55 | L56 | L57 | L58 | L59 | L61 | L63
  | L64 | L66

datatype form =
    Restart | Step "nat option" nat | Look | Back | Finish token_type | Stop token_type

primrec form_of :: "label \<Rightarrow> form" where
  "form_of L0 = Restart"
| "form_of L2 = Finish T_end_of_input"
| "form_of L4 = Finish T_parse_error"
| "form_of L5 = Stop T_parse_error"
| "form_of L6 = Step None 1"
| "form_of L9 = Step (Some 0) 0"
| "form_of L10 = Finish T_value_separator"
| "form_of L12 = Step None 0"
| "form_of L13 = Step (Some 1) 0"
| "form_of L14 = Stop T_value_number"
| "form_of L15 = Step (Some 1) 3"
| "form_of L17 = Finish T_name_separator"
| "form_of L19 = Finish T_begin_array"
| "form_of L21 = Finish T_end_array"
| "form_of L23 = Step (Some 0) 0"
| "form_of L24 = Step (Some 0) 0"
| "form_of L25 = Step (Some 0) 0"
| "form_of L26 = Finish T_begin_object"
| "form_of L28 = Finish T_end_object"
| "form_of L30 = Step None 1"
| "form_of L31 = Look"
| "form_of L32 = Back"
| "form_of L33 = Finish T_value_string"
| "form_of L35 = Step None 1"
| "form_of L36 = Step None 1"
| "form_of L37 = Step None 1"
| "form_of L38 = Step None 1"
| "form_of L39 = Step None 1"
| "form_of L40 = Step None 1"
| "form_of L41 = Step None 1"
| "form_of L42 = Step None 1"
| "form_of L43 = Step None 0"
| "form_of L44 = Step None 0"
| "form_of L45 = Step None 0"
| "form_of L46 = Step None 0"
| "form_of L47 = Step None 0"
| "form_of L48 = Step None 1"
| "form_of L49 = Step (Some 1) 3"
| "form_of L51 = Step None 0"
| "form_of L52 = Step None 1"
| "form_of L54 = Step None 0"
| "form_of L55 = Step None 0"
| "form_of L56 = Step None 0"
| "form_of L57 = Step None 1"
| "form_of L58 = Step None 0"
| "form_of L59 = Finish T_literal_null"
| "form_of L61 = Finish T_literal_true"
| "form_of L63 = Step None 1"
| "form_of L64 = Finish T_literal_false"
| "form_of L66 = Step None 1"

text \<open>The classes of the characters: bit 32 for white space, 64 for digits, 128 for the plain characters of strings.\<close>

definition yybm :: "nat list" where
  "yybm = [
     0, 0, 0, 0, 0, 0, 0, 0, 0, 32, 32, 0, 0, 32, 0, 0,
     0, 0, 0, 0, 0, 0, 0, 0, 0, 0, 0, 0, 0, 0, 0, 0,
     160, 128, 0, 128, 128, 128, 128, 128, 128, 128, 128, 128, 128, 128, 128, 128,
     192, 192, 192, 192, 192, 192, 192, 192, 192, 192, 128, 128, 128, 128, 128, 128,
     128, 128, 128, 128, 128, 128, 128, 128, 128, 128, 128, 128, 128, 128, 128, 128,
     128, 128, 128, 128, 128, 128, 128, 128, 128, 128, 128, 128, 0, 128, 128, 128,
     128, 128, 128, 128, 128, 128, 128, 128, 128, 128, 128, 128, 128, 128, 128, 128,
     128, 128, 128, 128, 128, 128, 128, 128, 128, 128, 128, 128, 128, 128, 128, 128,
     0, 0, 0, 0, 0, 0, 0, 0, 0, 0, 0, 0, 0, 0, 0, 0,
     0, 0, 0, 0, 0, 0, 0, 0, 0, 0, 0, 0, 0, 0, 0, 0,
     0, 0, 0, 0, 0, 0, 0, 0, 0, 0, 0, 0, 0, 0, 0, 0,
     0, 0, 0, 0, 0, 0, 0, 0, 0, 0, 0, 0, 0, 0, 0, 0,
     0, 0, 0, 0, 0, 0, 0, 0, 0, 0, 0, 0, 0, 0, 0, 0,
     0, 0, 0, 0, 0, 0, 0, 0, 0, 0, 0, 0, 0, 0, 0, 0,
     0, 0, 0, 0, 0, 0, 0, 0, 0, 0, 0, 0, 0, 0, 0, 0,
     0, 0, 0, 0, 0, 0, 0, 0, 0, 0, 0, 0, 0, 0, 0, 0]"

definition yybm_bit :: "char \<Rightarrow> nat \<Rightarrow> bool" where
  "yybm_bit c k \<longleftrightarrow> odd (yybm ! of_char c div k)"

text \<open>
  The jumps. Four forms return: the jump at the beginning, the digits of a code point, the bytes of a
  character of several bytes, and the letters of the literals.
\<close>

definition jump_start :: "char \<Rightarrow> label" where [simp]:
  "jump_start yych =
     (if yybm_bit yych 32 then L6
      else if yych \<le> CHR ''['' then
        if yych \<le> CHR ''-'' then
          if yych \<le> CHR 0x22 then
            if yych \<le> CHR 0x00 then L2 else if yych \<le> CHR ''!'' then L4 else L9
          else if yych \<le> CHR ''+'' then L4 else if yych \<le> CHR '','' then L10 else L12
        else
          if yych \<le> CHR ''9'' then
            if yych \<le> CHR ''/'' then L4 else if yych \<le> CHR ''0'' then L13 else L15
          else if yych \<le> CHR '':'' then L17 else if yych \<le> CHR ''Z'' then L4 else L19
      else
        if yych \<le> CHR ''n'' then
          if yych \<le> CHR ''e'' then if yych = CHR '']'' then L21 else L4
          else if yych \<le> CHR ''f'' then L23 else if yych \<le> CHR ''m'' then L4 else L24
        else
          if yych \<le> CHR ''z'' then if yych = CHR ''t'' then L25 else L4
          else if yych \<le> CHR ''{'' then L26 else if yych = CHR ''}'' then L28 else L4)"

definition jump_hex :: "label \<Rightarrow> char \<Rightarrow> label" where [simp]:
  "jump_hex next yych =
     (if yych \<le> CHR 0x40 then
        if yych \<le> CHR ''/'' then L32 else if yych \<le> CHR ''9'' then next else L32
      else if yych \<le> CHR ''F'' then next else if yych \<le> CHR 0x60 then L32
      else if yych \<le> CHR ''f'' then next else L32)"

definition jump_range :: "char \<Rightarrow> char \<Rightarrow> label \<Rightarrow> char \<Rightarrow> label" where [simp]:
  "jump_range below until next yych =
     (if yych \<le> below then L32 else if yych \<le> until then next else L32)"

definition jump_letter :: "char \<Rightarrow> label \<Rightarrow> label \<Rightarrow> char \<Rightarrow> label" where [simp]:
  "jump_letter letter next other yych = (if yych = letter then next else other)"

text \<open>A label that does not look at a character has itself here.\<close>

primrec dispatch :: "label \<Rightarrow> char \<Rightarrow> label" where
  "dispatch L0 yych = jump_start yych"
| "dispatch L2 yych = L2"
| "dispatch L4 yych = L4"
| "dispatch L5 yych = L5"
| "dispatch L6 yych = (if yybm_bit yych 32 then L6 else L0)"
| "dispatch L9 yych =
     (if yych \<le> CHR 0x1F then L5 else if yych \<le> CHR 0x7F then L31
      else if yych \<le> CHR 0xC1 then L5 else if yych \<le> CHR 0xF4 then L31 else L5)"
| "dispatch L10 yych = L10"
| "dispatch L12 yych =
     (if yych \<le> CHR ''/'' then L5 else if yych \<le> CHR ''0'' then L13
      else if yych \<le> CHR ''9'' then L15 else L5)"
| "dispatch L13 yych =
     (if yych \<le> CHR ''D'' then if yych = CHR ''.'' then L43 else L14
      else if yych \<le> CHR ''E'' then L44 else if yych = CHR ''e'' then L44 else L14)"
| "dispatch L14 yych = L14"
| "dispatch L15 yych =
     (if yybm_bit yych 64 then L15
      else if yych \<le> CHR ''D'' then if yych = CHR ''.'' then L43 else L14
      else if yych \<le> CHR ''E'' then L44 else if yych = CHR ''e'' then L44 else L14)"
| "dispatch L17 yych = L17"
| "dispatch L19 yych = L19"
| "dispatch L21 yych = L21"
| "dispatch L23 yych = jump_letter (CHR ''a'') L45 L5 yych"
| "dispatch L24 yych = jump_letter (CHR ''u'') L46 L5 yych"
| "dispatch L25 yych = jump_letter (CHR ''r'') L47 L5 yych"
| "dispatch L26 yych = L26"
| "dispatch L28 yych = L28"
| "dispatch L30 yych = L31"
| "dispatch L31 yych =
     (if yybm_bit yych 128 then L30
      else if yych \<le> CHR 0xE0 then
        if yych \<le> CHR 0x5C then
          if yych \<le> CHR 0x1F then L32 else if yych \<le> CHR 0x22 then L33 else L35
        else if yych \<le> CHR 0xC1 then L32 else if yych \<le> CHR 0xDF then L36 else L37
      else
        if yych \<le> CHR 0xEF then if yych = CHR 0xED then L39 else L38
        else if yych \<le> CHR 0xF0 then L40 else if yych \<le> CHR 0xF3 then L41
        else if yych \<le> CHR 0xF4 then L42 else L32)"
| "dispatch L32 yych = L32"
| "dispatch L33 yych = L33"
| "dispatch L35 yych =
     (if yych \<le> CHR ''e'' then
        if yych \<le> CHR ''/'' then
          if yych = CHR 0x22 then L30 else if yych \<le> CHR ''.'' then L32 else L30
        else if yych \<le> CHR 0x5C then if yych \<le> CHR ''['' then L32 else L30
        else if yych = CHR ''b'' then L30 else L32
      else
        if yych \<le> CHR ''q'' then
          if yych \<le> CHR ''f'' then L30 else if yych = CHR ''n'' then L30 else L32
        else if yych \<le> CHR ''s'' then if yych \<le> CHR ''r'' then L30 else L32
        else if yych \<le> CHR ''t'' then L30 else if yych \<le> CHR ''u'' then L48 else L32)"
| "dispatch L36 yych = jump_range (CHR 0x7F) (CHR 0xBF) L30 yych"
| "dispatch L37 yych = jump_range (CHR 0x9F) (CHR 0xBF) L36 yych"
| "dispatch L38 yych = jump_range (CHR 0x7F) (CHR 0xBF) L36 yych"
| "dispatch L39 yych = jump_range (CHR 0x7F) (CHR 0x9F) L36 yych"
| "dispatch L40 yych = jump_range (CHR 0x8F) (CHR 0xBF) L38 yych"
| "dispatch L41 yych = jump_range (CHR 0x7F) (CHR 0xBF) L38 yych"
| "dispatch L42 yych = jump_range (CHR 0x7F) (CHR 0x8F) L38 yych"
| "dispatch L43 yych = (if yych \<le> CHR ''/'' then L32 else if yych \<le> CHR ''9'' then L49 else L32)"
| "dispatch L44 yych =
     (if yych \<le> CHR '','' then if yych = CHR ''+'' then L51 else L32
      else if yych \<le> CHR ''-'' then L51 else if yych \<le> CHR ''/'' then L32
      else if yych \<le> CHR ''9'' then L52 else L32)"
| "dispatch L45 yych = jump_letter (CHR ''l'') L54 L32 yych"
| "dispatch L46 yych = jump_letter (CHR ''l'') L55 L32 yych"
| "dispatch L47 yych = jump_letter (CHR ''u'') L56 L32 yych"
| "dispatch L48 yych = jump_hex L57 yych"
| "dispatch L49 yych =
     (if yych \<le> CHR ''D'' then
        if yych \<le> CHR ''/'' then L14 else if yych \<le> CHR ''9'' then L49 else L14
      else if yych \<le> CHR ''E'' then L44 else if yych = CHR ''e'' then L44 else L14)"
| "dispatch L51 yych = (if yych \<le> CHR ''/'' then L32 else if CHR '':'' \<le> yych then L32 else L52)"
| "dispatch L52 yych = (if yych \<le> CHR ''/'' then L14 else if yych \<le> CHR ''9'' then L52 else L14)"
| "dispatch L54 yych = jump_letter (CHR ''s'') L58 L32 yych"
| "dispatch L55 yych = jump_letter (CHR ''l'') L59 L32 yych"
| "dispatch L56 yych = jump_letter (CHR ''e'') L61 L32 yych"
| "dispatch L57 yych = jump_hex L63 yych"
| "dispatch L58 yych = jump_letter (CHR ''e'') L64 L32 yych"
| "dispatch L59 yych = L59"
| "dispatch L61 yych = L61"
| "dispatch L63 yych = jump_hex L66 yych"
| "dispatch L64 yych = L64"
| "dispatch L66 yych = jump_hex L30 yych"

section \<open>The automaton on a text\<close>

text \<open>
  The same without a buffer: \<open>src\<close> is the text from the beginning of the token, \<open>n\<close> the position of the
  cursor and \<open>m\<close> that of the marker in it; behind the text there are NUL characters.
\<close>

definition rank :: "label \<Rightarrow> bool \<Rightarrow> nat" where
  "rank lab rest = (case form_of lab of
      Restart \<Rightarrow> 6 | Step mark n \<Rightarrow> (if lab = L6 then if rest then 5 else 7 else 3)
    | Look \<Rightarrow> (if rest then 4 else 2) | Back \<Rightarrow> 1 | _ \<Rightarrow> 0)"

definition togo :: "label \<Rightarrow> nat \<Rightarrow> string \<Rightarrow> nat" where
  "togo lab n src = (case form_of lab of
      Finish t \<Rightarrow> 0 | Stop t \<Rightarrow> 0
    | _ \<Rightarrow> 8 * (length src - n) + rank lab (n < length src))"

lemma peek_drop: "peek (drop n src) = (if n < length src then src ! n else NUL)"
  by (cases "n < length src") (simp_all add: peek_def Cons_nth_drop_Suc [symmetric])

lemma rank_bound: "rank lab b \<le> 7"
  by (simp add: rank_def split: form.split)

lemma togo_bound: "togo lab n src \<le> 8 * (length src - n) + 7"
  using rank_bound [of lab "n < length src"] by (auto simp: togo_def split: form.split)

text \<open>The table gives the classes of \<open>JsonLexer\<close>.\<close>

definition class_bits :: "nat \<Rightarrow> nat" where
  "class_bits n =
     (if n = 9 \<or> n = 10 \<or> n = 13 then 32 else if n < 32 then 0 else if n = 32 then 160
      else if n = 34 \<or> n = 92 then 0 else if 48 \<le> n \<and> n \<le> 57 then 192 else if n < 128 then 128 else 0)"

lemma yybm_map: "yybm = map class_bits [0..<256]"
  by (simp add: yybm_def class_bits_def upt_conv_Cons)

lemma yybm_nth: "n < 256 \<Longrightarrow> yybm ! n = class_bits n"
  by (simp add: yybm_map)

lemmas char_classes = json_ws_def c_isdigit_def plain_char_def in_range_def NUL_def less_eq_char_def char_eq_code

lemma yybm_bit_class [simp]:
  "yybm_bit c 32 = json_ws c" "yybm_bit c 64 = c_isdigit c" "yybm_bit c 128 = plain_char c"
proof -
  have "of_char c < (256 :: nat)" by simp
  then show "yybm_bit c 32 = json_ws c" "yybm_bit c 64 = c_isdigit c" "yybm_bit c 128 = plain_char c"
    by (auto simp: yybm_bit_def yybm_nth class_bits_def char_classes simp del: of_char_eq_iff)
qed

text \<open>At the end of the text no label waits for more.\<close>

lemma dispatch_end:
  "form_of lab = Step mark k \<Longrightarrow> rank (dispatch lab NUL) False < rank lab False"
  "form_of lab = Restart \<Longrightarrow> dispatch lab NUL = L2"
  "form_of lab = Look \<Longrightarrow> dispatch lab NUL = L32"
  by (cases lab; simp add: rank_def char_classes del: of_char_eq_iff)+

lemma dispatch_start: "form_of lab = Restart \<Longrightarrow> rank (dispatch lab c) True < 6"
  by (cases lab; simp add: rank_def)

lemma dispatch_look: "form_of lab = Look \<Longrightarrow> rank (dispatch lab c) True < 4"
  by (cases lab; simp add: rank_def)

declare dispatch.simps [simp del]

text \<open>Every step goes on, and at the end of the text to a label of lower rank.\<close>

lemma togo_step:
  "form_of lab = Step mark k \<Longrightarrow> togo (dispatch lab (peek (drop (Suc n) src))) (Suc n) src < togo lab n src"
proof -
  assume lab: "form_of lab = Step mark k"
  show ?thesis
  proof (cases "n < length src")
    case True
    then have "8 * (length src - n) = 8 * (length src - Suc n) + 8" by simp
    moreover have "3 \<le> rank lab True" using lab by (simp add: rank_def)
    ultimately show ?thesis using True lab togo_bound [of "dispatch lab (peek (drop (Suc n) src))" "Suc n" src]
      by (simp add: togo_def)
  next
    case False
    then show ?thesis using lab dispatch_end(1) [OF lab]
      by (auto simp: togo_def peek_def split: form.splits)
  qed
qed

lemma togo_start:
  "form_of lab = Restart \<Longrightarrow> togo (dispatch lab (peek (drop n src))) 0 (drop n src) < togo lab n src"
proof (cases "n < length src")
  case True
  assume "form_of lab = Restart"
  with True dispatch_start [of lab "peek (drop n src)"] show ?thesis
    by (auto simp: togo_def rank_def split: form.splits)
next
  case False
  assume "form_of lab = Restart"
  with False dispatch_end(2) [of lab] show ?thesis by (simp add: togo_def rank_def peek_def)
qed

lemma togo_look:
  "form_of lab = Look \<Longrightarrow> togo (dispatch lab (peek (drop n src))) n src < togo lab n src"
proof (cases "n < length src")
  case True
  assume "form_of lab = Look"
  with True dispatch_look [of lab "peek (drop n src)"] show ?thesis
    by (auto simp: togo_def rank_def split: form.splits)
next
  case False
  assume "form_of lab = Look"
  with False dispatch_end(3) [of lab] show ?thesis by (simp add: togo_def rank_def peek_def)
qed

lemma togo_back: "form_of lab = Back \<Longrightarrow> togo L5 m src < togo lab n src" "form_of lab = Back \<Longrightarrow> togo L14 m src < togo lab n src"
  by (simp_all add: togo_def rank_def)

function automaton :: "label \<Rightarrow> nat \<Rightarrow> nat \<Rightarrow> nat \<Rightarrow> string \<Rightarrow> lexer" where
  "automaton lab yyaccept m n src =
     (case form_of lab of
        Restart \<Rightarrow> automaton (dispatch lab (peek (drop n src))) 0 0 0 (drop n src)
      | Step mark k \<Rightarrow>
          (case mark of
             None \<Rightarrow> automaton (dispatch lab (peek (drop (Suc n) src))) yyaccept m (Suc n) src
           | Some a \<Rightarrow> automaton (dispatch lab (peek (drop (Suc n) src))) a (Suc n) (Suc n) src)
      | Look \<Rightarrow> automaton (dispatch lab (peek (drop n src))) yyaccept m n src
      | Back \<Rightarrow> automaton (if yyaccept = 0 then L5 else L14) yyaccept m m src
      | Finish t \<Rightarrow> emit t src (Suc n)
      | Stop t \<Rightarrow> emit t src n)"
  by pat_completeness auto

termination automaton
  by (relation "measure (\<lambda>(lab, a, m, n, src). togo lab n src)")
    (simp_all add: togo_step togo_start togo_look togo_back)

declare automaton.simps [simp del]

section \<open>The automaton is the scanner\<close>

text \<open>One step, with the character under the cursor and the one behind it.\<close>

lemma drop_next: "drop n src = c # cs \<Longrightarrow> drop (Suc n) src = cs"
  by (metis drop_Suc list.sel(3) tl_drop)

lemma auto_step:
  assumes "drop n src = c # cs" "form_of lab = Step mark k"
  shows "automaton lab a m n src = automaton (dispatch lab (peek cs))
    (case mark of None \<Rightarrow> a | Some b \<Rightarrow> b) (if mark = None then m else Suc n) (Suc n) src"
  by (subst automaton.simps) (simp add: assms(2) drop_next [OF assms(1)] split: option.split)

lemma auto_end [simp]:
  "automaton L5 a m n src = emit T_parse_error src n"
  "automaton L14 a m n src = emit T_value_number src n"
  by (subst automaton.simps, simp)+

lemma auto_back [simp]:
  "automaton L32 a m n src = emit (if a = 0 then T_parse_error else T_value_number) src m"
  by (subst automaton.simps) simp

lemma auto_finish: "form_of lab = Finish t \<Longrightarrow> automaton lab a m n src = emit t src (Suc n)"
  by (subst automaton.simps) simp

lemma peek_Nil [simp]: "peek [] = NUL"
  by (simp add: peek_def)

lemma peek_Cons [simp]: "peek (c # cs) = c"
  by (simp add: peek_def)

lemma peek_more: "peek cs \<noteq> NUL \<Longrightarrow> \<exists>d ds. cs = d # ds"
  by (cases cs) simp_all

lemma dispatch_number:
  "dispatch L12 c = (if c = CHR ''0'' then L13 else if in_range 49 57 c then L15 else L5)"
  "dispatch L13 c = (if c = CHR ''.'' then L43 else if c = CHR ''E'' \<or> c = CHR ''e'' then L44 else L14)"
  "dispatch L15 c = (if c_isdigit c then L15 else if c = CHR ''.'' then L43
     else if c = CHR ''E'' \<or> c = CHR ''e'' then L44 else L14)"
  "dispatch L43 c = (if c_isdigit c then L49 else L32)"
  "dispatch L44 c = (if c = CHR ''+'' \<or> c = CHR ''-'' then L51 else if c_isdigit c then L52 else L32)"
  "dispatch L49 c = (if c_isdigit c then L49 else if c = CHR ''E'' \<or> c = CHR ''e'' then L44 else L14)"
  "dispatch L51 c = (if c_isdigit c then L52 else L32)"
  "dispatch L52 c = (if c_isdigit c then L52 else L14)"
  by (auto simp: dispatch.simps char_classes simp del: of_char_eq_iff)

lemma not_NUL [simp]: "c_isdigit NUL = False" "in_range 49 57 NUL = False" "NUL \<noteq> CHR ''E''" "NUL \<noteq> CHR ''e''"
  "NUL \<noteq> CHR ''.''" "NUL \<noteq> CHR ''+''" "NUL \<noteq> CHR ''-''" "NUL \<noteq> CHR ''0''"
  by (simp_all add: NUL_def c_isdigit_def in_range_def)

lemma auto_S52: "drop n src = d # cs \<Longrightarrow> automaton L52 a m n src = emit T_value_number src (num_S52 (d # cs) n)"
proof (induction cs arbitrary: d n)
  case Nil
  then show ?case by (simp add: auto_step dispatch_number)
next
  case (Cons e cs)
  then show ?case using Cons.IH [OF drop_next [OF Cons.prems]]
    by (simp add: auto_step [OF Cons.prems] dispatch_number)
qed

lemma auto_S51:
  assumes "drop n src = d # cs"
  shows "automaton L51 1 m n src = emit T_value_number src (num_S51 m (d # cs) n)"
  using auto_S52 [of "Suc n" src] drop_next [OF assms]
  by (cases cs) (simp_all add: auto_step [OF assms] dispatch_number num_S51_def)

lemma auto_S44:
  assumes "drop n src = d # cs"
  shows "automaton L44 1 m n src = emit T_value_number src (num_S44 m (d # cs) n)"
  using auto_S52 [of "Suc n" src] auto_S51 [of "Suc n" src] drop_next [OF assms]
  by (cases cs) (auto simp: auto_step [OF assms] dispatch_number num_S44_def Let_def)

lemma auto_S49: "drop n src = d # cs \<Longrightarrow> automaton L49 a m n src = emit T_value_number src (num_S49 (d # cs) n)"
proof (induction cs arbitrary: d n a m)
  case Nil
  then show ?case by (simp add: auto_step dispatch_number)
next
  case (Cons e cs)
  then show ?case using Cons.IH [OF drop_next [OF Cons.prems]] auto_S44 [OF drop_next [OF Cons.prems]]
    by (auto simp: auto_step [OF Cons.prems] dispatch_number)
qed

lemma auto_S43:
  assumes "drop n src = d # cs"
  shows "automaton L43 1 m n src = emit T_value_number src (num_S43 m (d # cs) n)"
  using auto_S49 [of "Suc n" src] drop_next [OF assms]
  by (cases cs) (simp_all add: auto_step [OF assms] dispatch_number num_S43_def)

lemma auto_S13:
  assumes "drop n src = d # cs"
  shows "automaton L13 a m n src = emit T_value_number src (num_S13 (d # cs) n)"
  using auto_S43 [of "Suc n" src] auto_S44 [of "Suc n" src] drop_next [OF assms]
  by (cases cs) (auto simp: auto_step [OF assms] dispatch_number num_S13_def Let_def)

lemma auto_S15: "drop n src = d # cs \<Longrightarrow> automaton L15 a m n src = emit T_value_number src (num_S15 (d # cs) n)"
proof (induction cs arbitrary: d n a m)
  case Nil
  then show ?case by (simp add: auto_step dispatch_number)
next
  case (Cons e cs)
  then show ?case
    using Cons.IH [OF drop_next [OF Cons.prems]] auto_S44 [OF drop_next [OF Cons.prems]]
      auto_S43 [OF drop_next [OF Cons.prems]]
    by (auto simp: auto_step [OF Cons.prems] dispatch_number)
qed

lemma auto_S12:
  assumes "drop 0 src = d # cs"
  shows "automaton L12 a m 0 src =
    (case num_S12 (d # cs) of None \<Rightarrow> emit T_parse_error src 1 | Some k \<Rightarrow> emit T_value_number src k)"
  using auto_S13 [of "Suc 0" src] auto_S15 [of "Suc 0" src] drop_next [OF assms]
  by (cases cs) (auto simp: auto_step [OF assms] dispatch_number num_S12_def Let_def)

text \<open>The labels in a string are the states of \<open>str_next\<close>.\<close>

primrec label_of :: "str_state \<Rightarrow> label" where
  "label_of S30 = L30"
| "label_of S35 = L35"
| "label_of S36 = L36"
| "label_of S37 = L37"
| "label_of S38 = L38"
| "label_of S39 = L39"
| "label_of S40 = L40"
| "label_of S41 = L41"
| "label_of S42 = L42"
| "label_of S48 = L48"
| "label_of S57 = L57"
| "label_of S63 = L63"
| "label_of S66 = L66"

definition label_after :: "str_action \<Rightarrow> label" where
  "label_after act = (case act of Goto st \<Rightarrow> label_of st | Accept \<Rightarrow> L33 | Reject \<Rightarrow> L32)"

lemma form_of_string: "form_of (label_of st) = Step None 1"
  by (cases st) simp_all

lemma dispatch_L31: "dispatch L31 c = label_after (str_next_S31 c)"
  by (auto simp: dispatch.simps label_after_def str_next_S31_def char_classes simp del: of_char_eq_iff)

lemma dispatch_string: "st \<noteq> S30 \<Longrightarrow> dispatch (label_of st) c = label_after (str_next st c)"
  by (cases st; simp add: dispatch.simps label_after_def c_isxdigit_def char_classes del: of_char_eq_iff;
      auto simp del: of_char_eq_iff)

lemma auto_look: "automaton L31 a m n src = automaton (dispatch L31 (peek (drop n src))) a m n src"
  by (subst automaton.simps) simp

lemma auto_string_step:
  assumes "drop n src = d # cs"
  shows "automaton (label_of st) a m n src = automaton (label_after (str_next st (peek cs))) a m (Suc n) src"
proof (cases "st = S30")
  case True
  have "automaton (label_of st) a m n src = automaton L31 a m (Suc n) src"
    by (simp add: True auto_step [OF assms] dispatch.simps)
  also have "\<dots> = automaton (label_after (str_next st (peek cs))) a m (Suc n) src"
    by (subst auto_look) (simp add: drop_next [OF assms] dispatch_L31 True)
  finally show ?thesis .
next
  case False
  then show ?thesis by (simp add: auto_step [OF assms form_of_string] dispatch_string)
qed

lemma auto_string:
  "drop n src = d # cs \<Longrightarrow> automaton (label_of st) 0 m n src =
     (case str_scan st cs of
        None \<Rightarrow> emit T_parse_error src m
      | Some (content, rest) \<Rightarrow> emit T_value_string src (n + length content + 2))"
proof (induction cs arbitrary: d n st)
  case Nil
  show ?case by (simp add: auto_string_step [OF Nil.prems] str_next_NUL label_after_def)
next
  case (Cons e cs)
  show ?case
  proof (cases "str_next st e")
    case (Goto st')
    then show ?thesis using Cons.IH [OF drop_next [OF Cons.prems]]
      by (simp add: auto_string_step [OF Cons.prems] label_after_def split: option.split)
  qed (simp_all add: auto_string_step [OF Cons.prems] label_after_def auto_finish)
qed

lemma dispatch_L9: "dispatch L9 c = L31 \<or> dispatch L9 c = L5 \<and> str_next_S31 c = Reject"
  by (auto simp: dispatch.simps str_next_S31_def char_classes simp del: of_char_eq_iff)

lemma auto_S9:
  assumes "drop 0 src = d # cs"
  shows "automaton L9 a m 0 src =
     (case str_scan S30 cs of
        None \<Rightarrow> emit T_parse_error src 1
      | Some (content, rest) \<Rightarrow> emit T_value_string src (length content + 2))"
proof -
  have step: "automaton L9 a m 0 src = automaton (dispatch L9 (peek cs)) 0 1 1 src"
    using auto_step [OF assms, of L9 "Some 0" 0] by simp
  show ?thesis
  proof (cases "dispatch L9 (peek cs) = L31")
    case True
    have "automaton L31 0 1 1 src = automaton (label_of S30) 0 1 0 src"
      by (simp add: auto_step [OF assms, of L30 None 1] dispatch.simps)
    then show ?thesis using step True auto_string [OF assms, of S30 1] by (simp split: option.split)
  next
    case False
    then have "dispatch L9 (peek cs) = L5" "str_next_S31 (peek cs) = Reject"
      using dispatch_L9 [of "peek cs"] by auto
    then show ?thesis using step by (cases cs) simp_all
  qed
qed

section \<open>Literals and single characters\<close>

lemma dispatch_literal:
  "dispatch L23 c = (if c = CHR ''a'' then L45 else L5)" "dispatch L45 c = (if c = CHR ''l'' then L54 else L32)"
  "dispatch L54 c = (if c = CHR ''s'' then L58 else L32)" "dispatch L58 c = (if c = CHR ''e'' then L64 else L32)"
  "dispatch L24 c = (if c = CHR ''u'' then L46 else L5)" "dispatch L46 c = (if c = CHR ''l'' then L55 else L32)"
  "dispatch L55 c = (if c = CHR ''l'' then L59 else L32)"
  "dispatch L25 c = (if c = CHR ''r'' then L47 else L5)" "dispatch L47 c = (if c = CHR ''u'' then L56 else L32)"
  "dispatch L56 c = (if c = CHR ''e'' then L61 else L32)"
  by (simp_all add: dispatch.simps)

lemma peek_eq: "c \<noteq> NUL \<Longrightarrow> peek s = c \<longleftrightarrow> (\<exists>t. s = c # t)"
  by (cases s) auto

lemma auto_letter:
  assumes "drop n src = d # cs" "form_of lab = Step None 0" "\<And>c. dispatch lab c = (if c = x then next else L32)"
  shows "automaton lab 0 m n src = (if peek cs = x then automaton next 0 m (Suc n) src else emit T_parse_error src m)"
  by (simp add: auto_step [OF assms(1,2)] assms(3))

lemma starts_with_more: "starts_with (x # w) s \<longleftrightarrow> (\<exists>t. s = x # t \<and> starts_with w t)"
  by (cases s) auto

lemma auto_literals:
  assumes "drop 0 src = d # cs"
  shows "d = CHR ''f'' \<Longrightarrow> automaton L23 a m 0 src = scan_literal ''false'' T_literal_false src"
    "d = CHR ''n'' \<Longrightarrow> automaton L24 a m 0 src = scan_literal ''null'' T_literal_null src"
    "d = CHR ''t'' \<Longrightarrow> automaton L25 a m 0 src = scan_literal ''true'' T_literal_true src"
proof -
  have src: "src = d # cs" using assms by simp
  note letter = peek_eq [of "CHR ''a''"] peek_eq [of "CHR ''l''"] peek_eq [of "CHR ''s''"] peek_eq [of "CHR ''e''"]
    peek_eq [of "CHR ''u''"] peek_eq [of "CHR ''r''"]
  show "automaton L23 a m 0 src = scan_literal ''false'' T_literal_false src" if "d = CHR ''f''"
    using that by (auto simp: src scan_literal_def auto_step dispatch_literal letter NUL_def auto_finish
        starts_with_more)
  show "automaton L24 a m 0 src = scan_literal ''null'' T_literal_null src" if "d = CHR ''n''"
    using that by (auto simp: src scan_literal_def auto_step dispatch_literal letter NUL_def auto_finish
        starts_with_more)
  show "automaton L25 a m 0 src = scan_literal ''true'' T_literal_true src" if "d = CHR ''t''"
    using that by (auto simp: src scan_literal_def auto_step dispatch_literal letter NUL_def auto_finish
        starts_with_more)
qed

lemma dispatch_L0:
  "dispatch L0 c =
     (if json_ws c then L6 else if c = NUL then L2 else if c = CHR 0x22 then L9 else if c = CHR '','' then L10
      else if c = CHR ''-'' then L12 else if c = CHR ''0'' then L13 else if in_range 49 57 c then L15
      else if c = CHR '':'' then L17 else if c = CHR ''['' then L19 else if c = CHR '']'' then L21
      else if c = CHR ''f'' then L23 else if c = CHR ''n'' then L24 else if c = CHR ''t'' then L25
      else if c = CHR ''{'' then L26 else if c = CHR ''}'' then L28 else L4)"
  by (auto simp: dispatch.simps char_classes simp del: of_char_eq_iff)

lemma auto_restart:
  "automaton L0 a m n src = automaton (dispatch L0 (peek (drop n src))) 0 0 0 (drop n src)"
  by (subst automaton.simps) simp

lemma dispatch_L6: "dispatch L6 c = (if json_ws c then L6 else L0)"
  by (simp add: dispatch.simps)

lemma auto_token:
  assumes "\<not> json_ws (peek s)"
  shows "automaton (dispatch L0 (peek s)) 0 0 0 s = scan_token s"
proof (cases s)
  case Nil
  then show ?thesis using assms by (simp add: dispatch_L0 scan_token_def auto_finish)
next
  case (Cons d cs)
  then have s: "drop 0 s = d # cs" by simp
  have num: "automaton L13 0 0 0 s = emit T_value_number s (num_S13 s 0)"
    "automaton L15 0 0 0 s = emit T_value_number s (num_S15 s 0)"
    "automaton L12 0 0 0 s = (case num_S12 s of None \<Rightarrow> emit T_parse_error s 1 | Some k \<Rightarrow> emit T_value_number s k)"
    unfolding Cons by (rule auto_S13 auto_S15 auto_S12, simp)+
  have str: "automaton L9 0 0 0 s = (case str_scan S30 (tl s) of
        None \<Rightarrow> emit T_parse_error s 1
      | Some (content, rest) \<Rightarrow> emit T_value_string s (length content + 2))"
    unfolding auto_S9 [OF s] by (simp add: Cons)
  have lit: "peek s = CHR ''f'' \<Longrightarrow> automaton L23 0 0 0 s = scan_literal ''false'' T_literal_false s"
    "peek s = CHR ''n'' \<Longrightarrow> automaton L24 0 0 0 s = scan_literal ''null'' T_literal_null s"
    "peek s = CHR ''t'' \<Longrightarrow> automaton L25 0 0 0 s = scan_literal ''true'' T_literal_true s"
    using auto_literals [OF s] by (simp_all add: Cons)
  show ?thesis
    using assms lit by (simp add: dispatch_L0 scan_token_def Let_def num str auto_finish)
qed

lemma auto_space:
  "drop n src = d # cs \<Longrightarrow> automaton L6 a m n src = scan_token (dropWhile json_ws cs)"
proof (induction cs arbitrary: d n)
  case Nil
  have "automaton L6 a m n src = automaton L0 a m (Suc n) src"
    by (simp add: auto_step [OF Nil] dispatch_L6 json_ws_def NUL_def)
  also have "\<dots> = scan_token []"
    unfolding auto_restart drop_next [OF Nil] by (rule auto_token) (simp add: json_ws_def NUL_def)
  finally show ?case by simp
next
  case (Cons e cs)
  show ?case
  proof (cases "json_ws e")
    case True
    then show ?thesis using Cons.IH [OF drop_next [OF Cons.prems]]
      by (simp add: auto_step [OF Cons.prems] dispatch_L6)
  next
    case False
    then have "automaton L6 a m n src = automaton L0 a m (Suc n) src"
      by (simp add: auto_step [OF Cons.prems] dispatch_L6)
    also have "\<dots> = scan_token (e # cs)"
      unfolding auto_restart drop_next [OF Cons.prems] by (rule auto_token) (simp add: False)
    finally show ?thesis using False by simp
  qed
qed

theorem automaton_scans: "automaton L0 a m 0 src = scan_token (dropWhile json_ws src)"
proof (cases src)
  case Nil
  have "\<not> json_ws (peek [])" by (simp add: json_ws_def NUL_def)
  from auto_token [OF this] show ?thesis by (simp add: auto_restart Nil)
next
  case (Cons d cs)
  show ?thesis
  proof (cases "json_ws d")
    case True
    have "automaton L0 a m 0 src = automaton L6 0 0 0 src"
      by (simp add: auto_restart Cons dispatch_L0 True)
    also have "\<dots> = scan_token (dropWhile json_ws cs)" by (rule auto_space) (simp add: Cons)
    finally show ?thesis using True Cons by simp
  next
    case False
    then show ?thesis using auto_token [of src] by (simp add: auto_restart Cons)
  qed
qed

end
