(* ===== verification/JsonScan.thy ===== *)
theory JsonScan
  imports JsonStream JsonAutomaton
begin

text \<open>
  \<open>include/json.h\<close>, \<open>lexer::scan\<close> with the pointers \<open>m_start\<close>, \<open>m_marker\<close>, \<open>m_cursor\<close> and \<open>m_limit\<close> into the
  line buffer and the places where the buffer is filled. The code is shown to be the automaton: no read
  leaves the buffer, no assertion fails, and filling the buffer in the middle of a token loses nothing.
\<close>

section \<open>The code with its pointers\<close>

text \<open>
  \<open>m_cursor\<close> is within the buffer when it is read, or the result is \<open>None\<close>, as it is when an assertion of
  \<open>fill_line_buffer\<close> fails or the fuel is used up.
\<close>

definition refill :: "nat \<Rightarrow> line_lexer \<Rightarrow> line_lexer option" where
  "refill n l =
     (if ll_limit l - ll_cursor l < n
      then if fill_asserts l then Some (fill_line_buffer n l) else None
      else Some l)"

definition read_char :: "line_lexer \<Rightarrow> char option" where
  "read_char l = (if ll_cursor l < length (ll_content l) then Some (ll_content l ! ll_cursor l) else None)"

definition advance :: "line_lexer \<Rightarrow> line_lexer" where
  "advance l = l\<lparr>ll_cursor := Suc (ll_cursor l)\<rparr>"

fun scan_code :: "nat \<Rightarrow> label \<Rightarrow> nat \<Rightarrow> line_lexer \<Rightarrow> (token_type \<times> line_lexer) option" where
  "scan_code 0 lab yyaccept l = None"
| "scan_code (Suc k) lab yyaccept l =
     (case form_of lab of
        Restart \<Rightarrow>
          Option.bind (refill 5 (l\<lparr>ll_marker := None, ll_start := ll_cursor l\<rparr>)) (\<lambda>l.
          Option.bind (read_char l) (\<lambda>yych. scan_code k (dispatch lab yych) 0 l))
      | Step mark n \<Rightarrow>
          (let l = advance l;
               l = (if mark = None then l else l\<lparr>ll_marker := Some (int (ll_cursor l))\<rparr>);
               yyaccept = (case mark of None \<Rightarrow> yyaccept | Some a \<Rightarrow> a)
           in Option.bind (refill n l) (\<lambda>l.
              Option.bind (read_char l) (\<lambda>yych. scan_code k (dispatch lab yych) yyaccept l)))
      | Look \<Rightarrow> Option.bind (read_char l) (\<lambda>yych. scan_code k (dispatch lab yych) yyaccept l)
      | Back \<Rightarrow>
          (case ll_marker l of
             None \<Rightarrow> None
           | Some m \<Rightarrow> if m < 0 then None
               else scan_code k (if yyaccept = 0 then L5 else L14) yyaccept (l\<lparr>ll_cursor := nat m\<rparr>))
      | Finish t \<Rightarrow> Some (t, advance l)
      | Stop t \<Rightarrow> Some (t, l))"

text \<open>\<open>scan\<close>: eight steps for every character to come are enough, as will be shown.\<close>

definition buffer_scan :: "line_lexer \<Rightarrow> (token_type \<times> line_lexer) option" where
  "buffer_scan l = scan_code (8 * (ll_limit l - ll_cursor l + length (coming_to l)) + 8) L0 0 l"

section \<open>The code is the automaton\<close>

text \<open>
  A buffer between two steps; the text from the beginning of the token on; and a text behind which a NUL
  character and padding may have been put, once the end was reached.
\<close>

definition buffer_ok :: "line_lexer \<Rightarrow> bool" where
  "buffer_ok l \<longleftrightarrow> fill_asserts l \<and> ll_limit l = length (ll_content l)
     \<and> (case ll_stream l of None \<Rightarrow> True | Some s \<Rightarrow> stream_ok s \<and> ll_content l = ll_line_buffer l)"

definition upcoming :: "line_lexer \<Rightarrow> string" where
  "upcoming l = drop (ll_start l) (ll_content l) @ coming_to l"

definition padded :: "string \<Rightarrow> string \<Rightarrow> bool" where
  "padded src txt \<longleftrightarrow> txt = src \<or> (\<exists>p. txt = src @ NUL # p)"

text \<open>No token goes on behind a line end or the padding; a buffer that was filled ends with one of these.\<close>

definition ends :: "char set" where
  "ends = {newline, NUL, CHR 0x01}"

definition closed :: "line_lexer \<Rightarrow> bool" where
  "closed l \<longleftrightarrow> ll_content l \<noteq> [] \<and> List.last (ll_content l) \<in> ends"

lemma padded_more: "padded src txt \<Longrightarrow> padded src (txt @ NUL # p)"
  by (auto simp: padded_def)

lemma padded_nth: "padded src txt \<Longrightarrow> n < length txt \<Longrightarrow> n \<le> length src \<Longrightarrow> txt ! n = peek (drop n src)"
  by (auto simp: padded_def peek_drop nth_append)

lemma padded_length: "padded src txt \<Longrightarrow> length src \<le> length txt"
  by (auto simp: padded_def)

lemma padded_drop: "padded src txt \<Longrightarrow> n \<le> length src \<Longrightarrow> padded (drop n src) (drop n txt)"
  by (auto simp: padded_def)

lemma padded_take: "padded src txt \<Longrightarrow> n \<le> length src \<Longrightarrow> take n txt = take n src"
  by (auto simp: padded_def)

lemma fill_more:
  assumes "buffer_ok l" "\<not> at_end l"
  shows "buffer_ok (fill_line_buffer k l)" "upcoming (fill_line_buffer k l) = upcoming l"
    "closed (fill_line_buffer k l)" "ll_start (fill_line_buffer k l) = 0"
    "ll_cursor (fill_line_buffer k l) = ll_cursor l - ll_start l"
    "ll_marker (fill_line_buffer k l) = Some (case ll_marker l of None \<Rightarrow> 0 | Some m \<Rightarrow> m - int (ll_start l))"
    "ll_cursor (fill_line_buffer k l) < ll_limit (fill_line_buffer k l)"
proof -
  obtain s where s: "ll_stream l = Some s" "\<not> is_eof s" using assms(2) by (auto simp: at_end_def split: option.splits)
  obtain line s' where g: "getline s = (line, s')" by (cases "getline s")
  have ok: "stream_ok s" "ll_content l = ll_line_buffer l" "ll_limit l = length (ll_content l)" "fill_asserts l"
    using assms(1) s(1) by (simp_all add: buffer_ok_def)
  have c: "coming s = line @ [newline] @ coming s'" "stream_ok s'"
    using getline_coming [OF ok(1) s(2) g] by simp_all
  have f: "fill_line_buffer k l = \<lparr>ll_stream = Some s', ll_line_buffer = drop (ll_start l) (ll_content l) @ line @ [newline],
      ll_content = drop (ll_start l) (ll_content l) @ line @ [newline], ll_start = 0,
      ll_marker = Some (case ll_marker l of None \<Rightarrow> 0 | Some m \<Rightarrow> m - int (ll_start l)),
      ll_cursor = ll_cursor l - ll_start l, ll_limit = length (drop (ll_start l) (ll_content l) @ line @ [newline])\<rparr>"
    using s g ok(2) by (simp add: fill_line_buffer_def Let_def)
  show "buffer_ok (fill_line_buffer k l)"
    using ok c(2) by (auto simp: f buffer_ok_def fill_asserts_def split: option.splits)
  show "upcoming (fill_line_buffer k l) = upcoming l" using s(1) c(1) by (simp add: f upcoming_def coming_to_def)
  show "ll_cursor (fill_line_buffer k l) < ll_limit (fill_line_buffer k l)"
    using ok by (auto simp: f fill_asserts_def)
  show "closed (fill_line_buffer k l)" "ll_start (fill_line_buffer k l) = 0"
    "ll_cursor (fill_line_buffer k l) = ll_cursor l - ll_start l"
    "ll_marker (fill_line_buffer k l) = Some (case ll_marker l of None \<Rightarrow> 0 | Some m \<Rightarrow> m - int (ll_start l))"
    by (simp_all add: f closed_def ends_def)
qed

lemma fill_last:
  assumes "buffer_ok l" "at_end l" "0 < k"
  shows "buffer_ok (fill_line_buffer k l)"
    "upcoming (fill_line_buffer k l) = upcoming l @ NUL # replicate (k - 1) (CHR 0x01)"
    "closed (fill_line_buffer k l)" "ll_start (fill_line_buffer k l) = 0"
    "ll_cursor (fill_line_buffer k l) = ll_cursor l - ll_start l"
    "ll_marker (fill_line_buffer k l) = Some (case ll_marker l of None \<Rightarrow> 0 | Some m \<Rightarrow> m - int (ll_start l))"
    "ll_cursor (fill_line_buffer k l) < ll_limit (fill_line_buffer k l)"
proof -
  let ?c = "drop (ll_start l) (ll_content l) @ NUL # replicate (k - 1) (CHR 0x01)"
  have ok: "ll_limit l = length (ll_content l)" "fill_asserts l" using assms(1) by (simp_all add: buffer_ok_def)
  have f: "fill_line_buffer k l = \<lparr>ll_stream = ll_stream l, ll_line_buffer = ?c, ll_content = ?c, ll_start = 0,
      ll_marker = Some (case ll_marker l of None \<Rightarrow> 0 | Some m \<Rightarrow> m - int (ll_start l)),
      ll_cursor = ll_cursor l - ll_start l, ll_limit = length ?c\<rparr>"
    using assms(2,3) ok(1) by (cases "ll_stream l") (simp_all add: fill_line_buffer_def at_end_def)
  show "buffer_ok (fill_line_buffer k l)"
    using assms(1) ok by (auto simp: f buffer_ok_def fill_asserts_def split: option.splits)
  show "upcoming (fill_line_buffer k l) = upcoming l @ NUL # replicate (k - 1) (CHR 0x01)"
    using assms(2) by (cases "ll_stream l") (simp_all add: f upcoming_def coming_to_def at_end_def coming_def)
  show "ll_cursor (fill_line_buffer k l) < ll_limit (fill_line_buffer k l)"
    using ok by (auto simp: f fill_asserts_def)
  have "List.last ?c \<in> ends" by (cases "k - 1") (simp_all add: ends_def)
  then show "closed (fill_line_buffer k l)" by (simp add: f closed_def)
qed (use assms in \<open>cases "ll_stream l"; simp add: fill_line_buffer_def at_end_def\<close>)+

text \<open>
  The buffer during the scan: the cursor is \<open>n\<close> characters behind the beginning of the token, and there are
  \<open>k\<close> characters at the cursor, or the buffer ends with the end of a line or with padding.
\<close>

definition at_position :: "nat \<Rightarrow> nat \<Rightarrow> string \<Rightarrow> line_lexer \<Rightarrow> bool" where
  "at_position k n src l \<longleftrightarrow> buffer_ok l \<and> padded src (upcoming l) \<and> ll_cursor l = ll_start l + n \<and> n \<le> length src
     \<and> ll_cursor l < ll_limit l \<and> (k \<le> ll_limit l - ll_cursor l \<or> closed l)"

text \<open>The position of the marker.\<close>

definition marker_at :: "nat \<Rightarrow> line_lexer \<Rightarrow> bool" where
  "marker_at m l \<longleftrightarrow> ll_marker l = Some (int (ll_start l) + int m)"

lemma buffer_ok_cursor: "buffer_ok l \<Longrightarrow> ll_start l \<le> c \<Longrightarrow> c \<le> ll_limit l \<Longrightarrow> buffer_ok (l\<lparr>ll_cursor := c\<rparr>)"
  by (auto simp: buffer_ok_def fill_asserts_def split: option.splits)

lemma buffer_ok_marker: "buffer_ok l \<Longrightarrow> m \<le> int (ll_limit l) \<Longrightarrow> buffer_ok (l\<lparr>ll_marker := Some m\<rparr>)"
  by (auto simp: buffer_ok_def fill_asserts_def split: option.splits)

lemma buffer_ok_restart: "buffer_ok l \<Longrightarrow> buffer_ok (l\<lparr>ll_marker := None, ll_start := ll_cursor l\<rparr>)"
  by (auto simp: buffer_ok_def fill_asserts_def split: option.splits)

lemma refill_ok:
  assumes "buffer_ok l" "padded src (upcoming l)" "ll_cursor l = ll_start l + n" "n \<le> length src" "0 < k"
  shows "\<exists>l'. refill k l = Some l' \<and> at_position k n src l' \<and> (\<forall>m. marker_at m l \<longrightarrow> marker_at m l')"
proof (cases "ll_limit l - ll_cursor l < k")
  case False
  then show ?thesis using assms by (auto simp: refill_def at_position_def)
next
  case True
  let ?l = "fill_line_buffer k l"
  have r: "refill k l = Some ?l" using True assms(1) by (simp add: refill_def buffer_ok_def)
  have "at_position k n src ?l \<and> (\<forall>m. marker_at m l \<longrightarrow> marker_at m ?l)"
  proof (cases "at_end l")
    case True
    show ?thesis
      using fill_last [OF assms(1) True assms(5)] assms padded_more [OF assms(2)]
      by (auto simp: at_position_def marker_at_def)
  next
    case False
    show ?thesis
      using fill_more [OF assms(1) False] assms by (auto simp: at_position_def marker_at_def)
  qed
  with r show ?thesis by blast
qed

lemma read_ok:
  assumes "at_position k n src l"
  shows "read_char l = Some (peek (drop n src))"
proof -
  have c: "ll_cursor l < length (ll_content l)" "ll_cursor l = ll_start l + n" "padded src (upcoming l)" "n \<le> length src"
    using assms by (auto simp: at_position_def buffer_ok_def)
  then have "n < length (ll_content l) - ll_start l" by simp
  then have "upcoming l ! n = ll_content l ! ll_cursor l" using c(2) by (simp add: upcoming_def nth_append)
  moreover have "upcoming l ! n = peek (drop n src)"
    by (rule padded_nth [OF c(3)]) (use c in \<open>simp_all add: upcoming_def\<close>)
  ultimately show ?thesis using c(1) by (simp add: read_char_def)
qed

text \<open>Without filling: the next character is there, if enough were, or the one at the cursor does not end the buffer.\<close>

lemma advance_ok:
  assumes "at_position k n src l" "n < length src" "2 \<le> k" "src ! n \<notin> ends"
  shows "at_position (k - 1) (Suc n) src (advance l)"
proof -
  have a: "buffer_ok l" "padded src (upcoming l)" "ll_cursor l = ll_start l + n" "ll_cursor l < ll_limit l"
    "k \<le> ll_limit l - ll_cursor l \<or> closed l" "ll_limit l = length (ll_content l)"
    using assms(1) by (auto simp: at_position_def buffer_ok_def)
  have "Suc (ll_cursor l) < ll_limit l"
  proof (cases "k \<le> ll_limit l - ll_cursor l")
    case False
    then have "List.last (ll_content l) \<in> ends" "ll_content l \<noteq> []" using a(5) by (auto simp: closed_def)
    moreover have "ll_content l ! ll_cursor l = src ! n"
      using read_ok [OF assms(1)] assms(2) a(4,6) by (simp add: read_char_def peek_drop split: if_splits)
    moreover have "List.last (ll_content l) = ll_content l ! ll_cursor l" if "length (ll_content l) = Suc (ll_cursor l)"
      using that by (subst last_conv_nth) auto
    ultimately have "length (ll_content l) \<noteq> Suc (ll_cursor l)" using assms(4) by auto
    with a(4,6) show ?thesis by simp
  qed (use assms(3) in simp)
  moreover have "buffer_ok (advance l)"
    unfolding advance_def by (rule buffer_ok_cursor [OF a(1)]) (use a calculation in simp_all)
  ultimately show ?thesis using a assms(2,3)
    by (auto simp: at_position_def advance_def upcoming_def coming_to_def closed_def)
qed

section \<open>What a label relies on\<close>

text \<open>
  How many characters, that at the cursor included, the code at a label and behind it reads without looking
  at the limit; and the labels from which the marker can be needed.
\<close>

fun need :: "label \<Rightarrow> nat" where
  "need L12 = 5"
| "need L23 = 5"
| "need L13 = 4"
| "need L24 = 4"
| "need L25 = 4"
| "need L45 = 4"
| "need L44 = 3"
| "need L46 = 3"
| "need L47 = 3"
| "need L54 = 3"
| "need lab = 2"

definition marked :: "label \<Rightarrow> bool" where
  "marked lab \<longleftrightarrow> lab \<in> {L30, L31, L32, L35, L36, L37, L38, L39, L40, L41, L42, L43, L44, L45, L46, L47, L48, L51,
     L54, L55, L56, L57, L58, L63, L66}"

lemma need_two: "2 \<le> need lab"
  by (cases lab) simp_all

lemmas dispatch_all = dispatch_L0 dispatch_L6 dispatch_L31 dispatch_number dispatch_literal

lemma jump_more: "form_of (dispatch lab NUL) \<noteq> Step mark k"
  by (cases lab; simp add: dispatch.simps NUL_def json_ws_def c_isdigit_def plain_char_def in_range_def)

lemma jump_finish: "(case form_of lab of Finish t \<Rightarrow> False | _ \<Rightarrow> True) \<Longrightarrow> form_of (dispatch lab NUL) = Finish t \<Longrightarrow> t = T_end_of_input"
  by (cases lab; simp add: dispatch.simps NUL_def json_ws_def c_isdigit_def plain_char_def in_range_def)

lemma jump_end:
  "form_of (dispatch lab newline) \<noteq> Step mark 0" "form_of (dispatch lab (CHR 0x01)) \<noteq> Step mark 0"
  by (cases lab; simp add: dispatch.simps json_ws_def c_isdigit_def plain_char_def in_range_def)+

lemma jump_free: "c \<in> ends \<Longrightarrow> form_of (dispatch lab c) \<noteq> Step mark 0"
  using jump_end [of lab] jump_more [of lab] by (auto simp: ends_def)

lemma jump_need_step: "form_of lab = Step mark k \<Longrightarrow> form_of (dispatch lab c) = Step mark' 0 \<Longrightarrow>
    need (dispatch lab c) \<le> (if k = 0 then need lab - 1 else k)"
  by (cases lab; simp add: dispatch.simps split: if_splits)

lemma jump_need_restart: "form_of lab = Restart \<Longrightarrow> form_of (dispatch lab c) = Step mark' 0 \<Longrightarrow> need (dispatch lab c) \<le> 5"
  by (cases lab; simp add: dispatch_L0 split: if_splits)

lemma jump_look: "form_of lab = Look \<Longrightarrow> form_of (dispatch lab c) \<noteq> Step mark' 0"
  by (cases lab; simp add: dispatch.simps split: if_splits)

lemma jump_marked: "form_of lab = Step None k \<or> form_of lab = Look \<Longrightarrow> marked (dispatch lab c) \<Longrightarrow> marked lab"
  by (cases lab; simp add: dispatch.simps marked_def split: if_splits)

lemma jump_restart_marked: "form_of lab = Restart \<Longrightarrow> \<not> marked (dispatch lab c)"
  by (cases lab; simp add: dispatch_L0 marked_def)

lemma back_marked: "form_of lab = Back \<Longrightarrow> marked lab"
  by (cases lab; simp add: marked_def)

section \<open>The simulation\<close>

text \<open>What holds when a label is reached after the character at the cursor was read.\<close>

definition ready :: "label \<Rightarrow> nat \<Rightarrow> nat \<Rightarrow> string \<Rightarrow> line_lexer \<Rightarrow> bool" where
  "ready lab m n src l \<longleftrightarrow> (marked lab \<longrightarrow> marker_at m l \<and> m \<le> n)
     \<and> (\<exists>k. at_position k n src l
          \<and> (case form_of lab of
               Step mark i \<Rightarrow> n < length src \<and> (i = 0 \<longrightarrow> need lab \<le> k \<and> src ! n \<notin> ends)
             | Finish t \<Rightarrow> t = T_end_of_input \<or> n < length src
             | _ \<Rightarrow> True))"

lemma ready_jump:
  assumes "at_position k n src l" "form_of lab = Restart \<or> form_of lab = Look \<or> (\<exists>mark i. form_of lab = Step mark i)"
    and "marked (dispatch lab (peek (drop n src))) \<Longrightarrow> marker_at m l \<and> m \<le> n"
    and "\<And>mark. form_of (dispatch lab (peek (drop n src))) = Step mark 0 \<Longrightarrow> need (dispatch lab (peek (drop n src))) \<le> k"
  shows "ready (dispatch lab (peek (drop n src))) m n src l"
proof -
  let ?lab = "dispatch lab (peek (drop n src))"
  have more: "n < length src" if "form_of ?lab = Step mark i" for mark i
    using that jump_more [of lab mark i] assms(1) by (cases "n < length src") (auto simp: peek_drop)
  have free: "src ! n \<notin> ends" if "form_of ?lab = Step mark 0" for mark
    using that jump_free [of "peek (drop n src)" lab mark] more [OF that] by (auto simp: peek_drop)
  have fin: "t = T_end_of_input \<or> n < length src" if "form_of ?lab = Finish t" for t
    using that jump_finish [of lab t] assms(2) by (cases "n < length src") (auto simp: peek_drop)
  show ?thesis
    unfolding ready_def using assms(1,3,4) more free fin
    by (auto split: form.split intro!: exI [of _ k])
qed

text \<open>A token: its type, its text, and what is left of the text.\<close>

definition scanned :: "lexer \<Rightarrow> token_type \<Rightarrow> line_lexer \<Rightarrow> bool" where
  "scanned lx t l \<longleftrightarrow> last_token lx = t \<and> buffer_ok l
     \<and> (t \<noteq> T_end_of_input \<longrightarrow>
          take (ll_cursor l - ll_start l) (drop (ll_start l) (ll_content l)) = token_text lx
          \<and> padded (rest_text lx) (drop (ll_cursor l) (ll_content l) @ coming_to l))"

lemma scanned_emit:
  assumes "buffer_ok l" "padded src (upcoming l)" "ll_cursor l = ll_start l + n" "t = T_end_of_input \<or> n \<le> length src"
  shows "scanned (emit t src n) t l"
proof (cases "t = T_end_of_input")
  case False
  then have n: "n \<le> length src" using assms(4) by simp
  have len: "ll_start l + n \<le> length (ll_content l)" using assms(1,3) by (auto simp: buffer_ok_def fill_asserts_def)
  then have "take n (drop (ll_start l) (ll_content l)) = take n (upcoming l)" by (simp add: upcoming_def)
  moreover have "drop (ll_cursor l) (ll_content l) @ coming_to l = drop n (upcoming l)"
    using len assms(3) by (simp add: upcoming_def add.commute)
  ultimately show ?thesis
    using assms(1,3) padded_take [OF assms(2) n] padded_drop [OF assms(2) n]
    by (simp add: scanned_def emit_def)
qed (use assms in \<open>simp add: scanned_def emit_def\<close>)

lemma at_position_less: "at_position k n src l \<Longrightarrow> k' \<le> k \<Longrightarrow> at_position k' n src l"
  by (auto simp: at_position_def)

lemma at_position_marker:
  "at_position k n src l \<Longrightarrow> m \<le> int (ll_limit l) \<Longrightarrow> at_position k n src (l\<lparr>ll_marker := Some m\<rparr>)"
  by (auto simp: at_position_def upcoming_def coming_to_def closed_def buffer_ok_marker)

lemma step_ok:
  assumes "ready lab m n src l" "form_of lab = Step mark i"
  defines "l1 \<equiv> (if mark = None then advance l else (advance l)\<lparr>ll_marker := Some (int (ll_cursor (advance l)))\<rparr>)"
  shows "\<exists>l'. refill i l1 = Some l' \<and> at_position (if i = 0 then need lab - 1 else i) (Suc n) src l'
    \<and> (if mark = None then \<forall>m. marker_at m l \<longrightarrow> marker_at m l' else marker_at (Suc n) l')"
proof -
  obtain k where k: "at_position k n src l" "n < length src" "i = 0 \<Longrightarrow> need lab \<le> k \<and> src ! n \<notin> ends"
    using assms(1,2) by (auto simp: ready_def)
  then have a: "buffer_ok l" "padded src (upcoming l)" "ll_cursor l = ll_start l + n" "ll_cursor l < ll_limit l"
    by (auto simp: at_position_def)
  have mark1: "if mark = None then \<forall>m. marker_at m l \<longrightarrow> marker_at m l1 else marker_at (Suc n) l1"
    using a(3) by (simp add: l1_def marker_at_def advance_def)
  show ?thesis
  proof (cases "i = 0")
    case True
    have "at_position (need lab - 1) (Suc n) src (advance l)"
      using k(3) [OF True] need_two [of lab]
      by (intro advance_ok [OF at_position_less [OF k(1)] k(2)]) auto
    moreover from this have "int (ll_cursor (advance l)) \<le> int (ll_limit (advance l))" by (simp add: at_position_def)
    ultimately have "at_position (need lab - 1) (Suc n) src l1" by (simp add: l1_def at_position_marker)
    then show ?thesis using True mark1 by (simp add: refill_def)
  next
    case False
    have b: "buffer_ok (advance l)" unfolding advance_def by (rule buffer_ok_cursor) (use a in simp_all)
    moreover have "int (ll_cursor (advance l)) \<le> int (ll_limit (advance l))" using a(4) by (simp add: advance_def)
    ultimately have "buffer_ok l1" by (simp add: l1_def buffer_ok_marker)
    moreover have "upcoming l1 = upcoming l" "ll_cursor l1 = ll_start l1 + Suc n"
      using a(3) by (simp_all add: l1_def upcoming_def coming_to_def advance_def)
    ultimately obtain l' where "refill i l1 = Some l'" "at_position i (Suc n) src l'" "\<forall>m. marker_at m l1 \<longrightarrow> marker_at m l'"
      using refill_ok [of l1 src "Suc n" i] a(2) k(2) False by auto
    then show ?thesis using False mark1 by (auto split: if_splits)
  qed
qed

lemma restart_ok:
  assumes "buffer_ok l" "padded src (drop (ll_cursor l) (ll_content l) @ coming_to l)"
  shows "\<exists>l'. refill 5 (l\<lparr>ll_marker := None, ll_start := ll_cursor l\<rparr>) = Some l' \<and> at_position 5 0 src l'"
  using refill_ok [OF buffer_ok_restart [OF assms(1)], of src 0 5] assms(2)
  by (auto simp: upcoming_def coming_to_def)

lemma rest_padded:
  "at_position k n src l \<Longrightarrow> padded (drop n src) (drop (ll_cursor l) (ll_content l) @ coming_to l)"
  using padded_drop [of src "upcoming l" n]
  by (auto simp: at_position_def upcoming_def add.commute buffer_ok_def)

lemma simulates:
  "ready lab m n src l \<Longrightarrow> togo lab n src < k \<Longrightarrow>
   \<exists>t l'. scan_code k lab a l = Some (t, l') \<and> scanned (automaton lab a m n src) t l'"
proof (induction k arbitrary: lab a m n src l)
  case (Suc k)
  obtain i where at: "at_position i n src l" using Suc.prems(1) by (auto simp: ready_def)
  show ?case
  proof (cases "form_of lab")
    case Restart
    obtain l' where l': "refill 5 (l\<lparr>ll_marker := None, ll_start := ll_cursor l\<rparr>) = Some l'"
        "at_position 5 0 (drop n src) l'"
      using restart_ok [OF _ rest_padded [OF at]] at by (auto simp: at_position_def)
    let ?lab = "dispatch lab (peek (drop n src))"
    have "ready ?lab 0 0 (drop n src) l'"
      using ready_jump [OF l'(2), of lab 0] Restart jump_restart_marked [OF Restart] jump_need_restart [OF Restart]
      by simp
    moreover have "togo ?lab 0 (drop n src) < k" using togo_start [OF Restart, of n src] Suc.prems(2) by simp
    ultimately show ?thesis
      using Suc.IH [of ?lab 0 0 "drop n src" l' 0] l'(1) read_ok [OF l'(2)] Restart
      by (subst automaton.simps) simp
  next
    case (Step mark j)
    let ?l = "if mark = None then advance l else (advance l)\<lparr>ll_marker := Some (int (ll_cursor (advance l)))\<rparr>"
    let ?lab = "dispatch lab (peek (drop (Suc n) src))" and ?m = "if mark = None then m else Suc n"
      and ?a = "case mark of None \<Rightarrow> a | Some a \<Rightarrow> a"
    obtain l' where l': "refill j ?l = Some l'" "at_position (if j = 0 then need lab - 1 else j) (Suc n) src l'"
        "if mark = None then \<forall>m. marker_at m l \<longrightarrow> marker_at m l' else marker_at (Suc n) l'"
      using step_ok [OF Suc.prems(1) Step] by blast
    have "marker_at ?m l' \<and> ?m \<le> Suc n" if "marked ?lab"
      using that l'(3) jump_marked [of lab j] Step Suc.prems(1) by (auto simp: ready_def split: if_splits)
    then have "ready ?lab ?m (Suc n) src l'"
      using Step jump_need_step [OF Step] by (intro ready_jump [OF l'(2)]) auto
    moreover have "togo ?lab (Suc n) src < k" using togo_step [OF Step, of n src] Suc.prems(2) by simp
    ultimately obtain t l'' where "scan_code k ?lab ?a l' = Some (t, l'')" "scanned (automaton ?lab ?a ?m (Suc n) src) t l''"
      using Suc.IH by blast
    then show ?thesis
      using l'(1) read_ok [OF l'(2)] Step
      by (subst automaton.simps) (simp add: Let_def split: option.splits if_splits)
  next
    case Look
    let ?lab = "dispatch lab (peek (drop n src))"
    have "ready ?lab m n src l"
      using Look Suc.prems(1) jump_look [OF Look] jump_marked [of lab] by (intro ready_jump [OF at]) (auto simp: ready_def)
    moreover have "togo ?lab n src < k" using togo_look [OF Look, of n src] Suc.prems(2) by simp
    ultimately show ?thesis
      using Suc.IH [of ?lab m n src l a] read_ok [OF at] Look by (subst automaton.simps) simp
  next
    case Back
    let ?l = "l\<lparr>ll_cursor := nat (int (ll_start l) + int m)\<rparr>" and ?lab = "if a = 0 then L5 else L14"
    have m: "marker_at m l" "m \<le> n" using Suc.prems(1) back_marked [OF Back] by (auto simp: ready_def)
    have "at_position 0 m src ?l"
      using at m(2) by (auto simp: at_position_def upcoming_def coming_to_def nat_int_add intro: buffer_ok_cursor)
    then have "ready ?lab m m src ?l" by (auto simp: ready_def marked_def)
    moreover have "togo ?lab m src < togo lab n src" using togo_back [OF Back] by simp
    then have "togo ?lab m src < k" using Suc.prems(2) by linarith
    ultimately show ?thesis
      using Suc.IH [of ?lab m m src ?l a] m(1) Back by (subst automaton.simps) (simp add: marker_at_def)
  next
    case (Finish t)
    have fin: "t = T_end_of_input \<or> Suc n \<le> length src" using Suc.prems(1) Finish by (auto simp: ready_def)
    have "scanned (emit t src (Suc n)) t (advance l)"
      by (rule scanned_emit [OF _ _ _ fin])
        (use at in \<open>auto simp: at_position_def advance_def upcoming_def coming_to_def intro: buffer_ok_cursor\<close>)
    then show ?thesis using Finish by (subst automaton.simps) simp
  next
    case (Stop t)
    have "scanned (emit t src n) t l"
      by (rule scanned_emit) (use at in \<open>auto simp: at_position_def\<close>)
    then show ?thesis using Stop by (subst automaton.simps) simp
  qed
qed simp

section \<open>Scanning\<close>

lemma scan_restart:
  "refill 5 (l\<lparr>ll_marker := None, ll_start := ll_cursor l\<rparr>) = Some l' \<Longrightarrow> read_char l' = Some c \<Longrightarrow>
   scan_code (Suc k) L0 a l = scan_code k (dispatch L0 c) 0 l'"
  by simp

theorem buffer_scan_ok:
  assumes "buffer_ok l" "padded (rest_text lx) (drop (ll_cursor l) (ll_content l) @ coming_to l)"
  shows "\<exists>l'. buffer_scan l = Some (last_token (lex_scan lx), l') \<and> scanned (lex_scan lx) (last_token (lex_scan lx)) l'"
proof -
  let ?src = "rest_text lx" and ?k = "8 * (ll_limit l - ll_cursor l + length (coming_to l)) + 7"
  let ?lab = "dispatch L0 (peek (drop 0 ?src))"
  have start: "form_of L0 = Restart" by simp
  obtain l' where l': "refill 5 (l\<lparr>ll_marker := None, ll_start := ll_cursor l\<rparr>) = Some l'" "at_position 5 0 ?src l'"
    using restart_ok [OF assms] by blast
  have "ready ?lab 0 0 ?src l'"
    using ready_jump [OF l'(2), of L0 0] jump_restart_marked [OF start] jump_need_restart [OF start] by simp
  moreover have "length ?src \<le> ll_limit l - ll_cursor l + length (coming_to l)"
    using padded_length [OF assms(2)] assms(1) by (simp add: buffer_ok_def)
  then have "togo ?lab 0 ?src < ?k"
    using togo_start [OF start, of 0 ?src] by (simp add: togo_def [of L0] rank_def [of L0])
  ultimately obtain t l'' where "scan_code ?k ?lab 0 l' = Some (t, l'')" "scanned (automaton ?lab 0 0 0 ?src) t l''"
    using simulates by blast
  moreover have "automaton ?lab 0 0 0 ?src = lex_scan lx"
    using automaton_scans [of 0 0 ?src] auto_restart [of 0 0 0 ?src] by (simp add: lex_scan_def)
  moreover have "buffer_scan l = scan_code (Suc ?k) L0 0 l" unfolding buffer_scan_def by (rule arg_cong [where f = "\<lambda>k. scan_code k L0 0 l"]) simp
  ultimately have "buffer_scan l = Some (t, l'')" "scanned (lex_scan lx) t l''"
    by (simp_all only: scan_restart [OF l'(1) read_ok [OF l'(2)]])
  then show ?thesis by (auto simp: scanned_def)
qed

text \<open>
  The next \<open>n\<close> tokens with their texts, up to the end of the input: of the code with its buffer, and of the
  lexer.
\<close>

fun buffer_tokens :: "nat \<Rightarrow> line_lexer \<Rightarrow> (token_type \<times> string) list option" where
  "buffer_tokens 0 l = Some []"
| "buffer_tokens (Suc n) l =
     (case buffer_scan l of
        None \<Rightarrow> None
      | Some (t, l') \<Rightarrow>
          if t = T_end_of_input then Some [(t, [])]
          else map_option ((#) (t, take (ll_cursor l' - ll_start l') (drop (ll_start l') (ll_content l'))))
                 (buffer_tokens n l'))"

fun lexer_tokens :: "nat \<Rightarrow> lexer \<Rightarrow> (token_type \<times> string) list" where
  "lexer_tokens 0 lx = []"
| "lexer_tokens (Suc n) lx =
     (let lx = lex_scan lx in
      if last_token lx = T_end_of_input then [(last_token lx, [])]
      else (last_token lx, token_text lx) # lexer_tokens n lx)"

lemma tokens_ok:
  "buffer_ok l \<Longrightarrow> padded (rest_text lx) (drop (ll_cursor l) (ll_content l) @ coming_to l) \<Longrightarrow>
   buffer_tokens n l = Some (lexer_tokens n lx)"
proof (induction n arbitrary: l lx)
  case (Suc n)
  obtain l' where l': "buffer_scan l = Some (last_token (lex_scan lx), l')"
      "scanned (lex_scan lx) (last_token (lex_scan lx)) l'"
    using buffer_scan_ok [OF Suc.prems] by blast
  show ?case
  proof (cases "last_token (lex_scan lx) = T_end_of_input")
    case False
    then show ?thesis using l' Suc.IH [of l' "lex_scan lx"] by (simp add: scanned_def Let_def)
  qed (use l' in \<open>simp add: Let_def\<close>)
qed simp

lemma stream_lexer_position: "stream_lexer (stream_of src) = Inr l \<Longrightarrow> ll_start l = 0 \<and> ll_cursor l = 0"
  by (auto simp: stream_lexer_def stream_of_def fill_line_buffer_def Let_def split: prod.splits)

text \<open>
  Property C16: the generated code of the scanner, with its labels, its table and its pointers into a buffer
  that is filled line by line, reads the tokens that the lexer specifies, from a stream as from
  memory: it always ends with a token, no read leaves the buffer, no assertion fails, and
  the text of each token is found between \<open>m_start\<close> and \<open>m_cursor\<close>.
\<close>

theorem scan_refines:
  "buffer_tokens n (buffer_lexer src) = Some (lexer_tokens n (lexer_of src))
   \<and> (\<exists>l. stream_lexer (stream_of src) = Inr l
          \<and> buffer_tokens n l = Some (lexer_tokens n (lexer_of (blank_bom (src @ [newline])))))"
proof
  show "buffer_tokens n (buffer_lexer src) = Some (lexer_tokens n (lexer_of src))"
    by (rule tokens_ok)
      (simp_all add: buffer_lexer_def buffer_ok_def fill_asserts_def lexer_of_def padded_def coming_to_def)
  obtain l where l: "stream_lexer (stream_of src) = Inr l" using stream_lexer_Inr by blast
  note ok = stream_lexer_ok [OF l]
  have "buffer_ok l" using ok(1) by (auto simp: lexer_ok_def buffer_ok_def split: option.split)
  moreover have "padded (rest_text (lexer_of (blank_bom (src @ [newline])))) (drop (ll_cursor l) (ll_content l) @ coming_to l)"
    using ok stream_lexer_position [OF l] by (simp add: padded_def lexer_of_def window_def lexer_ok_def)
  ultimately show "\<exists>l. stream_lexer (stream_of src) = Inr l
      \<and> buffer_tokens n l = Some (lexer_tokens n (lexer_of (blank_bom (src @ [newline]))))"
    using l tokens_ok by blast
qed

end
