(* ===== verification/JsonBuffer.thy ===== *)
theory JsonBuffer
  imports JsonScan
begin

text \<open>
  \<open>include/json.h\<close>, the class \<open>parser\<close> over the lexer with its line buffer: each \<open>get_token\<close> runs the
  generated scanner on the pointers, which fills the buffer from the stream when it needs to, and
  strings and numbers are read between \<open>m_start\<close> and \<open>m_cursor\<close>. It is shown to be the parser over the
  text that \<open>JsonFilter\<close> has.
\<close>

section \<open>The parser and its lexer\<close>

record parser =
  ps_last_token :: token_type
  ps_lexer :: line_lexer

definition parser_new :: "line_lexer \<Rightarrow> parser" where
  "parser_new l = \<lparr>ps_last_token = T_uninitialized, ps_lexer = l\<rparr>"

text \<open>\<open>parser::get_token\<close>. \<open>None\<close> would be a failed assertion or a read outside of the buffer.\<close>

definition next_token :: "parser \<Rightarrow> parser res option" where
  "next_token p =
     (case buffer_scan (ps_lexer p) of
        None \<Rightarrow> None
      | Some (t, l) \<Rightarrow> Some (Inr \<lparr>ps_last_token = t, ps_lexer = l\<rparr>))"

text \<open>
  The last token with the characters from \<open>m_start\<close> to \<open>m_cursor\<close>, on which \<open>get_string\<close>, \<open>get_number\<close>,
  \<open>get_token_string\<close> and the messages of \<open>expect\<close> and \<open>unexpect\<close> work.
\<close>

definition token_of :: "parser \<Rightarrow> lexer" where
  "token_of p =
     (let l = ps_lexer p
      in \<lparr>last_token = ps_last_token p,
          token_text = take (ll_cursor l - ll_start l) (drop (ll_start l) (ll_content l)), rest_text = []\<rparr>)"

section \<open>Parsing\<close>

text \<open>The value is complete: the next token is read and then the callback is asked.\<close>

definition complete :: "parser \<Rightarrow> 'd json \<times> int \<times> 's \<Rightarrow> ('d json \<times> parser \<times> int \<times> 's) res option" where
  "complete p r = fuel_bind (next_token p) (\<lambda>p. finish p r)"

function buffer_parse :: "nat \<Rightarrow> 'd dbl_lib \<Rightarrow> ('s, 'd) callback option \<Rightarrow> bool \<Rightarrow> parser \<Rightarrow> int \<times> 's \<Rightarrow> ('d json \<times> parser \<times> int \<times> 's) res option"
  and buffer_members :: "nat \<Rightarrow> 'd dbl_lib \<Rightarrow> ('s, 'd) callback option \<Rightarrow> bool \<Rightarrow> 'd json \<Rightarrow> parser \<Rightarrow> int \<times> 's \<Rightarrow> ('d json \<times> parser \<times> int \<times> 's) res option"
  and buffer_elements :: "nat \<Rightarrow> 'd dbl_lib \<Rightarrow> ('s, 'd) callback option \<Rightarrow> bool \<Rightarrow> 'd json \<Rightarrow> parser \<Rightarrow> int \<times> 's \<Rightarrow> ('d json \<times> parser \<times> int \<times> 's) res option"
  where
  "buffer_parse 0 fl cb keep p q = None"
| "buffer_parse (Suc n) fl cb keep p q =
     (case ps_last_token p of
        T_begin_object \<Rightarrow>
          (case start_event cb keep Object_start (JObject []) q of (keep, result, q) \<Rightarrow>
           fuel_bind (next_token p) (\<lambda>p.
           if ps_last_token p = T_end_object then complete p (end_event cb keep Object_end result q)
           else fuel_bind (Some (unexpect T_value_separator (token_of p)))
                  (\<lambda>u. buffer_members n fl cb keep result p q)))
      | T_begin_array \<Rightarrow>
          (case start_event cb keep Array_start (JArray []) q of (keep, result, q) \<Rightarrow>
           fuel_bind (next_token p) (\<lambda>p.
           if ps_last_token p = T_end_array then complete p (end_event cb True Array_end result q)
           else fuel_bind (Some (unexpect T_value_separator (token_of p)))
                  (\<lambda>u. buffer_elements n fl cb keep result p q)))
      | T_literal_null \<Rightarrow> complete p (value_event cb keep JNull q)
      | T_value_string \<Rightarrow>
          fuel_bind (Some (get_string_token (token_of p))) (\<lambda>s. complete p (value_event cb keep (JString s) q))
      | T_literal_true \<Rightarrow> complete p (value_event cb keep (JBool True) q)
      | T_literal_false \<Rightarrow> complete p (value_event cb keep (JBool False) q)
      | T_value_number \<Rightarrow> complete p (value_event cb keep (get_number fl (token_of p)) q)
      | _ \<Rightarrow> fuel_bind (Some (unexpect (ps_last_token p) (token_of p)))
               (\<lambda>u. finish p (value_event cb keep JDiscarded q)))"
| "buffer_members 0 fl cb keep result p q = None"
| "buffer_members (Suc n) fl cb keep result p q =
     fuel_bind (if ps_last_token p = T_value_separator then next_token p else Some (Inr p)) (\<lambda>p.
     fuel_bind (Some (expect T_value_string (token_of p))) (\<lambda>u.
     fuel_bind (Some (get_string_token (token_of p))) (\<lambda>key.
     case key_event cb keep key q of (keep_tag, q) \<Rightarrow>
     fuel_bind (next_token p) (\<lambda>p.
     fuel_bind (Some (expect T_name_separator (token_of p))) (\<lambda>u.
     fuel_bind (next_token p) (\<lambda>p.
     fuel_bind (buffer_parse n fl cb keep p q) (\<lambda>(v, p, q).
     fuel_bind (Some (if keep \<and> keep_tag \<and> \<not> is_discarded v then json_put result key v else Inr result)) (\<lambda>result.
     if ps_last_token p = T_value_separator then buffer_members n fl cb keep result p q
     else fuel_bind (Some (expect T_end_object (token_of p))) (\<lambda>u.
            complete p (end_event cb keep Object_end result q))))))))))"
| "buffer_elements 0 fl cb keep result p q = None"
| "buffer_elements (Suc n) fl cb keep result p q =
     fuel_bind (if ps_last_token p = T_value_separator then next_token p else Some (Inr p)) (\<lambda>p.
     fuel_bind (buffer_parse n fl cb keep p q) (\<lambda>(v, p, q).
     fuel_bind (Some (if keep \<and> \<not> is_discarded v then json_push_back result v else Inr result)) (\<lambda>result.
     if ps_last_token p = T_value_separator then buffer_elements n fl cb keep result p q
     else fuel_bind (Some (expect T_end_array (token_of p))) (\<lambda>u.
            complete p (end_event cb keep Array_end result q)))))"
  by pat_completeness auto

termination buffer_parse
  by (relation "measure (case_sum fst (case_sum fst fst))") simp_all

declare buffer_parse.simps(2) [simp del] buffer_members.simps(2) [simp del] buffer_elements.simps(2) [simp del]

definition parser_parse :: "nat \<Rightarrow> 'd dbl_lib \<Rightarrow> ('s, 'd) callback option \<Rightarrow> parser \<Rightarrow> 's \<Rightarrow> ('d json \<times> int \<times> 's) res option" where
  "parser_parse n fl cb p s =
     fuel_bind (next_token p) (\<lambda>p.
     fuel_bind (buffer_parse n fl cb True p (0, s)) (\<lambda>(result, p, q).
     fuel_bind (Some (expect T_end_of_input (token_of p))) (\<lambda>u.
     Some (Inr (if is_discarded result then JNull else result, q)))))"

text \<open>\<open>parse\<close> of a stream, and of a text in memory through the same buffer.\<close>

definition parse_stream :: "nat \<Rightarrow> 'd dbl_lib \<Rightarrow> ('s, 'd) callback option \<Rightarrow> istream \<Rightarrow> 's \<Rightarrow> ('d json \<times> int \<times> 's) res option" where
  "parse_stream n fl cb i s =
     fuel_bind (Some (stream_lexer i)) (\<lambda>l. parser_parse n fl cb (parser_new l) s)"

definition parse_memory :: "nat \<Rightarrow> 'd dbl_lib \<Rightarrow> ('s, 'd) callback option \<Rightarrow> string \<Rightarrow> 's \<Rightarrow> ('d json \<times> int \<times> 's) res option" where
  "parse_memory n fl cb src s = parser_parse n fl cb (parser_new (buffer_lexer src)) s"

section \<open>The buffer and the text\<close>

text \<open>
  The lexer over the text and the parser over the buffer have read the same token. At the end of the
  input the text of the token may differ, and nobody asks for it.
\<close>

definition same_token :: "lexer \<Rightarrow> parser \<Rightarrow> bool" where
  "same_token lx p \<longleftrightarrow> scanned lx (ps_last_token p) (ps_lexer p)"

lemma same_token_last: "same_token lx p \<Longrightarrow> ps_last_token p = last_token lx"
  by (simp add: same_token_def scanned_def)

lemma same_token_text:
  "same_token lx p \<Longrightarrow> last_token lx \<noteq> T_end_of_input \<Longrightarrow> token_text (token_of p) = token_text lx"
  by (auto simp: same_token_def scanned_def token_of_def Let_def)

lemma token_of_last: "last_token (token_of p) = ps_last_token p"
  by (simp add: token_of_def Let_def)

lemma same_token_checks:
  assumes "same_token lx p"
  shows "expect t (token_of p) = expect t lx" "unexpect t (token_of p) = unexpect t lx"
  using same_token_text [OF assms] same_token_last [OF assms]
  by (auto simp: expect_def unexpect_def unexpected_name_def token_of_last)

lemma same_values:
  assumes "same_token lx p" "last_token lx \<noteq> T_end_of_input"
  shows "get_string_token (token_of p) = get_string_token lx" "get_number fl (token_of p) = get_number fl lx"
  using same_token_text [OF assms] by (simp_all add: get_string_token_def get_number_def)

lemma next_token_same:
  assumes "same_token lx p" "last_token lx \<noteq> T_end_of_input"
  shows "\<exists>p'. next_token p = Some (Inr p') \<and> same_token (get_token lx) p'"
proof -
  have "buffer_ok (ps_lexer p)"
    "padded (rest_text lx) (drop (ll_cursor (ps_lexer p)) (ll_content (ps_lexer p)) @ coming_to (ps_lexer p))"
    using assms by (auto simp: same_token_def scanned_def)
  from buffer_scan_ok [OF this] obtain l where "buffer_scan (ps_lexer p) = Some (last_token (lex_scan lx), l)"
    "scanned (lex_scan lx) (last_token (lex_scan lx)) l" by blast
  then show ?thesis by (simp add: next_token_def same_token_def get_token_def)
qed

lemma same_result_next:
  assumes "same_token lx p" "last_token lx \<noteq> T_end_of_input"
    and "\<And>p'. same_token (get_token lx) p' \<Longrightarrow> same_result same_token m (f p')"
  shows "same_result same_token m (fuel_bind (next_token p) f)"
  using next_token_same [OF assms(1,2)] assms(3) by auto

lemma same_result_complete:
  assumes "same_token lx p" "last_token lx \<noteq> T_end_of_input"
  shows "same_result same_token (finish (get_token lx) r) (complete p r)"
  unfolding complete_def using assms by (rule same_result_next) (rule same_result_finish)

lemma same_result_skip:
  assumes "same_token lx p"
    and "\<And>p'. same_token (if last_token lx = T_value_separator then get_token lx else lx) p' \<Longrightarrow>
           same_result same_token m (f p')"
  shows "same_result same_token m
    (fuel_bind (if ps_last_token p = T_value_separator then next_token p else Some (Inr p)) f)"
  using assms next_token_same [OF assms(1)] by (auto simp: same_token_last)

lemma expect_last: "expect t lx = Inr u \<Longrightarrow> last_token lx = t"
  by (simp add: expect_def split: if_splits)

lemma buffer_parse_same:
  fixes fl :: "'d dbl_lib" and q :: "int \<times> 's"
  assumes "same_token lx p"
  shows "same_result same_token (parse_filter n fl cb keep lx q) (buffer_parse n fl cb keep p q)
    \<and> same_result same_token (filter_members n fl cb keep r lx q) (buffer_members n fl cb keep r p q)
    \<and> same_result same_token (filter_elements n fl cb keep r lx q) (buffer_elements n fl cb keep r p q)"
  using assms
proof (induction n arbitrary: lx p r q keep)
  case 0
  show ?case by simp
next
  case (Suc n)
  have val: "same_result same_token (parse_filter n fl cb keep lx q) (buffer_parse n fl cb keep p q)"
    and mem: "same_result same_token (filter_members n fl cb keep r lx q) (buffer_members n fl cb keep r p q)"
    and elt: "same_result same_token (filter_elements n fl cb keep r lx q) (buffer_elements n fl cb keep r p q)"
    if "same_token lx p" for lx p r q keep
    using Suc.IH that by blast+
  have "same_result same_token (parse_filter (Suc n) fl cb keep lx q) (buffer_parse (Suc n) fl cb keep p q)"
    using Suc.prems same_token_last [OF Suc.prems]
    by (cases "last_token lx")
      (auto simp: parse_filter.simps(2) buffer_parse.simps(2) same_token_checks same_values Let_def split_beta same_token_last
        intro!: same_result_finish same_result_complete same_result_res same_result_if same_result_next mem elt)
  moreover have "same_result same_token (filter_members (Suc n) fl cb keep r lx q) (buffer_members (Suc n) fl cb keep r p q)"
    unfolding filter_members.simps(2) buffer_members.simps(2) Let_def split_beta
    by (rule same_result_skip [OF Suc.prems],
        intro same_result_res same_result_next same_result_bind same_result_if same_result_complete val)
      (auto simp: same_token_last same_token_checks same_values dest: expect_last intro!: mem same_result_complete)
  moreover have "same_result same_token (filter_elements (Suc n) fl cb keep r lx q) (buffer_elements (Suc n) fl cb keep r p q)"
    unfolding filter_elements.simps(2) buffer_elements.simps(2) Let_def split_beta
    by (rule same_result_skip [OF Suc.prems],
        intro same_result_res same_result_bind same_result_if same_result_complete val)
      (auto simp: same_token_last same_token_checks dest: expect_last intro!: elt same_result_complete)
  ultimately show ?case by blast
qed

lemma parser_parse_same:
  assumes "buffer_ok l" "padded src (drop (ll_cursor l) (ll_content l) @ coming_to l)" "ll_cursor l = ll_start l"
  shows "parser_parse n fl cb (parser_new l) s = parse_filter_fuel n fl cb src s"
proof -
  have "same_token (lexer_of src) (parser_new l)"
    using assms by (simp add: same_token_def scanned_def parser_new_def lexer_of_def)
  then obtain p where p: "next_token (parser_new l) = Some (Inr p)" "same_token (get_token (lexer_of src)) p"
    using next_token_same [of "lexer_of src" "parser_new l"] by (auto simp: lexer_of_def)
  have "same_result same_token (parse_filter n fl cb True (get_token (lexer_of src)) (0, s))
      (buffer_parse n fl cb True p (0, s))"
    using buffer_parse_same [OF p(2), of n fl cb True "(0, s)"] by blast
  then show ?thesis
    unfolding parser_parse_def parse_filter_fuel_def p(1) same_result_def
    by (auto simp: fuel_bind_def same_token_checks split: option.splits sum.splits prod.splits)
qed

lemma memory_parse_same: "parse_memory n fl cb src s = parse_filter_fuel n fl cb src s"
  unfolding parse_memory_def
  by (rule parser_parse_same) (simp_all add: buffer_lexer_def buffer_ok_def fill_asserts_def padded_def coming_to_def)

lemma stream_parse_fuel: "parse_stream n fl cb (stream_of src) s = parse_filter_fuel n fl cb (blank_bom (src @ [newline])) s"
proof -
  obtain l where l: "stream_lexer (stream_of src) = Inr l" using stream_lexer_Inr by blast
  note ok = stream_lexer_ok [OF l]
  have "buffer_ok l" using ok(1) by (auto simp: lexer_ok_def buffer_ok_def split: option.split)
  moreover have "padded (blank_bom (src @ [newline])) (drop (ll_cursor l) (ll_content l) @ coming_to l)"
    using ok stream_lexer_position [OF l] by (simp add: padded_def window_def lexer_ok_def)
  ultimately show ?thesis
    using stream_lexer_position [OF l] by (simp add: parse_stream_def l parser_parse_same)
qed

lemma bom_unexpected:
  assumes "take 3 src = utf8_bom"
  shows "json_parse_filter fl cb src s
    = Inl (Invalid_argument (''parse error - unexpected '' @ [CHR 0x27, CHR 0xEF, CHR 0x27]))"
proof -
  obtain rest where src: "src = CHR 0xEF # rest"
    using assms by (cases src) (auto simp: utf8_bom_def)
  have "get_token (lexer_of src) = \<lparr>last_token = T_parse_error, token_text = [CHR 0xEF], rest_text = rest\<rparr>"
    by (simp add: src get_token_def lex_scan_def lexer_of_def json_ws_def scan_token_def Let_def peek_def
        in_range_def emit_def NUL_def)
  then have "parse_filter_fuel (Suc n) fl cb src s
      = Some (Inl (Invalid_argument (''parse error - unexpected '' @ [CHR 0x27, CHR 0xEF, CHR 0x27])))" for n
    by (simp add: parse_filter_fuel_def parse_filter.simps(2) unexpect_def unexpected_name_def)
  from this [of "2 * length src + 2"] parse_filter_returns [of src "Suc (2 * length src + 2)" fl cb s]
  show ?thesis by simp
qed

section \<open>Properties\<close>

text \<open>
  Property C17: a text is parsed alike from a stream, whose lines are read into the buffer as the scanner
  asks for them, and from memory: no assertion fails, nothing is lost or read twice at the refillings,
  and the value, the exceptions with their messages and the calls of the callback are the same, those of
  the parser over the whole text. Only a byte-order mark makes a difference: a stream takes it for
  blanks, in memory it is an error.
\<close>

theorem stream_parse_same:
  assumes "2 * length src + 5 \<le> n"
  shows "parse_stream n fl cb (stream_of src) q =
      parse_memory n fl cb (if take 3 src = utf8_bom then ''   '' @ drop 3 src else src) q
    \<and> parse_memory n fl cb src q = Some (json_parse_filter fl cb src q)
    \<and> (take 3 src = utf8_bom \<longrightarrow> json_parse_filter fl cb src q
         = Inl (Invalid_argument (''parse error - unexpected '' @ [CHR 0x27, CHR 0xEF, CHR 0x27])))"
proof -
  let ?s = "if take 3 src = utf8_bom then ''   '' @ drop 3 src else src"
  have len: "length ?s = length src" using assms
    by (auto dest: arg_cong [of _ _ length] simp: utf8_bom_def)
  have "parse_stream n fl cb (stream_of src) q = Some (json_parse_filter fl cb (?s @ [newline]) q)"
    unfolding stream_parse_fuel blank_bom_newline by (rule parse_filter_returns) (use assms len in simp)
  then have "parse_stream n fl cb (stream_of src) q = Some (json_parse_filter fl cb ?s q)"
    by (simp only: parse_newline)
  moreover have mem: "parse_memory n fl cb t q = Some (json_parse_filter fl cb t q)" if "length t = length src" for t
    unfolding memory_parse_same by (rule parse_filter_returns) (use assms that in simp)
  ultimately show ?thesis
    by (intro conjI impI) (simp only: mem [OF len], rule mem [OF refl], rule bom_unexpected)
qed

theorem stream_parse_same_witness:
  "parse_stream 50 int_dbl (None :: (unit, int) callback option) (stream_of (utf8_bom @ ''[1,'' @ [newline] @ ''true]'')) ()
     = parse_memory 50 int_dbl None (''   [1,'' @ [newline] @ ''true]'') ()"
  using stream_parse_same [of "utf8_bom @ ''[1,'' @ [newline] @ ''true]''" 50 int_dbl "None :: (unit, int) callback option" "()"]
  by (simp add: utf8_bom_def)

end
