(* ===== verification/JsonPointer.thy ===== *)
theory JsonPointer
  imports JsonValue
begin

text \<open>
  \<open>include/json.h\<close>, \<open>json_pointer\<close>: the text of a pointer and its tokens, and the ways to follow it
  into a value. A C++ reference to a part of a value is modelled by what is done through it: a
  function \<open>k\<close> that gets the part and returns a result and the part afterwards; the access puts the
  new part back into its place.
\<close>

section \<open>Access to elements\<close>

type_synonym 'd access = "'d json \<Rightarrow> ('d json \<times> 'd json) res"

text \<open>Through a reference: reading, and writing (an assignment returns the value it has written).\<close>

definition reading :: "'d access" where
  "reading x = Inr (x, x)"

definition writing :: "'d json \<Rightarrow> 'd access" where
  "writing v x = Inr (v, v)"

definition put_back :: "('d json \<Rightarrow> 'd json) \<Rightarrow> ('d json \<times> 'd json) res \<Rightarrow> ('d json \<times> 'd json) res" where
  "put_back c r = res_bind r (\<lambda>(a, y). Inr (a, c y))"

text \<open>\<open>at(idx)\<close> and \<open>at(key)\<close>: with a range check.\<close>

definition out_of_range_index :: "nat \<Rightarrow> exn" where
  "out_of_range_index i = Out_of_range (''array index '' @ string_of_nat i @ '' is out of range'')"

definition out_of_range_key :: "string \<Rightarrow> exn" where
  "out_of_range_key key = Out_of_range (''key '' @ [CHR 0x27] @ key @ [CHR 0x27] @ '' not found'')"

definition at_index :: "nat \<Rightarrow> 'd access \<Rightarrow> 'd access" where
  "at_index i k j = (case j of
      JArray xs \<Rightarrow> if i < length xs then put_back (\<lambda>y. JArray (xs[i := y])) (k (xs ! i))
                   else Inl (out_of_range_index i)
    | _ \<Rightarrow> Inl (Domain_error (''cannot use at() with '' @ type_name j)))"

definition at_key :: "string \<Rightarrow> 'd access \<Rightarrow> 'd access" where
  "at_key key k j = (case j of
      JObject m \<Rightarrow> (case map_of m key of
          Some v \<Rightarrow> put_back (\<lambda>y. JObject (map_assign key y m)) (k v)
        | None \<Rightarrow> Inl (out_of_range_key key))
    | _ \<Rightarrow> Inl (Domain_error (''cannot use at() with '' @ type_name j)))"

text \<open>
  \<open>operator[](idx)\<close> and \<open>operator[](key)\<close> on a value that may change: null becomes an array or an
  object, missing elements are added with null. A vector has at most \<open>2 ^ 59 - 1\<close> elements of 16
  bytes; its exception is \<open>length_error\<close>.
\<close>

definition vector_max_size :: nat where
  "vector_max_size = 2 ^ 59 - 1"

definition index_array :: "nat \<Rightarrow> 'd access \<Rightarrow> 'd access" where
  "index_array i k j =
     (case (if is_null j then JArray [] else j) of
        JArray xs \<Rightarrow>
          if vector_max_size \<le> i then Inl (Foreign_exn ''vector::_M_fill_insert'')
          else let xs = xs @ replicate (i + 1 - length xs) JNull
               in put_back (\<lambda>y. JArray (xs[i := y])) (k (xs ! i))
      | _ \<Rightarrow> Inl (Domain_error (''cannot use operator[] with '' @ type_name j)))"

definition index_key :: "string \<Rightarrow> 'd access \<Rightarrow> 'd access" where
  "index_key key k j =
     res_bind (json_index j key) (\<lambda>(j', old).
       case j' of JObject m \<Rightarrow> put_back (\<lambda>y. JObject (map_assign key y m)) (k old)
       | _ \<Rightarrow> Inl (Foreign_exn ''unreachable''))"

text \<open>\<open>erase(idx)\<close>, and \<open>find\<close> with \<open>erase(it)\<close> for a member.\<close>

definition erase_index :: "nat \<Rightarrow> 'd json \<Rightarrow> 'd json res" where
  "erase_index i j = (case j of
      JArray xs \<Rightarrow> if i < length xs then Inr (JArray (take i xs @ drop (i + 1) xs))
                   else Inl (out_of_range_index i)
    | _ \<Rightarrow> Inl (Domain_error (''cannot use erase() with '' @ type_name j)))"

definition erase_key :: "string \<Rightarrow> 'd json \<Rightarrow> ('d json \<times> nat) res" where
  "erase_key key j = (case j of
      JObject m \<Rightarrow> Inr (JObject (filter (\<lambda>e. fst e \<noteq> key) m), if map_of m key = None then 0 else 1)
    | _ \<Rightarrow> Inl (Domain_error (''cannot use erase() with '' @ type_name j)))"

section \<open>The text of a pointer\<close>

text \<open>
  \<open>replace_substring\<close>: every occurrence, from the left, searching on behind the text put in. The
  search text is not empty.
\<close>

function replace_substring :: "string \<Rightarrow> string \<Rightarrow> string \<Rightarrow> string" where
  "replace_substring f t s =
     (if s = [] \<or> f = [] then s
      else if starts_with f s then t @ replace_substring f t (drop (length f) s)
      else hd s # replace_substring f t (tl s))"
  by pat_completeness auto
termination by (relation "measure (length \<circ> snd \<circ> snd)") auto

declare replace_substring.simps [simp del]

definition escape :: "string \<Rightarrow> string" where
  "escape s = replace_substring ''/'' ''~1'' (replace_substring ''~'' ''~0'' s)"

definition unescape_token :: "string \<Rightarrow> string" where
  "unescape_token s = replace_substring ''~0'' ''~'' (replace_substring ''~1'' ''/'' s)"

text \<open>Every tilde is followed by 0 or 1.\<close>

fun tildes_ok :: "string \<Rightarrow> bool" where
  "tildes_ok [] = True"
| "tildes_ok (c # cs) =
     ((c = CHR ''~'' \<longrightarrow> cs \<noteq> [] \<and> (hd cs = CHR ''0'' \<or> hd cs = CHR ''1'')) \<and> tildes_ok cs)"

text \<open>The loop of \<open>split\<close>: \<open>slash\<close> is the position of the next slash, \<open>None\<close> for \<open>npos\<close>.\<close>

function split_tokens :: "string \<Rightarrow> nat \<Rightarrow> (string list) res" where
  "split_tokens s start =
     (let slash = find_first_of s CHR ''/'' start;
          reference_token = (case slash of Some k \<Rightarrow> substr s start (k - start) | None \<Rightarrow> drop start s)
      in if \<not> tildes_ok reference_token
         then Inl (Domain_error (''escape error: '' @ [CHR 0x27] @ ''~'' @ [CHR 0x27]
                @ '' must be followed with '' @ [CHR 0x27] @ ''0'' @ [CHR 0x27] @ '' or ''
                @ [CHR 0x27] @ ''1'' @ [CHR 0x27]))
         else case slash of
           None \<Rightarrow> Inr [unescape_token reference_token]
         | Some k \<Rightarrow> res_bind (split_tokens s (k + 1)) (\<lambda>ts. Inr (unescape_token reference_token # ts)))"
  by pat_completeness auto
termination
  by (relation "measure (\<lambda>(s, start). length s - start)") (auto dest: find_first_of_bounds [OF sym])

definition pointer_split :: "string \<Rightarrow> (string list) res" where
  "pointer_split s =
     (if s = [] then Inr []
      else if hd s \<noteq> CHR ''/''
      then Inl (Domain_error (''JSON pointer must be empty or begin with '' @ [CHR 0x27] @ ''/'' @ [CHR 0x27]))
      else split_tokens s 1)"

definition pointer_to_string :: "string list \<Rightarrow> string" where
  "pointer_to_string ts = foldl (\<lambda>a b. a @ ''/'' @ escape b) [] ts"

section \<open>Following a pointer\<close>

text \<open>
  \<open>std::stoi\<close>: leading white space and whatever follows the digits is ignored. The cast to
  \<open>size_type\<close> makes a large number of a negative one.
\<close>

definition stoi :: "string \<Rightarrow> int res" where
  "stoi s =
     (let s = cstr s; (v, r) = strtol10 s
      in if r = s then Inl (Invalid_argument ''stoi'')
         else if v < - (2 ^ 31) \<or> 2 ^ 31 \<le> v then Inl (Out_of_range ''stoi'')
         else Inr v)"

definition to_size :: "int \<Rightarrow> nat" where
  "to_size i = unat (word_of_int i :: u64)"

text \<open>
  \<open>get_checked\<close>, which \<open>at(ptr)\<close> calls: an index must not begin with 0, and \<open>-\<close> is always out of
  range.
\<close>

definition leading_zero :: exn where
  "leading_zero = Domain_error (''array index must not begin with '' @ [CHR 0x27] @ ''0'' @ [CHR 0x27])"

definition unresolved :: "string \<Rightarrow> exn" where
  "unresolved t = Out_of_range (''unresolved reference token '' @ [CHR 0x27] @ t @ [CHR 0x27])"

primrec get_checked :: "string list \<Rightarrow> 'd access \<Rightarrow> 'd access" where
  "get_checked [] k j = k j"
| "get_checked (t # ts) k j =
     (case j of
        JObject m \<Rightarrow> at_key t (get_checked ts k) j
      | JArray xs \<Rightarrow>
          if t = ''-''
          then Inl (Out_of_range (''array index '' @ [CHR 0x27] @ ''-'' @ [CHR 0x27] @ '' ('' @
                 string_of_nat (length xs) @ '') is out of range''))
          else if 1 < length t \<and> hd t = CHR ''0'' then Inl leading_zero
          else res_bind (stoi t) (\<lambda>i. at_index (to_size i) (get_checked ts k) j)
      | _ \<Rightarrow> Inl (unresolved t))"

text \<open>
  \<open>get_unchecked\<close>, which \<open>operator[](ptr)\<close> calls: what is missing is created. Null becomes an array if
  all characters of the token are digits (also for the empty token), or for \<open>-\<close>, and an object
  otherwise.
\<close>

primrec get_unchecked :: "string list \<Rightarrow> 'd access \<Rightarrow> 'd access" where
  "get_unchecked [] k j = k j"
| "get_unchecked (t # ts) k j =
     (let j = (if is_null j then (if list_all c_isdigit t \<or> t = ''-'' then JArray [] else JObject []) else j)
      in case j of
        JObject m \<Rightarrow> index_key t (get_unchecked ts k) j
      | JArray xs \<Rightarrow>
          if 1 < length t \<and> hd t = CHR ''0'' then Inl leading_zero
          else if t = ''-'' then index_array (length xs) (get_unchecked ts k) j
          else res_bind (stoi t) (\<lambda>i. index_array (to_size i) (get_unchecked ts k) j)
      | _ \<Rightarrow> Inl (unresolved t))"

text \<open>\<open>get_and_create\<close>, for \<open>unflatten\<close>: null becomes an array for the token 0 and an object otherwise.\<close>

primrec get_and_create :: "string list \<Rightarrow> 'd access \<Rightarrow> 'd access" where
  "get_and_create [] k j = k j"
| "get_and_create (t # ts) k j =
     (case j of
        JNull \<Rightarrow> if t = ''0'' then index_array 0 (get_and_create ts k) j
                 else index_key t (get_and_create ts k) j
      | JObject m \<Rightarrow> index_key t (get_and_create ts k) j
      | JArray xs \<Rightarrow> res_bind (stoi t) (\<lambda>i. index_array (to_size i) (get_and_create ts k) j)
      | _ \<Rightarrow> Inl (Domain_error ''invalid value to unflatten''))"

text \<open>The accesses with the text of a pointer: \<open>at(ptr)\<close> and \<open>operator[](ptr)\<close>.\<close>

definition at_pointer :: "string \<Rightarrow> 'd access \<Rightarrow> 'd access" where
  "at_pointer s k j = res_bind (pointer_split s) (\<lambda>ts. get_checked ts k j)"

definition index_pointer :: "string \<Rightarrow> 'd access \<Rightarrow> 'd access" where
  "index_pointer s k j = res_bind (pointer_split s) (\<lambda>ts. get_unchecked ts k j)"

text \<open>
  \<open>value(ptr, default)\<close>: the default value where the pointer is out of range. Other exceptions are
  passed on.
\<close>

definition value_or :: "string \<Rightarrow> 'd json \<Rightarrow> 'd json \<Rightarrow> 'd json res" where
  "value_or s default_value j =
     res_bind (pointer_split s) (\<lambda>ts.
       if \<not> is_object j then Inl (Domain_error (''cannot use value() with '' @ type_name j))
       else case get_checked ts reading j of
         Inr (v, j') \<Rightarrow> Inr v
       | Inl (Out_of_range mes) \<Rightarrow> Inr default_value
       | Inl e \<Rightarrow> Inl e)"

section \<open>Lemmas on the text\<close>

lemma replace_Nil [simp]: "replace_substring f t [] = []"
  by (subst replace_substring.simps) simp

lemma replace_Cons:
  "f \<noteq> [] \<Longrightarrow> replace_substring f t (c # s) =
     (if starts_with f (c # s) then t @ replace_substring f t (drop (length f) (c # s))
      else c # replace_substring f t s)"
  by (subst replace_substring.simps) simp

text \<open>What the two passes of the escaping do to a character.\<close>

definition esc0 :: "char \<Rightarrow> string" where
  "esc0 c = (if c = CHR ''~'' then ''~0'' else [c])"

definition esc01 :: "char \<Rightarrow> string" where
  "esc01 c = (if c = CHR ''~'' then ''~0'' else if c = CHR ''/'' then ''~1'' else [c])"

lemma replace_tilde: "replace_substring ''~'' ''~0'' s = concat (map esc0 s)"
  by (induction s) (auto simp: replace_Cons esc0_def)

lemma escape_chars: "escape s = concat (map esc01 s)"
  unfolding escape_def replace_tilde
  by (induction s) (auto simp: replace_Cons esc0_def esc01_def)

lemma unescape_first: "replace_substring ''~1'' ''/'' (concat (map esc01 s)) = concat (map esc0 s)"
  by (induction s) (auto simp: replace_Cons esc0_def esc01_def)

lemma unescape_second: "replace_substring ''~0'' ''~'' (concat (map esc0 s)) = s"
  by (induction s) (auto simp: replace_Cons esc0_def)

lemma unescape_token_escape: "unescape_token (escape s) = s"
  by (simp add: unescape_token_def escape_chars unescape_first unescape_second)

lemma escape_no_slash: "CHR ''/'' \<notin> set (escape s)"
  by (auto simp: escape_chars esc01_def)

lemma escape_tildes_ok: "tildes_ok (escape s)"
  unfolding escape_chars by (induction s) (auto simp: esc01_def)

lemma escape_plain: "CHR ''~'' \<notin> set s \<Longrightarrow> CHR ''/'' \<notin> set s \<Longrightarrow> escape s = s"
  unfolding escape_chars by (induction s) (auto simp: esc01_def)

lemma pointer_to_string_snoc: "pointer_to_string (ts @ [t]) = pointer_to_string ts @ ''/'' @ escape t"
  by (simp add: pointer_to_string_def)

lemma foldl_append_start: "foldl (\<lambda>a b. a @ g b) s xs = s @ foldl (\<lambda>a b. a @ g b) [] xs"
proof (induction xs arbitrary: s)
  case (Cons x xs)
  show ?case using Cons.IH [of "s @ g x"] Cons.IH [of "g x"] by simp
qed simp

lemma pointer_to_string_Cons: "pointer_to_string (t # ts) = ''/'' @ escape t @ pointer_to_string ts"
  using foldl_append_start [of "\<lambda>b. ''/'' @ escape b" "''/'' @ escape t" ts]
  by (simp add: pointer_to_string_def)

lemma pointer_to_string_Nil [simp]: "pointer_to_string [] = []"
  by (simp add: pointer_to_string_def)

declare split_tokens.simps [simp del]

lemma split_tokens_to_string:
  "split_tokens (pre @ escape t @ pointer_to_string ts) (length pre) = Inr (t # ts)"
proof (induction ts arbitrary: pre t)
  case Nil
  have "find_first_of (pre @ escape t) CHR ''/'' (length pre) = None"
    by (simp add: find_first_of_None escape_no_slash)
  then show ?case
    by (subst split_tokens.simps) (simp add: escape_tildes_ok unescape_token_escape)
next
  case (Cons u ts)
  have "split_tokens ((pre @ escape t @ ''/'') @ escape u @ pointer_to_string ts) (length (pre @ escape t @ ''/''))
      = Inr (u # ts)" by (rule Cons.IH)
  moreover have "find_first_of (pre @ escape t @ CHR ''/'' # escape u @ pointer_to_string ts) CHR ''/'' (length pre)
      = Some (length pre + length (escape t))"
    by (rule find_first_of_at) (rule escape_no_slash)
  ultimately show ?case
    by (subst split_tokens.simps)
      (simp add: pointer_to_string_Cons escape_tildes_ok unescape_token_escape)
qed

lemma pointer_split_to_string: "pointer_split (pointer_to_string ts) = Inr ts"
proof (cases ts)
  case (Cons t us)
  have "split_tokens (''/'' @ escape t @ pointer_to_string us) (length ''/'') = Inr (t # us)"
    by (rule split_tokens_to_string)
  with Cons show ?thesis by (simp add: pointer_split_def pointer_to_string_Cons)
qed (simp add: pointer_split_def)

interpretation pointers: codec pointer_to_string
  "\<lambda>s. case pointer_split s of Inl e \<Rightarrow> None | Inr ts \<Rightarrow> Some ts" "\<lambda>ts. True"
  by unfold_locales (simp add: pointer_split_to_string)

end
