(* ===== verification/JsonIterator.thy ===== *)
theory JsonIterator
  imports JsonPointer
begin

text \<open>
  \<open>include/json.h\<close>, \<open>primitive_iterator_t\<close>, \<open>iter_impl\<close>, \<open>iteration_proxy\<close> and
  \<open>json_reverse_iterator\<close>: iterators over values, and the loops written with them. An iterator
  holds the address of the value it belongs to, so the operations read a store of values. A reference
  is a place in that store. The iterator of an array is the index of its element; that of an object
  is the node of the map, which the key names, so it stays with its member when others come and go.
\<close>

section \<open>Failures\<close>

text \<open>
  Besides exceptions: an assertion that fails, and a use of a standard iterator for which C++ defines
  no behaviour (an iterator without a container, a move beyond the ends, an erased node).
\<close>

datatype fault = Throws exn | Asserts | Undefined

type_synonym 'a ires = "fault + 'a"

type_synonym 'd cells = "nat \<Rightarrow> 'd json"

section \<open>Iterators of the standard containers\<close>

text \<open>A value-initialised map iterator, a node, and the end of the map.\<close>

datatype member_iter = No_map | At_member string | End_of_map

fun key_index :: "string \<Rightarrow> (string \<times> 'v) list \<Rightarrow> nat option" where
  "key_index key [] = None"
| "key_index key (e # m) = (if fst e = key then Some 0 else map_option Suc (key_index key m))"

definition member_index :: "(string \<times> 'v) list \<Rightarrow> member_iter \<Rightarrow> nat option" where
  "member_index m p = (case p of No_map \<Rightarrow> None | At_member k \<Rightarrow> key_index k m | End_of_map \<Rightarrow> Some (length m))"

definition member_at :: "(string \<times> 'v) list \<Rightarrow> nat \<Rightarrow> member_iter" where
  "member_at m i = (if i < length m then At_member (fst (m ! i)) else End_of_map)"

text \<open>An index within a container of \<open>len\<close> elements, moved by \<open>n\<close>.\<close>

definition move_index :: "nat \<Rightarrow> int \<Rightarrow> nat \<Rightarrow> nat ires" where
  "move_index len n i =
     (if 0 \<le> int i + n \<and> int i + n \<le> int len then Inr (nat (int i + n)) else Inl Undefined)"

text \<open>An index that the iterator must have.\<close>

definition defined :: "'a option \<Rightarrow> 'a ires" where
  "defined x = (case x of None \<Rightarrow> Inl Undefined | Some y \<Rightarrow> Inr y)"

section \<open>The iterator\<close>

text \<open>\<open>primitive_iterator_t\<close>: a number; \<open>denorm_min\<close> of an integer type is 0.\<close>

definition begin_value :: int where
  "begin_value = 0"

definition end_value :: int where
  "end_value = begin_value + 1"

definition prim_is_begin :: "int \<Rightarrow> bool" where
  "prim_is_begin p \<longleftrightarrow> p = begin_value"

definition prim_is_end :: "int \<Rightarrow> bool" where
  "prim_is_end p \<longleftrightarrow> p = end_value"

text \<open>The postfix operators: what they return, and the iterator after them.\<close>

definition prim_post_inc :: "int \<Rightarrow> int \<times> int" where
  "prim_post_inc p = (let p' = p + 1 in (p', p'))"

definition prim_post_dec :: "int \<Rightarrow> int \<times> int" where
  "prim_post_dec p = (let p' = p - 1 in (p', p'))"

text \<open>\<open>iter_impl\<close> with the fields of \<open>internal_iterator\<close>; \<open>None\<close> is the null pointer.\<close>

record iter =
  it_object :: "nat option"
  it_member :: member_iter
  it_element :: "nat option"
  it_prim :: int

definition iter_default :: iter where
  "iter_default = \<lparr>it_object = None, it_member = No_map, it_element = None, it_prim = 0\<rparr>"

text \<open>The constructor from a pointer, and the conversion to a constant iterator.\<close>

definition iter_of :: "nat \<Rightarrow> iter" where
  "iter_of a = iter_default\<lparr>it_object := Some a\<rparr>"

definition to_const_iterator :: "iter \<Rightarrow> iter" where
  "to_const_iterator it =
     (case it_object it of None \<Rightarrow> iter_default
      | Some a \<Rightarrow> iter_default\<lparr>it_object := Some a, it_member := it_member it,
                     it_element := it_element it, it_prim := it_prim it\<rparr>)"

text \<open>The value the iterator belongs to, with the assertion that there is one.\<close>

definition pointee :: "iter \<Rightarrow> nat ires" where
  "pointee it = (case it_object it of None \<Rightarrow> Inl Asserts | Some a \<Rightarrow> Inr a)"

definition iter_set_begin :: "'d cells \<Rightarrow> iter \<Rightarrow> iter ires" where
  "iter_set_begin st it = res_bind (pointee it) (\<lambda>a. Inr (case st a of
      JObject m \<Rightarrow> it\<lparr>it_member := member_at m 0\<rparr>
    | JArray xs \<Rightarrow> it\<lparr>it_element := Some 0\<rparr>
    | JNull \<Rightarrow> it\<lparr>it_prim := end_value\<rparr>
    | _ \<Rightarrow> it\<lparr>it_prim := begin_value\<rparr>))"

definition iter_set_end :: "'d cells \<Rightarrow> iter \<Rightarrow> iter ires" where
  "iter_set_end st it = res_bind (pointee it) (\<lambda>a. Inr (case st a of
      JObject m \<Rightarrow> it\<lparr>it_member := End_of_map\<rparr>
    | JArray xs \<Rightarrow> it\<lparr>it_element := Some (length xs)\<rparr>
    | _ \<Rightarrow> it\<lparr>it_prim := end_value\<rparr>))"

definition json_begin :: "'d cells \<Rightarrow> nat \<Rightarrow> iter ires" where
  "json_begin st a = iter_set_begin st (iter_of a)"

definition json_end :: "'d cells \<Rightarrow> nat \<Rightarrow> iter ires" where
  "json_end st a = iter_set_end st (iter_of a)"

section \<open>References\<close>

text \<open>The whole value, a member, an element.\<close>

datatype json_place = Whole nat | Member nat string | Element nat nat

definition place_read :: "'d cells \<Rightarrow> json_place \<Rightarrow> 'd json ires" where
  "place_read st p = (case p of
      Whole a \<Rightarrow> Inr (st a)
    | Member a key \<Rightarrow> (case st a of JObject m \<Rightarrow> defined (map_of m key) | _ \<Rightarrow> Inl Undefined)
    | Element a i \<Rightarrow> (case st a of
          JArray xs \<Rightarrow> if i < length xs then Inr (xs ! i) else Inl Undefined
        | _ \<Rightarrow> Inl Undefined))"

definition place_write :: "'d cells \<Rightarrow> json_place \<Rightarrow> 'd json \<Rightarrow> 'd cells" where
  "place_write st p v = (case p of
      Whole a \<Rightarrow> st(a := v)
    | Member a key \<Rightarrow> (case st a of JObject m \<Rightarrow> st(a := JObject (map_assign key v m)) | _ \<Rightarrow> st)
    | Element a i \<Rightarrow> (case st a of JArray xs \<Rightarrow> st(a := JArray (xs[i := v])) | _ \<Rightarrow> st))"

abbreviation cannot_get_value :: "'a ires" where
  "cannot_get_value \<equiv> Inl (Throws (Out_of_range ''cannot get value''))"

text \<open>The part of an object and of an array that \<open>operator*\<close> and \<open>operator->\<close> share.\<close>

definition member_place :: "nat \<Rightarrow> (string \<times> 'v) list \<Rightarrow> member_iter \<Rightarrow> json_place ires" where
  "member_place a m p = (case p of
      End_of_map \<Rightarrow> Inl Asserts
    | At_member k \<Rightarrow> if key_index k m = None then Inl Undefined else Inr (Member a k)
    | No_map \<Rightarrow> Inl Undefined)"

definition element_place :: "nat \<Rightarrow> nat \<Rightarrow> nat option \<Rightarrow> json_place ires" where
  "element_place a len p = (case p of
      None \<Rightarrow> Inl Undefined
    | Some i \<Rightarrow> if i = len then Inl Asserts else if i < len then Inr (Element a i) else Inl Undefined)"

definition iter_deref :: "'d cells \<Rightarrow> iter \<Rightarrow> json_place ires" where
  "iter_deref st it = res_bind (pointee it) (\<lambda>a. case st a of
      JObject m \<Rightarrow> member_place a m (it_member it)
    | JArray xs \<Rightarrow> element_place a (length xs) (it_element it)
    | JNull \<Rightarrow> cannot_get_value
    | _ \<Rightarrow> if prim_is_begin (it_prim it) then Inr (Whole a) else cannot_get_value)"

definition iter_arrow :: "'d cells \<Rightarrow> iter \<Rightarrow> json_place ires" where
  "iter_arrow st it = res_bind (pointee it) (\<lambda>a. case st a of
      JObject m \<Rightarrow> member_place a m (it_member it)
    | JArray xs \<Rightarrow> element_place a (length xs) (it_element it)
    | _ \<Rightarrow> if prim_is_begin (it_prim it) then Inr (Whole a) else cannot_get_value)"

definition iter_value :: "'d cells \<Rightarrow> iter \<Rightarrow> json_place ires" where
  "iter_value st it = iter_deref st it"

section \<open>Moving\<close>

text \<open>\<open>std::advance\<close> on the standard iterators.\<close>

definition advance_member :: "(string \<times> 'v) list \<Rightarrow> int \<Rightarrow> member_iter \<Rightarrow> member_iter ires" where
  "advance_member m n p =
     res_bind (defined (member_index m p)) (\<lambda>i.
     res_bind (move_index (length m) n i) (\<lambda>i'. Inr (member_at m i')))"

definition advance_element :: "nat \<Rightarrow> int \<Rightarrow> nat option \<Rightarrow> nat option ires" where
  "advance_element len n p =
     res_bind (defined p) (\<lambda>i. res_bind (move_index len n i) (\<lambda>i'. Inr (Some i')))"

definition iter_inc :: "'d cells \<Rightarrow> iter \<Rightarrow> iter ires" where
  "iter_inc st it = res_bind (pointee it) (\<lambda>a. case st a of
      JObject m \<Rightarrow> res_bind (advance_member m 1 (it_member it)) (\<lambda>p. Inr (it\<lparr>it_member := p\<rparr>))
    | JArray xs \<Rightarrow> res_bind (advance_element (length xs) 1 (it_element it)) (\<lambda>p. Inr (it\<lparr>it_element := p\<rparr>))
    | _ \<Rightarrow> Inr (it\<lparr>it_prim := it_prim it + 1\<rparr>))"

definition iter_dec :: "'d cells \<Rightarrow> iter \<Rightarrow> iter ires" where
  "iter_dec st it = res_bind (pointee it) (\<lambda>a. case st a of
      JObject m \<Rightarrow> res_bind (advance_member m (- 1) (it_member it)) (\<lambda>p. Inr (it\<lparr>it_member := p\<rparr>))
    | JArray xs \<Rightarrow> res_bind (advance_element (length xs) (- 1) (it_element it)) (\<lambda>p. Inr (it\<lparr>it_element := p\<rparr>))
    | _ \<Rightarrow> Inr (it\<lparr>it_prim := it_prim it - 1\<rparr>))"

text \<open>\<open>it++\<close> and \<open>it--\<close>: the iterator before the step, and the one after it.\<close>

definition iter_post_inc :: "'d cells \<Rightarrow> iter \<Rightarrow> (iter \<times> iter) ires" where
  "iter_post_inc st it = res_bind (iter_inc st it) (\<lambda>it'. Inr (it, it'))"

definition iter_post_dec :: "'d cells \<Rightarrow> iter \<Rightarrow> (iter \<times> iter) ires" where
  "iter_post_dec st it = res_bind (iter_dec st it) (\<lambda>it'. Inr (it, it'))"

definition iter_add :: "'d cells \<Rightarrow> iter \<Rightarrow> int \<Rightarrow> iter ires" where
  "iter_add st it n = res_bind (pointee it) (\<lambda>a. case st a of
      JObject m \<Rightarrow> Inl (Throws (Domain_error ''cannot use offsets with object iterators''))
    | JArray xs \<Rightarrow> res_bind (advance_element (length xs) n (it_element it)) (\<lambda>p. Inr (it\<lparr>it_element := p\<rparr>))
    | _ \<Rightarrow> Inr (it\<lparr>it_prim := it_prim it + n\<rparr>))"

definition iter_sub :: "'d cells \<Rightarrow> iter \<Rightarrow> int \<Rightarrow> iter ires" where
  "iter_sub st it n = iter_add st it (- n)"

text \<open>
  The difference: the containers are not compared, and pointers into different arrays have no
  difference.
\<close>

definition iter_diff :: "'d cells \<Rightarrow> iter \<Rightarrow> iter \<Rightarrow> int ires" where
  "iter_diff st it other = res_bind (pointee it) (\<lambda>a. case st a of
      JObject m \<Rightarrow> Inl (Throws (Domain_error ''cannot use offsets with object iterators''))
    | JArray xs \<Rightarrow>
        if it_object other \<noteq> Some a then Inl Undefined
        else res_bind (defined (it_element it)) (\<lambda>i.
             res_bind (defined (it_element other)) (\<lambda>k. Inr (int i - int k)))
    | _ \<Rightarrow> Inr (it_prim it - it_prim other))"

definition iter_index :: "'d cells \<Rightarrow> iter \<Rightarrow> int \<Rightarrow> json_place ires" where
  "iter_index st it n = res_bind (pointee it) (\<lambda>a. case st a of
      JObject m \<Rightarrow> Inl (Throws (Domain_error ''cannot use operator[] for object iterators''))
    | JArray xs \<Rightarrow> res_bind (advance_element (length xs) n (it_element it)) (\<lambda>p.
        case p of Some i \<Rightarrow> if i < length xs then Inr (Element a i) else Inl Undefined
        | None \<Rightarrow> Inl Undefined)
    | JNull \<Rightarrow> cannot_get_value
    | _ \<Rightarrow> if it_prim it = - n then Inr (Whole a) else cannot_get_value)"

definition iter_key :: "'d cells \<Rightarrow> iter \<Rightarrow> string ires" where
  "iter_key st it = res_bind (pointee it) (\<lambda>a. case st a of
      JObject m \<Rightarrow> (case it_member it of
          At_member k \<Rightarrow> if key_index k m = None then Inl Undefined else Inr k
        | _ \<Rightarrow> Inl Undefined)
    | _ \<Rightarrow> Inl (Throws (Domain_error ''cannot use key() for non-object iterators'')))"

section \<open>Comparison\<close>

definition iter_eq :: "'d cells \<Rightarrow> iter \<Rightarrow> iter \<Rightarrow> bool ires" where
  "iter_eq st it other =
     (if it_object it \<noteq> it_object other
      then Inl (Throws (Domain_error ''cannot compare iterators of different containers''))
      else res_bind (pointee it) (\<lambda>a. case st a of
          JObject m \<Rightarrow>
            if it_member it = No_map \<or> it_member other = No_map then Inl Undefined
            else Inr (it_member it = it_member other)
        | JArray xs \<Rightarrow>
            res_bind (defined (it_element it)) (\<lambda>i.
            res_bind (defined (it_element other)) (\<lambda>k. Inr (i = k)))
        | _ \<Rightarrow> Inr (it_prim it = it_prim other)))"

definition iter_ne :: "'d cells \<Rightarrow> iter \<Rightarrow> iter \<Rightarrow> bool ires" where
  "iter_ne st it other = res_bind (iter_eq st it other) (\<lambda>b. Inr (\<not> b))"

definition iter_lt :: "'d cells \<Rightarrow> iter \<Rightarrow> iter \<Rightarrow> bool ires" where
  "iter_lt st it other =
     (if it_object it \<noteq> it_object other
      then Inl (Throws (Domain_error ''cannot compare iterators of different containers''))
      else res_bind (pointee it) (\<lambda>a. case st a of
          JObject m \<Rightarrow> Inl (Throws (Domain_error ''cannot compare order of object iterators''))
        | JArray xs \<Rightarrow>
            res_bind (defined (it_element it)) (\<lambda>i.
            res_bind (defined (it_element other)) (\<lambda>k. Inr (i < k)))
        | _ \<Rightarrow> Inr (it_prim it < it_prim other)))"

definition iter_le :: "'d cells \<Rightarrow> iter \<Rightarrow> iter \<Rightarrow> bool ires" where
  "iter_le st it other = res_bind (iter_lt st other it) (\<lambda>b. Inr (\<not> b))"

definition iter_gt :: "'d cells \<Rightarrow> iter \<Rightarrow> iter \<Rightarrow> bool ires" where
  "iter_gt st it other = res_bind (iter_le st it other) (\<lambda>b. Inr (\<not> b))"

definition iter_ge :: "'d cells \<Rightarrow> iter \<Rightarrow> iter \<Rightarrow> bool ires" where
  "iter_ge st it other = res_bind (iter_lt st it other) (\<lambda>b. Inr (\<not> b))"

section \<open>Front, back, find\<close>

definition json_front :: "'d cells \<Rightarrow> nat \<Rightarrow> json_place ires" where
  "json_front st a = res_bind (json_begin st a) (iter_deref st)"

definition json_back :: "'d cells \<Rightarrow> nat \<Rightarrow> json_place ires" where
  "json_back st a =
     res_bind (json_end st a) (\<lambda>tmp. res_bind (iter_dec st tmp) (iter_deref st))"

definition json_find :: "'d cells \<Rightarrow> nat \<Rightarrow> string \<Rightarrow> iter ires" where
  "json_find st a key = res_bind (json_end st a) (\<lambda>result. Inr (case st a of
      JObject m \<Rightarrow> result\<lparr>it_member := (if key_index key m = None then End_of_map else At_member key)\<rparr>
    | _ \<Rightarrow> result))"

section \<open>Reverse iterators\<close>

text \<open>
  \<open>json_reverse_iterator\<close> is the \<open>std::reverse_iterator\<close> of a base iterator, which stands behind the
  element.
\<close>

definition json_rbegin :: "'d cells \<Rightarrow> nat \<Rightarrow> iter ires" where
  "json_rbegin st a = json_end st a"

definition json_rend :: "'d cells \<Rightarrow> nat \<Rightarrow> iter ires" where
  "json_rend st a = json_begin st a"

definition riter_inc :: "'d cells \<Rightarrow> iter \<Rightarrow> iter ires" where
  "riter_inc st r = iter_dec st r"

definition riter_dec :: "'d cells \<Rightarrow> iter \<Rightarrow> iter ires" where
  "riter_dec st r = iter_inc st r"

definition riter_add :: "'d cells \<Rightarrow> iter \<Rightarrow> int \<Rightarrow> iter ires" where
  "riter_add st r n = iter_sub st r n"

definition riter_sub :: "'d cells \<Rightarrow> iter \<Rightarrow> int \<Rightarrow> iter ires" where
  "riter_sub st r n = iter_add st r n"

definition riter_diff :: "'d cells \<Rightarrow> iter \<Rightarrow> iter \<Rightarrow> int ires" where
  "riter_diff st r other = iter_diff st r other"

definition riter_value :: "'d cells \<Rightarrow> iter \<Rightarrow> json_place ires" where
  "riter_value st r = res_bind (iter_dec st r) (iter_deref st)"

definition riter_key :: "'d cells \<Rightarrow> iter \<Rightarrow> string ires" where
  "riter_key st r = res_bind (iter_dec st r) (iter_key st)"

definition riter_index :: "'d cells \<Rightarrow> iter \<Rightarrow> int \<Rightarrow> json_place ires" where
  "riter_index st r n = res_bind (riter_add st r n) (riter_value st)"

section \<open>The iteration proxy\<close>

text \<open>\<open>iterator_wrapper\<close>: an iterator together with a count of the steps.\<close>

type_synonym proxy = "iter \<times> nat"

definition proxy_begin :: "'d cells \<Rightarrow> nat \<Rightarrow> proxy ires" where
  "proxy_begin st a = res_bind (json_begin st a) (\<lambda>it. Inr (it, 0))"

definition proxy_end :: "'d cells \<Rightarrow> nat \<Rightarrow> proxy ires" where
  "proxy_end st a = res_bind (json_end st a) (\<lambda>it. Inr (it, 0))"

definition proxy_inc :: "'d cells \<Rightarrow> proxy \<Rightarrow> proxy ires" where
  "proxy_inc st p = res_bind (iter_inc st (fst p)) (\<lambda>it. Inr (it, snd p + 1))"

definition proxy_ne :: "'d cells \<Rightarrow> proxy \<Rightarrow> proxy \<Rightarrow> bool ires" where
  "proxy_ne st p q = iter_ne st (fst p) (fst q)"

definition proxy_key :: "'d cells \<Rightarrow> proxy \<Rightarrow> string ires" where
  "proxy_key st p = res_bind (pointee (fst p)) (\<lambda>a. case st a of
      JArray xs \<Rightarrow> Inr (string_of_nat (snd p))
    | JObject m \<Rightarrow> iter_key st (fst p)
    | _ \<Rightarrow> Inr [])"

definition proxy_value :: "'d cells \<Rightarrow> proxy \<Rightarrow> json_place ires" where
  "proxy_value st p = iter_value st (fst p)"

section \<open>Loops\<close>

text \<open>
  \<open>for (it = first; it != last; ++it)\<close>, with what the body sees collected; \<open>None\<close> when the fuel ends.
\<close>

fun walk :: "nat \<Rightarrow> ('i \<Rightarrow> 'i \<Rightarrow> bool ires) \<Rightarrow> ('i \<Rightarrow> 'i ires) \<Rightarrow> ('i \<Rightarrow> 'a ires) \<Rightarrow> 'i \<Rightarrow> 'i \<Rightarrow> 'a list ires option" where
  "walk 0 ne step get stop it = None"
| "walk (Suc n) ne step get stop it =
     (case ne it stop of
        Inl f \<Rightarrow> Some (Inl f)
      | Inr False \<Rightarrow> Some (Inr [])
      | Inr True \<Rightarrow>
          (case get it of
             Inl f \<Rightarrow> Some (Inl f)
           | Inr x \<Rightarrow>
               (case step it of
                  Inl f \<Rightarrow> Some (Inl f)
                | Inr it' \<Rightarrow> map_option (\<lambda>r. res_bind r (\<lambda>xs. Inr (x # xs))) (walk n ne step get stop it'))))"

definition walk_between :: "nat \<Rightarrow> ('i \<Rightarrow> 'i \<Rightarrow> bool ires) \<Rightarrow> ('i \<Rightarrow> 'i ires) \<Rightarrow> ('i \<Rightarrow> 'a ires) \<Rightarrow> 'i ires \<Rightarrow> 'i ires \<Rightarrow> 'a list ires option" where
  "walk_between n ne step get start stop =
     (case start of Inl f \<Rightarrow> Some (Inl f)
      | Inr b \<Rightarrow> (case stop of Inl f \<Rightarrow> Some (Inl f) | Inr e \<Rightarrow> walk n ne step get e b))"

text \<open>\<open>for (auto& x : j)\<close>, the same backwards, and over \<open>iterator_wrapper(j)\<close>.\<close>

definition read_through :: "'d cells \<Rightarrow> ('i \<Rightarrow> json_place ires) \<Rightarrow> 'i \<Rightarrow> 'd json ires" where
  "read_through st deref it = res_bind (deref it) (place_read st)"

definition range_for :: "nat \<Rightarrow> 'd cells \<Rightarrow> nat \<Rightarrow> 'd json list ires option" where
  "range_for n st a =
     walk_between n (iter_ne st) (iter_inc st) (read_through st (iter_deref st)) (json_begin st a) (json_end st a)"

definition reverse_for :: "nat \<Rightarrow> 'd cells \<Rightarrow> nat \<Rightarrow> 'd json list ires option" where
  "reverse_for n st a =
     walk_between n (iter_ne st) (riter_inc st) (read_through st (riter_value st)) (json_rbegin st a) (json_rend st a)"

definition proxy_item :: "'d cells \<Rightarrow> proxy \<Rightarrow> (string \<times> 'd json) ires" where
  "proxy_item st p =
     res_bind (proxy_key st p) (\<lambda>k. res_bind (read_through st (proxy_value st) p) (\<lambda>v. Inr (k, v)))"

definition wrapper_for :: "nat \<Rightarrow> 'd cells \<Rightarrow> nat \<Rightarrow> (string \<times> 'd json) list ires option" where
  "wrapper_for n st a =
     walk_between n (proxy_ne st) (proxy_inc st) (proxy_item st) (proxy_begin st a) (proxy_end st a)"

text \<open>What a loop over the wrapper is meant to see.\<close>

definition json_items :: "'d json \<Rightarrow> (string \<times> 'd json) list" where
  "json_items j = (case j of
      JNull \<Rightarrow> []
    | JArray xs \<Rightarrow> zip (map string_of_nat [0..<length xs]) xs
    | JObject m \<Rightarrow> m
    | _ \<Rightarrow> [([], j)])"

section \<open>Cursors\<close>

text \<open>
  What a loop relies on: the positions of a sequence, one step apart, with the comparison telling the
  end from the others.
\<close>

locale cursor =
  fixes ok :: "'s \<Rightarrow> bool"
    and pos :: "'s \<Rightarrow> nat \<Rightarrow> 'i"
    and stop :: "'s \<Rightarrow> 'i"
    and ne :: "'s \<Rightarrow> 'i \<Rightarrow> 'i \<Rightarrow> bool ires"
    and step :: "'s \<Rightarrow> 'i \<Rightarrow> 'i ires"
    and get :: "'s \<Rightarrow> 'i \<Rightarrow> 'a ires"
    and items :: "'s \<Rightarrow> 'a list"
  assumes ne_pos: "ok s \<Longrightarrow> i \<le> length (items s) \<Longrightarrow> ne s (pos s i) (stop s) = Inr (i \<noteq> length (items s))"
    and step_pos: "ok s \<Longrightarrow> i < length (items s) \<Longrightarrow> step s (pos s i) = Inr (pos s (Suc i))"
    and get_pos: "ok s \<Longrightarrow> i < length (items s) \<Longrightarrow> get s (pos s i) = Inr (items s ! i)"
begin

lemma walk_from:
  "ok s \<Longrightarrow> i \<le> length (items s) \<Longrightarrow> length (items s) - i < n \<Longrightarrow>
   walk n (ne s) (step s) (get s) (stop s) (pos s i) = Some (Inr (drop i (items s)))"
proof (induction n arbitrary: i)
  case (Suc n)
  show ?case
  proof (cases "i = length (items s)")
    case True
    then show ?thesis using Suc.prems by (simp add: ne_pos)
  next
    case False
    then have "i < length (items s)" using Suc.prems by simp
    then show ?thesis using Suc.IH [of "Suc i"] Suc.prems
      by (simp add: ne_pos step_pos get_pos Cons_nth_drop_Suc)
  qed
qed simp

lemma walk_all:
  "ok s \<Longrightarrow> length (items s) < n \<Longrightarrow>
   walk_between n (ne s) (step s) (get s) (Inr (pos s 0)) (Inr (stop s)) = Some (Inr (items s))"
  using walk_from [of s 0 n] by (simp add: walk_between_def)

end

section \<open>Positions\<close>

text \<open>The iterator at a position of a value: what \<open>begin()\<close> becomes after so many steps.\<close>

definition iter_at :: "'d json \<Rightarrow> nat \<Rightarrow> nat \<Rightarrow> iter" where
  "iter_at j a i = (case j of
      JObject m \<Rightarrow> (iter_of a)\<lparr>it_member := member_at m i\<rparr>
    | JArray xs \<Rightarrow> (iter_of a)\<lparr>it_element := Some i\<rparr>
    | JNull \<Rightarrow> (iter_of a)\<lparr>it_prim := end_value + int i\<rparr>
    | _ \<Rightarrow> (iter_of a)\<lparr>it_prim := begin_value + int i\<rparr>)"

lemma map_sorted_distinct: "map_sorted m \<Longrightarrow> distinct (map fst m)"
  by (simp add: map_sorted_def strict_sorted_iff)

lemma key_index_None: "key_index key m = None \<longleftrightarrow> key \<notin> fst ` set m"
  by (induction m) auto

lemma key_index_SomeD: "key_index key m = Some i \<Longrightarrow> i < length m \<and> fst (m ! i) = key"
  by (induction m arbitrary: i) (auto split: if_splits)

lemma key_index_nth: "distinct (map fst m) \<Longrightarrow> i < length m \<Longrightarrow> key_index (fst (m ! i)) m = Some i"
proof (induction m arbitrary: i)
  case (Cons e m)
  then show ?case by (cases i) (auto dest: nth_mem)
qed simp

lemma map_of_nth: "distinct (map fst m) \<Longrightarrow> i < length m \<Longrightarrow> map_of m (fst (m ! i)) = Some (snd (m ! i))"
  by (simp add: map_of_eq_Some_iff)

lemma member_index_at:
  "distinct (map fst m) \<Longrightarrow> i \<le> length m \<Longrightarrow> member_index m (member_at m i) = Some i"
  by (auto simp: member_index_def member_at_def key_index_nth)

lemma member_at_inject:
  "distinct (map fst m) \<Longrightarrow> i \<le> length m \<Longrightarrow> k \<le> length m \<Longrightarrow> member_at m i = member_at m k \<longleftrightarrow> i = k"
  by (metis member_index_at option.inject)

lemma member_at_No_map [simp]: "member_at m i \<noteq> No_map"
  by (simp add: member_at_def)

lemma iter_of_simps [simp]:
  "it_object (iter_of a) = Some a" "it_prim (iter_of a) = 0" "it_element (iter_of a) = None"
  "it_member (iter_of a) = No_map" "pointee (iter_of a) = Inr a"
  by (simp_all add: iter_of_def iter_default_def pointee_def)

lemma pointee_update [simp]:
  "pointee (it\<lparr>it_member := p\<rparr>) = pointee it" "pointee (it\<lparr>it_element := q\<rparr>) = pointee it"
  "pointee (it\<lparr>it_prim := n\<rparr>) = pointee it"
  by (simp_all add: pointee_def)

lemma it_object_at [simp]: "it_object (iter_at j a i) = Some a"
  by (simp add: iter_at_def split: json.split)

lemma pointee_at [simp]: "pointee (iter_at j a i) = Inr a"
  by (simp add: pointee_def)

lemma json_begin_at [simp]: "json_begin st a = Inr (iter_at (st a) a 0)"
  by (simp add: json_begin_def iter_set_begin_def iter_at_def split: json.split)

lemma json_end_at [simp]: "json_end st a = Inr (iter_at (st a) a (json_size (st a)))"
  by (simp add: json_end_def iter_set_end_def iter_at_def json_size_def member_at_def
      begin_value_def end_value_def split: json.split)

lemma size_range: "length (json_range j) = json_size j"
  by (cases j) (simp_all add: json_range_def json_size_def)

lemma size_items: "length (json_items j) = json_size j"
  by (cases j) (simp_all add: json_items_def json_size_def)

text \<open>The operations on the iterator at a position.\<close>

lemmas iter_at_simps = iter_at_def json_size_def json_range_def advance_member_def advance_element_def
  move_index_def defined_def member_index_at nat_add_distrib

lemma iter_inc_at:
  assumes "json_wf (st a)" "i < json_size (st a)"
  shows "iter_inc st (iter_at (st a) a i) = Inr (iter_at (st a) a (Suc i))"
proof (cases "st a")
  case (JObject m)
  then have "distinct (map fst m)" using assms by (simp add: map_sorted_distinct)
  then show ?thesis using assms JObject by (simp add: iter_inc_def iter_at_simps)
qed (use assms in \<open>auto simp: iter_inc_def iter_at_simps\<close>)

lemma iter_dec_at:
  assumes "json_wf (st a)" "i < json_size (st a)"
  shows "iter_dec st (iter_at (st a) a (Suc i)) = Inr (iter_at (st a) a i)"
proof (cases "st a")
  case (JObject m)
  then have "distinct (map fst m)" using assms by (simp add: map_sorted_distinct)
  then show ?thesis using assms JObject by (simp add: iter_dec_def iter_at_simps)
qed (use assms in \<open>auto simp: iter_dec_def iter_at_simps\<close>)

lemma iter_eq_at:
  assumes "json_wf (st a)" "i \<le> json_size (st a)" "k \<le> json_size (st a)"
  shows "iter_eq st (iter_at (st a) a i) (iter_at (st a) a k) = Inr (i = k)"
proof (cases "st a")
  case (JObject m)
  then have "distinct (map fst m)" using assms by (simp add: map_sorted_distinct)
  then show ?thesis using assms JObject
    by (simp add: iter_eq_def iter_at_simps member_at_inject)
qed (use assms in \<open>auto simp: iter_eq_def iter_at_simps\<close>)

lemma iter_ne_at:
  "json_wf (st a) \<Longrightarrow> i \<le> json_size (st a) \<Longrightarrow> k \<le> json_size (st a) \<Longrightarrow>
   iter_ne st (iter_at (st a) a i) (iter_at (st a) a k) = Inr (i \<noteq> k)"
  by (simp add: iter_ne_def iter_eq_at)

lemma read_at:
  assumes "json_wf (st a)" "i < json_size (st a)"
  shows "read_through st (iter_deref st) (iter_at (st a) a i) = Inr (json_range (st a) ! i)"
proof (cases "st a")
  case (JObject m)
  then have "distinct (map fst m)" using assms by (simp add: map_sorted_distinct)
  then show ?thesis using assms JObject
    by (simp add: read_through_def iter_deref_def iter_at_simps member_at_def member_place_def key_index_nth
        place_read_def map_of_nth)
qed (use assms in \<open>auto simp: read_through_def iter_deref_def place_read_def element_place_def iter_at_simps
    begin_value_def prim_is_begin_def\<close>)

lemma key_at:
  assumes "json_wf (st a)" "i < json_size (st a)"
  shows "proxy_key st (iter_at (st a) a i, i) = Inr (fst (json_items (st a) ! i))"
proof (cases "st a")
  case (JObject m)
  then have "distinct (map fst m)" using assms by (simp add: map_sorted_distinct)
  then show ?thesis using assms JObject
    by (simp add: proxy_key_def iter_key_def json_items_def iter_at_simps member_at_def key_index_nth)
qed (use assms in \<open>auto simp: proxy_key_def json_items_def json_size_def\<close>)

lemma snd_items: "i < json_size j \<Longrightarrow> snd (json_items j ! i) = json_range j ! i"
  by (cases j) (auto simp: json_items_def json_range_def json_size_def)

lemma proxy_item_at:
  "json_wf (st a) \<Longrightarrow> i < json_size (st a) \<Longrightarrow>
   proxy_item st (iter_at (st a) a i, i) = Inr (json_items (st a) ! i)"
  using key_at [of st a i] read_at [of st a i] snd_items [of i "st a"]
  by (simp add: proxy_item_def read_through_def proxy_value_def iter_value_def prod_eq_iff)

interpretation forward: cursor "\<lambda>(st, a). json_wf (st a)" "\<lambda>(st, a). iter_at (st a) a"
  "\<lambda>(st, a). iter_at (st a) a (json_size (st a))" "\<lambda>(st, a). iter_ne st" "\<lambda>(st, a). iter_inc st"
  "\<lambda>(st, a). read_through st (iter_deref st)" "\<lambda>(st, a). json_range (st a)"
  by unfold_locales (auto simp: size_range iter_ne_at iter_inc_at read_at)

interpretation wrapped: cursor "\<lambda>(st, a). json_wf (st a)" "\<lambda>(st, a) i. (iter_at (st a) a i, i)"
  "\<lambda>(st, a). (iter_at (st a) a (json_size (st a)), 0)" "\<lambda>(st, a). proxy_ne st" "\<lambda>(st, a). proxy_inc st"
  "\<lambda>(st, a). proxy_item st" "\<lambda>(st, a). json_items (st a)"
  by unfold_locales (auto simp: size_items iter_ne_at iter_inc_at proxy_item_at proxy_ne_def proxy_inc_def)

text \<open>Backwards: position \<open>i\<close> is the base iterator with \<open>i\<close> elements behind it.\<close>

interpretation backward: cursor "\<lambda>(st, a). json_wf (st a)" "\<lambda>(st, a) i. iter_at (st a) a (json_size (st a) - i)"
  "\<lambda>(st, a). iter_at (st a) a 0" "\<lambda>(st, a). iter_ne st" "\<lambda>(st, a). riter_inc st"
  "\<lambda>(st, a). read_through st (riter_value st)" "\<lambda>(st, a). rev (json_range (st a))"
proof (unfold_locales, goal_cases)
  case (2 s i)
  obtain st a where s: "s = (st, a)" by (cases s)
  show ?case using 2 iter_dec_at [of st a "json_size (st a) - Suc i"]
    by (simp add: s riter_inc_def size_range Suc_diff_Suc)
next
  case (3 s i)
  obtain st a where s: "s = (st, a)" by (cases s)
  show ?case using 3 iter_dec_at [of st a "json_size (st a) - Suc i"] read_at [of st a "json_size (st a) - Suc i"]
    by (simp add: s read_through_def riter_value_def size_range Suc_diff_Suc rev_nth)
qed (auto simp: size_range iter_ne_at)

section \<open>Properties\<close>

text \<open>
  Property C21: loops over a value. For a well-formed value of any type, a loop from \<open>begin()\<close> to
  \<open>end()\<close> ends after as many rounds as the value has elements, without an exception, a failed assertion
  or a step beyond the ends. It visits the elements of an array, the members of an object in the order
  of their keys, a primitive value itself, and nothing for null. The reverse iterators visit the same
  backwards, and the wrapper gives every element with its key: the index in an array, the empty key for
  a primitive value.
\<close>

theorem iteration_visits_range:
  assumes "json_wf (st a)" "json_size (st a) < n"
  shows "range_for n st a = Some (Inr (json_range (st a)))
    \<and> reverse_for n st a = Some (Inr (rev (json_range (st a))))
    \<and> wrapper_for n st a = Some (Inr (json_items (st a)))"
  using assms forward.walk_all [of "(st, a)" n] backward.walk_all [of "(st, a)" n] wrapped.walk_all [of "(st, a)" n]
  by (simp add: range_for_def reverse_for_def wrapper_for_def proxy_begin_def proxy_end_def
      json_rbegin_def json_rend_def size_range size_items)

theorem iteration_visits_range_witness:
  "range_for 3 (\<lambda>a. JObject [(''a'', JBool True), (''b'', JNull)] :: int json) 0
     = Some (Inr [JBool True, JNull])"
  using iteration_visits_range [of "\<lambda>a. JObject [(''a'', JBool True), (''b'', JNull)] :: int json" 0 3]
  by (simp add: map_sorted_def json_size_def json_range_def)

text \<open>
  The order of iterators: for an array the comparisons and the difference are those of the positions;
  iterators of different values are not compared, and the iterators of an object have no order.
\<close>

theorem iter_order_positions:
  assumes "st a = JArray xs" "i \<le> length xs" "k \<le> length xs" "a \<noteq> b"
  shows "iter_lt st (iter_at (st a) a i) (iter_at (st a) a k) = Inr (i < k)
    \<and> iter_le st (iter_at (st a) a i) (iter_at (st a) a k) = Inr (i \<le> k)
    \<and> iter_gt st (iter_at (st a) a i) (iter_at (st a) a k) = Inr (i > k)
    \<and> iter_ge st (iter_at (st a) a i) (iter_at (st a) a k) = Inr (i \<ge> k)
    \<and> iter_diff st (iter_at (st a) a k) (iter_at (st a) a i) = Inr (int k - int i)
    \<and> iter_add st (iter_at (st a) a i) (int k - int i) = Inr (iter_at (st a) a k)
    \<and> iter_eq st (iter_at (st a) a i) (iter_at (st b) b k)
        = Inl (Throws (Domain_error ''cannot compare iterators of different containers''))"
  using assms it_object_at [of "st b" b k]
  by (simp add: iter_lt_def iter_le_def iter_gt_def iter_ge_def iter_diff_def iter_add_def iter_eq_def
      not_less not_le iter_at_simps del: it_object_at)

theorem iter_order_positions_witness:
  "iter_lt (\<lambda>a. JArray [JNull, JNull] :: int json) (iter_at (JArray [JNull, JNull] :: int json) 0 1)
     (iter_at (JArray [JNull, JNull] :: int json) 0 2) = Inr True"
  using iter_order_positions [of "\<lambda>a. JArray [JNull, JNull] :: int json" 0 "[JNull, JNull]" 1 2 1] by simp

text \<open>
  The difference of reverse iterators has the wrong sign: after moving by \<open>n\<close>, it is \<open>- n\<close>, so that
  the distance from \<open>rbegin()\<close> to \<open>rend()\<close> is negative.
\<close>

theorem riter_diff_sign:
  assumes "st a = JArray xs" "n \<le> length xs"
  shows "res_bind (json_rbegin st a) (\<lambda>r. res_bind (riter_add st r (int n)) (\<lambda>r'. riter_diff st r' r))
    = Inr (- int n)"
  using assms
  by (simp add: json_rbegin_def riter_add_def iter_sub_def iter_add_def riter_diff_def iter_diff_def iter_at_simps)

theorem riter_diff_sign_witness:
  "res_bind (json_rbegin (\<lambda>a. JArray [JNull] :: int json) 0)
     (\<lambda>r. res_bind (riter_add (\<lambda>a. JArray [JNull] :: int json) r 1) (\<lambda>r'. riter_diff (\<lambda>a. JArray [JNull] :: int json) r' r))
   = Inr (- 1)"
  using riter_diff_sign [of "\<lambda>a. JArray [JNull] :: int json" 0 "[JNull]" 1] by simp

text \<open>
  On null, \<open>operator*\<close> throws at every position, whereas \<open>operator->\<close> in front of the end gives the
  value itself.
\<close>

theorem null_arrow:
  assumes "st a = JNull"
  shows "res_bind (json_end st a) (\<lambda>e. res_bind (iter_dec st e) (iter_arrow st)) = Inr (Whole a)
    \<and> res_bind (json_end st a) (\<lambda>e. res_bind (iter_dec st e) (iter_deref st)) = cannot_get_value"
  using assms by (simp add: iter_dec_def iter_arrow_def iter_deref_def iter_at_def json_size_def
      prim_is_begin_def begin_value_def end_value_def pointee_def iter_of_def iter_default_def)

theorem null_arrow_witness:
  "res_bind (json_end (\<lambda>a. JNull :: int json) 0) (\<lambda>e. res_bind (iter_dec (\<lambda>a. JNull :: int json) e)
     (iter_arrow (\<lambda>a. JNull :: int json))) = Inr (Whole 0)"
  using null_arrow [of "\<lambda>a. JNull :: int json" 0] by simp

end
