(* ===== verification/JsonContainer.thy ===== *)
theory JsonContainer
  imports JsonIterator
begin

text \<open>
  \<open>include/json.h\<close>, values as containers: what is erased and inserted at iterators, the insertions
  of members, the constructors from initializer lists, counts and ranges, and the exchange of contents.
  An operation on the value at an address returns the store afterwards. The laws describe erasing and
  inserting by positions in the sequence of elements.
\<close>

abbreviation does_not_fit :: "'a ires" where
  "does_not_fit \<equiv> Inl (Throws (Domain_error ''iterator does not fit current value''))"

abbreviation cannot_use :: "string \<Rightarrow> 'd json \<Rightarrow> 'a ires" where
  "cannot_use operation j \<equiv> Inl (Throws (Domain_error (''cannot use '' @ operation @ ''() with '' @ type_name j)))"

section \<open>Erasing\<close>

definition json_erase_at :: "'d cells \<Rightarrow> nat \<Rightarrow> iter \<Rightarrow> (iter \<times> 'd cells) ires" where
  "json_erase_at st a pos =
     (if it_object pos \<noteq> Some a then does_not_fit
      else res_bind (json_end st a) (\<lambda>result. case st a of
          JObject m \<Rightarrow> (case it_member pos of
              At_member k \<Rightarrow> res_bind (defined (key_index k m)) (\<lambda>i.
                let m' = take i m @ drop (i + 1) m
                in Inr (result\<lparr>it_member := member_at m' i\<rparr>, st(a := JObject m')))
            | _ \<Rightarrow> Inl Undefined)
        | JArray xs \<Rightarrow> res_bind (defined (it_element pos)) (\<lambda>i.
            if i < length xs
            then Inr (result\<lparr>it_element := Some i\<rparr>, st(a := JArray (take i xs @ drop (i + 1) xs)))
            else Inl Undefined)
        | JNull \<Rightarrow> cannot_use ''erase'' (st a)
        | JDiscarded \<Rightarrow> cannot_use ''erase'' (st a)
        | _ \<Rightarrow> if \<not> prim_is_begin (it_prim pos) then Inl (Throws (Out_of_range ''iterator out of range''))
               else Inr (result, st(a := JNull))))"

definition json_erase_range :: "'d cells \<Rightarrow> nat \<Rightarrow> iter \<Rightarrow> iter \<Rightarrow> (iter \<times> 'd cells) ires" where
  "json_erase_range st a from till =
     (if it_object from \<noteq> Some a \<or> it_object till \<noteq> Some a
      then Inl (Throws (Domain_error ''iterators do not fit current value''))
      else res_bind (json_end st a) (\<lambda>result. case st a of
          JObject m \<Rightarrow>
            res_bind (defined (member_index m (it_member from))) (\<lambda>i.
            res_bind (defined (member_index m (it_member till))) (\<lambda>k.
              if k < i then Inl Undefined
              else let m' = take i m @ drop k m
                   in Inr (result\<lparr>it_member := member_at m' i\<rparr>, st(a := JObject m'))))
        | JArray xs \<Rightarrow>
            res_bind (defined (it_element from)) (\<lambda>i. res_bind (defined (it_element till)) (\<lambda>k.
              if k < i \<or> length xs < k then Inl Undefined
              else Inr (result\<lparr>it_element := Some i\<rparr>, st(a := JArray (take i xs @ drop k xs)))))
        | JNull \<Rightarrow> cannot_use ''erase'' (st a)
        | JDiscarded \<Rightarrow> cannot_use ''erase'' (st a)
        | _ \<Rightarrow> if \<not> prim_is_begin (it_prim from) \<or> \<not> prim_is_end (it_prim till)
               then Inl (Throws (Out_of_range ''iterators out of range''))
               else Inr (result, st(a := JNull))))"

section \<open>Inserting into arrays\<close>

text \<open>\<open>vector::insert\<close> in front of an index, and the iterator to the first element put in.\<close>

definition insert_elements :: "'d cells \<Rightarrow> nat \<Rightarrow> 'd json list \<Rightarrow> nat option \<Rightarrow> 'd json list \<Rightarrow> (iter \<times> 'd cells) ires" where
  "insert_elements st a xs pos ys = res_bind (defined pos) (\<lambda>i.
     if length xs < i then Inl Undefined
     else Inr ((iter_of a)\<lparr>it_element := Some i\<rparr>, st(a := JArray (take i xs @ ys @ drop i xs))))"

definition json_insert :: "'d cells \<Rightarrow> nat \<Rightarrow> iter \<Rightarrow> 'd json \<Rightarrow> (iter \<times> 'd cells) ires" where
  "json_insert st a pos val = (case st a of
      JArray xs \<Rightarrow> if it_object pos \<noteq> Some a then does_not_fit else insert_elements st a xs (it_element pos) [val]
    | _ \<Rightarrow> cannot_use ''insert'' (st a))"

definition json_insert_count :: "'d cells \<Rightarrow> nat \<Rightarrow> iter \<Rightarrow> nat \<Rightarrow> 'd json \<Rightarrow> (iter \<times> 'd cells) ires" where
  "json_insert_count st a pos cnt val = (case st a of
      JArray xs \<Rightarrow>
        if it_object pos \<noteq> Some a then does_not_fit
        else if vector_max_size < length xs + cnt then Inl (Throws (Foreign_exn ''vector::_M_fill_insert''))
        else insert_elements st a xs (it_element pos) (replicate cnt val)
    | _ \<Rightarrow> cannot_use ''insert'' (st a))"

text \<open>The elements between two iterators into an array; iterators of other values have no array part.\<close>

definition array_slice :: "'d json \<Rightarrow> iter \<Rightarrow> iter \<Rightarrow> 'd json list ires" where
  "array_slice j from till = (case j of
      JArray ys \<Rightarrow>
        res_bind (defined (it_element from)) (\<lambda>i. res_bind (defined (it_element till)) (\<lambda>k.
          if k < i \<or> length ys < k then Inl Undefined else Inr (take (k - i) (drop i ys))))
    | _ \<Rightarrow> Inl Undefined)"

definition json_insert_range :: "'d cells \<Rightarrow> nat \<Rightarrow> iter \<Rightarrow> iter \<Rightarrow> iter \<Rightarrow> (iter \<times> 'd cells) ires" where
  "json_insert_range st a pos from till = (case st a of
      JArray xs \<Rightarrow>
        if it_object pos \<noteq> Some a then does_not_fit
        else if it_object from \<noteq> it_object till then Inl (Throws (Domain_error ''iterators do not fit''))
        else if it_object from = Some a \<or> it_object till = Some a
        then Inl (Throws (Domain_error ''passed iterators may not belong to container''))
        else (case it_object from of
            None \<Rightarrow> Inl Undefined
          | Some b \<Rightarrow> res_bind (array_slice (st b) from till) (insert_elements st a xs (it_element pos)))
    | _ \<Rightarrow> cannot_use ''insert'' (st a))"

definition json_insert_list :: "'d cells \<Rightarrow> nat \<Rightarrow> iter \<Rightarrow> 'd json list \<Rightarrow> (iter \<times> 'd cells) ires" where
  "json_insert_list st a pos ilist = (case st a of
      JArray xs \<Rightarrow> if it_object pos \<noteq> Some a then does_not_fit else insert_elements st a xs (it_element pos) ilist
    | _ \<Rightarrow> cannot_use ''insert'' (st a))"

section \<open>Inserting members\<close>

text \<open>\<open>map::insert\<close> and \<open>map::emplace\<close>: a member that exists is kept.\<close>

definition map_emplace :: "string \<Rightarrow> 'v \<Rightarrow> (string \<times> 'v) list \<Rightarrow> (string \<times> 'v) list" where
  "map_emplace key v m = (case map_of m key of None \<Rightarrow> map_assign key v m | Some _ \<Rightarrow> m)"

definition json_push_member :: "'d json \<Rightarrow> string \<times> 'd json \<Rightarrow> 'd json res" where
  "json_push_member j val =
     (if \<not> (is_null j \<or> is_object j)
      then Inl (Domain_error (''cannot use push_back() with '' @ type_name j))
      else case (if is_null j then JObject [] else j) of
          JObject m \<Rightarrow> Inr (JObject (map_emplace (fst val) (snd val) m))
        | j' \<Rightarrow> Inr j')"

definition json_emplace :: "'d cells \<Rightarrow> nat \<Rightarrow> string \<Rightarrow> 'd json \<Rightarrow> (iter \<times> bool \<times> 'd cells) ires" where
  "json_emplace st a key val =
     (if \<not> (is_null (st a) \<or> is_object (st a)) then cannot_use ''emplace'' (st a)
      else case (if is_null (st a) then JObject [] else st a) of
          JObject m \<Rightarrow>
            let st' = st(a := JObject (map_emplace key val m))
            in res_bind (json_begin st' a) (\<lambda>it. Inr (it\<lparr>it_member := At_member key\<rparr>, map_of m key = None, st'))
        | _ \<Rightarrow> Inl Undefined)"

definition json_emplace_back :: "'d json \<Rightarrow> 'd json \<Rightarrow> 'd json res" where
  "json_emplace_back j val =
     (if \<not> (is_null j \<or> is_array j)
      then Inl (Domain_error (''cannot use emplace_back() with '' @ type_name j))
      else case (if is_null j then JArray [] else j) of
          JArray xs \<Rightarrow> Inr (JArray (xs @ [val]))
        | j' \<Rightarrow> Inr j')"

section \<open>Constructors\<close>

text \<open>An array of two elements, the first one a string.\<close>

definition init_pair :: "'d json \<Rightarrow> (string \<times> 'd json) option" where
  "init_pair element = (case element of
      JArray [JString key, val] \<Rightarrow> Some (key, val)
    | _ \<Rightarrow> None)"

definition json_of_init :: "'d json list \<Rightarrow> bool \<Rightarrow> value_t \<Rightarrow> 'd json res" where
  "json_of_init init type_deduction manual_type =
     (let all_pairs = list_all (\<lambda>e. init_pair e \<noteq> None) init;
          is_an_object = (all_pairs \<and> (type_deduction \<or> manual_type \<noteq> V_array))
      in if \<not> type_deduction \<and> manual_type = V_object \<and> \<not> is_an_object
         then Inl (Domain_error ''cannot create object from initializer list'')
         else if is_an_object
         then Inr (JObject (fold (\<lambda>(key, val). map_emplace key val) (List.map_filter init_pair init) []))
         else Inr (JArray init))"

definition json_array :: "'d json list \<Rightarrow> 'd json res" where
  "json_array init = json_of_init init False V_array"

definition json_object :: "'d json list \<Rightarrow> 'd json res" where
  "json_object init = json_of_init init False V_object"

definition json_push_init :: "'d json \<Rightarrow> 'd json list \<Rightarrow> 'd json res" where
  "json_push_init j init = (case init of
      [JString key, val] \<Rightarrow>
        if is_object j then json_push_member j (key, val)
        else res_bind (json_of_init init True V_array) (json_push_back j)
    | _ \<Rightarrow> res_bind (json_of_init init True V_array) (json_push_back j))"

definition json_of_count :: "nat \<Rightarrow> 'd json \<Rightarrow> 'd json res" where
  "json_of_count cnt val =
     (if vector_max_size < cnt
      then Inl (Foreign_exn ''cannot create std::vector larger than max_size()'')
      else Inr (JArray (replicate cnt val)))"

definition json_of_range :: "'d cells \<Rightarrow> iter \<Rightarrow> iter \<Rightarrow> 'd json ires" where
  "json_of_range st from till =
     res_bind (pointee from) (\<lambda>a. res_bind (pointee till) (\<lambda>b.
       if a \<noteq> b then Inl (Throws (Domain_error ''iterators are not compatible''))
       else case st a of
          JObject m \<Rightarrow>
            res_bind (defined (member_index m (it_member from))) (\<lambda>i.
            res_bind (defined (member_index m (it_member till))) (\<lambda>k.
              if k < i then Inl Undefined else Inr (JObject (take (k - i) (drop i m)))))
        | JArray xs \<Rightarrow> res_bind (array_slice (st a) from till) (\<lambda>ys. Inr (JArray ys))
        | JNull \<Rightarrow> Inl (Throws (Domain_error (''cannot use construct with iterators from '' @ type_name (st a))))
        | JDiscarded \<Rightarrow> Inl (Throws (Domain_error (''cannot use construct with iterators from '' @ type_name (st a))))
        | _ \<Rightarrow> if \<not> prim_is_begin (it_prim from) \<or> \<not> prim_is_end (it_prim till)
               then Inl (Throws (Out_of_range ''iterators out of range''))
               else Inr (st a)))"

section \<open>Exchanging contents\<close>

definition json_swap :: "'d cells \<Rightarrow> nat \<Rightarrow> nat \<Rightarrow> 'd cells" where
  "json_swap st a b = st(a := st b, b := st a)"

definition json_swap_array :: "'d json \<Rightarrow> 'd json list \<Rightarrow> ('d json \<times> 'd json list) res" where
  "json_swap_array j other = (case j of
      JArray xs \<Rightarrow> Inr (JArray other, xs)
    | _ \<Rightarrow> Inl (Domain_error (''cannot use swap() with '' @ type_name j)))"

definition json_swap_object :: "'d json \<Rightarrow> (string \<times> 'd json) list \<Rightarrow> ('d json \<times> (string \<times> 'd json) list) res" where
  "json_swap_object j other = (case j of
      JObject m \<Rightarrow> Inr (JObject other, m)
    | _ \<Rightarrow> Inl (Domain_error (''cannot use swap() with '' @ type_name j)))"

definition json_swap_string :: "'d json \<Rightarrow> string \<Rightarrow> ('d json \<times> string) res" where
  "json_swap_string j other = (case j of
      JString s \<Rightarrow> Inr (JString other, s)
    | _ \<Rightarrow> Inl (Domain_error (''cannot use swap() with '' @ type_name j)))"

section \<open>Parts of a map\<close>

lemma sorted_wrt_cut:
  assumes "sorted_wrt R xs" "i \<le> k"
  shows "sorted_wrt R (take i xs @ drop k xs)"
proof -
  have "sorted_wrt R (take i xs @ drop i xs)" using assms by simp
  then have "\<forall>x\<in>set (take i xs). \<forall>y\<in>set (drop k xs). R x y"
    using set_drop_subset_set_drop [OF assms(2), of xs] by (auto simp: sorted_wrt_append simp del: append_take_drop_id)
  then show ?thesis using assms by (simp add: sorted_wrt_append sorted_wrt_take sorted_wrt_drop)
qed

lemma map_sorted_cut: "map_sorted m \<Longrightarrow> i \<le> k \<Longrightarrow> map_sorted (take i m @ drop k m)"
  using sorted_wrt_cut [of "(<)" "map fst m" i k] by (simp add: map_sorted_def take_map drop_map)

lemma map_sorted_slice: "map_sorted m \<Longrightarrow> map_sorted (take n (drop i m))"
  by (simp add: map_sorted_def take_map [symmetric] drop_map [symmetric] sorted_wrt_take sorted_wrt_drop)

lemma json_wf_cut:
  "json_wf (JObject m) \<Longrightarrow> i \<le> k \<Longrightarrow> json_wf (JObject (take i m @ drop k m))"
  by (auto simp: map_sorted_cut dest: in_set_takeD in_set_dropD)

lemma filter_key_cut:
  "distinct (map fst m) \<Longrightarrow> key_index key m = Some i \<Longrightarrow>
   filter (\<lambda>e. fst e \<noteq> key) m = take i m @ drop (Suc i) m"
proof (induction m arbitrary: i)
  case (Cons e m)
  show ?case
  proof (cases "fst e = key")
    case True
    then have "\<forall>x\<in>set m. fst x \<noteq> key" using Cons.prems(1) by (auto simp: image_iff)
    then show ?thesis using True Cons.prems by simp
  next
    case False
    then show ?thesis using Cons by auto
  qed
qed simp

lemma filter_key_none: "key_index key m = None \<Longrightarrow> filter (\<lambda>e. fst e \<noteq> key) m = m"
  by (auto simp: key_index_None filter_id_conv image_iff)

lemma key_index_map_of: "key_index key m = None \<longleftrightarrow> map_of m key = None"
  by (simp add: key_index_None map_of_eq_None_iff)

lemma map_of_filter_key: "k \<noteq> key \<Longrightarrow> map_of (filter (\<lambda>e. fst e \<noteq> key) m) k = map_of m k"
  by (induction m) auto


section \<open>First insertion wins\<close>

lemma map_of_emplace: "map_of (map_emplace key v m) = map_of [(key, v)] ++ map_of m"
  by (auto simp: map_emplace_def fun_eq_iff map_add_def split: option.split)

lemma emplace_all: "map_of (fold (\<lambda>(k, v). map_emplace k v) kvs m) = map_of kvs ++ map_of m"
  by (induction kvs arbitrary: m) (auto simp: map_of_emplace fun_eq_iff map_add_def split: option.split)

lemma emplace_wf: "json_wf (JObject m) \<Longrightarrow> json_wf v \<Longrightarrow> json_wf (JObject (map_emplace key v m))"
  by (auto simp: map_emplace_def json_wf_assign simp del: json_wf.simps split: option.split)

lemma emplace_all_wf:
  "\<forall>e\<in>set kvs. json_wf (snd e) \<Longrightarrow> json_wf (JObject m) \<Longrightarrow>
   json_wf (JObject (fold (\<lambda>(k, v). map_emplace k v) kvs m))"
  by (induction kvs arbitrary: m) (auto simp: emplace_wf simp del: json_wf.simps)

lemma emplace_last: "\<forall>k'\<in>fst ` set m. k' < k \<Longrightarrow> map_emplace k v m = m @ [(k, v)]"
  using map_of_eq_None_iff [of m k] by (auto simp: map_emplace_def map_assign_last)

lemma emplace_sorted: "map_sorted (m @ kvs) \<Longrightarrow> fold (\<lambda>(k, v). map_emplace k v) kvs m = m @ kvs"
proof (induction kvs arbitrary: m)
  case (Cons e kvs)
  have "\<forall>k'\<in>fst ` set m. k' < fst e" using Cons.prems by (auto simp: map_sorted_def sorted_wrt_append)
  then show ?case using Cons by (cases e) (simp add: emplace_last)
qed simp

lemma init_pair_Some: "init_pair e = Some (k, v) \<longleftrightarrow> e = JArray [JString k, v]"
  by (auto simp: init_pair_def split: json.splits list.splits)

lemma init_pairs: "List.map_filter init_pair (map (\<lambda>(k, v). JArray [JString k, v]) kvs) = kvs"
  by (induction kvs) (auto simp: map_filter_simps init_pair_def)

section \<open>Laws\<close>

lemma erase_range_object:
  "json_wf (JObject m) \<Longrightarrow> st a = JObject m \<Longrightarrow> i \<le> k \<Longrightarrow> k \<le> length m \<Longrightarrow>
   json_erase_range st a (iter_at (st a) a i) (iter_at (st a) a k)
     = Inr (iter_at (JObject (take i m @ drop k m)) a i, st(a := JObject (take i m @ drop k m)))"
  by (simp add: json_erase_range_def iter_at_def defined_def member_index_at map_sorted_distinct Let_def)

lemma erase_range_array:
  "st a = JArray xs \<Longrightarrow> i \<le> k \<Longrightarrow> k \<le> length xs \<Longrightarrow>
   json_erase_range st a (iter_at (st a) a i) (iter_at (st a) a k)
     = Inr (iter_at (JArray (take i xs @ drop k xs)) a i, st(a := JArray (take i xs @ drop k xs)))"
  by (simp add: json_erase_range_def iter_at_def defined_def)

lemma erase_range_position:
  assumes "json_wf (st a)" "is_structured (st a)" "i \<le> k" "k \<le> json_size (st a)"
  shows "\<exists>j'. json_erase_range st a (iter_at (st a) a i) (iter_at (st a) a k) = Inr (iter_at j' a i, st(a := j'))
    \<and> json_range j' = take i (json_range (st a)) @ drop k (json_range (st a))
    \<and> (is_array (st a) \<or> json_items j' = take i (json_items (st a)) @ drop k (json_items (st a)))
    \<and> json_wf j' \<and> json_type j' = json_type (st a)"
proof (cases "st a")
  case (JObject m)
  then show ?thesis using assms json_wf_cut [of m i k] erase_range_object [of m st a i k]
    by (intro exI [of _ "JObject (take i m @ drop k m)"])
      (simp add: json_size_def json_range_def json_items_def take_map drop_map del: json_wf.simps)
next
  case (JArray xs)
  then show ?thesis using assms erase_range_array [of st a xs i k]
    by (intro exI [of _ "JArray (take i xs @ drop k xs)"])
      (auto simp: json_size_def json_range_def is_array_def dest: in_set_takeD in_set_dropD)
qed (use assms in \<open>simp_all add: is_structured_def is_array_def is_object_def\<close>)

lemma erase_at_found:
  "json_wf (JObject m) \<Longrightarrow> st a = JObject m \<Longrightarrow> it_object it = Some a \<Longrightarrow> it_member it = At_member k \<Longrightarrow>
   key_index k m = Some i \<Longrightarrow>
   json_erase_at st a it
     = Inr (iter_at (JObject (take i m @ drop (Suc i) m)) a i, st(a := JObject (take i m @ drop (Suc i) m)))"
  by (simp add: json_erase_at_def iter_at_def defined_def Let_def)

lemma erase_at_range:
  assumes "json_wf (st a)" "is_structured (st a)" "i < json_size (st a)"
  shows "json_erase_at st a (iter_at (st a) a i)
    = json_erase_range st a (iter_at (st a) a i) (iter_at (st a) a (Suc i))"
proof (cases "st a")
  case (JObject m)
  then have m: "distinct (map fst m)" "i < length m" "json_wf (JObject m)"
    using assms by (simp_all add: map_sorted_distinct json_size_def)
  have "it_member (iter_at (st a) a i) = At_member (fst (m ! i))"
    using m JObject by (simp add: iter_at_def member_at_def)
  then show ?thesis using m JObject
      erase_at_found [of m st a "iter_at (st a) a i" "fst (m ! i)" i] erase_range_object [of m st a i "Suc i"]
    by (simp add: key_index_nth del: json_wf.simps)
next
  case (JArray xs)
  then show ?thesis using assms erase_range_array [of st a xs i "Suc i"]
    by (simp add: json_erase_at_def iter_at_def json_size_def defined_def)
qed (use assms in \<open>simp_all add: is_structured_def is_array_def is_object_def\<close>)

lemma find_object:
  "st a = JObject m \<Longrightarrow>
   json_find st a k = Inr ((iter_of a)\<lparr>it_member := (if map_of m k = None then End_of_map else At_member k)\<rparr>)"
  by (simp add: json_find_def key_index_map_of iter_at_def)

lemma read_member:
  "st a = JObject m \<Longrightarrow> map_of m k = Some v \<Longrightarrow>
   read_through st (iter_deref st) ((iter_of a)\<lparr>it_member := At_member k\<rparr>) = Inr v"
  by (simp add: read_through_def iter_deref_def member_place_def key_index_map_of place_read_def defined_def)

lemma key_member:
  "st a = JObject m \<Longrightarrow> map_of m k = Some v \<Longrightarrow> iter_key st ((iter_of a)\<lparr>it_member := At_member k\<rparr>) = Inr k"
  by (simp add: iter_key_def key_index_map_of)

section \<open>Properties\<close>

text \<open>
  Property C22: Erasing refines the removal from a sequence. In a well-formed array or object, \<open>erase(first, last)\<close>
  for positions in order removes exactly the elements between them, keeps the others in their order
  and the value well-formed and of its type, and returns the iterator to the element behind; no other
  value changes. \<open>erase(pos)\<close> is \<open>erase(pos, pos + 1)\<close>.
\<close>

theorem erase_by_position:
  assumes "json_wf (st a)" "is_structured (st a)" "i \<le> k" "k \<le> json_size (st a)"
  shows "(case json_erase_range st a (iter_at (st a) a i) (iter_at (st a) a k) of
      Inl f \<Rightarrow> False
    | Inr (it, st') \<Rightarrow> it = iter_at (st' a) a i
        \<and> json_range (st' a) = take i (json_range (st a)) @ drop k (json_range (st a))
        \<and> (is_array (st a) \<or> json_items (st' a) = take i (json_items (st a)) @ drop k (json_items (st a)))
        \<and> json_wf (st' a) \<and> json_type (st' a) = json_type (st a)
        \<and> (\<forall>b. b = a \<or> st' b = st b))
    \<and> (i = json_size (st a)
       \<or> json_erase_at st a (iter_at (st a) a i)
          = json_erase_range st a (iter_at (st a) a i) (iter_at (st a) a (Suc i)))"
  using erase_range_position [of st a i k] erase_at_range [of st a i] assms
  by (cases "i = json_size (st a)") auto

theorem erase_by_position_witness:
  "(case json_erase_range (\<lambda>a. JArray [JNull, JBool True, JInt 5] :: int json) 0
      (iter_at (JArray [JNull, JBool True, JInt 5] :: int json) 0 1)
      (iter_at (JArray [JNull, JBool True, JInt 5] :: int json) 0 2) of
      Inl f \<Rightarrow> False | Inr (it, st') \<Rightarrow> json_range (st' 0) = [JNull, JInt 5])"
  using erase_by_position [of "\<lambda>a. JArray [JNull, JBool True, JInt 5] :: int json" 0 1 2]
  by (auto simp: is_structured_def is_array_def json_size_def json_range_def split: sum.splits)

text \<open>
  Inserting in front of a position puts the elements there, and erasing from the iterator that is
  returned over as many elements gives back the store as it was. One value, a count of copies and a
  range of another array are insertions of a list.
\<close>

theorem insert_erase_roundtrip:
  assumes "st a = JArray xs" "i \<le> length xs" "length xs + n \<le> vector_max_size"
    "st b = JArray zs" "b \<noteq> a" "j \<le> k" "k \<le> length zs"
  shows "(case json_insert_list st a (iter_at (st a) a i) ys of
      Inl f \<Rightarrow> False
    | Inr (it, st') \<Rightarrow> it = iter_at (st' a) a i
        \<and> json_range (st' a) = take i xs @ ys @ drop i xs
        \<and> (\<forall>c. c = a \<or> st' c = st c)
        \<and> res_bind (json_erase_range st' a it (iter_at (st' a) a (i + length ys))) (\<lambda>(it', st''). Inr st'') = Inr st)
    \<and> json_insert st a (iter_at (st a) a i) v = json_insert_list st a (iter_at (st a) a i) [v]
    \<and> json_insert_count st a (iter_at (st a) a i) n v = json_insert_list st a (iter_at (st a) a i) (replicate n v)
    \<and> json_insert_range st a (iter_at (st a) a i) (iter_at (st b) b j) (iter_at (st b) b k)
        = json_insert_list st a (iter_at (st a) a i) (take (k - j) (drop j zs))"
  using assms
  by (auto simp: json_insert_list_def insert_elements_def json_insert_def json_insert_count_def
      json_insert_range_def array_slice_def json_erase_range_def iter_at_def defined_def json_range_def
      fun_upd_idem)

theorem insert_erase_roundtrip_witness:
  "(case json_insert_list (\<lambda>a. JArray [JNull, JBool True] :: int json) 0
      (iter_at (JArray [JNull, JBool True] :: int json) 0 1) [JInt 1, JInt 2] of
      Inl f \<Rightarrow> False
    | Inr (it, st') \<Rightarrow> json_range (st' 0) = [JNull, JInt 1, JInt 2, JBool True])"
  using insert_erase_roundtrip [of "\<lambda>a. JArray [JNull, JBool True] :: int json" 0 "[JNull, JBool True]" 1 0
      1 "[JNull, JBool True]" 0 1 "[JInt 1, JInt 2]" JNull]
  by (auto simp: vector_max_size_def split: sum.splits)

text \<open>
  \<open>find\<close> and \<open>erase(it)\<close>: in a well-formed object, the iterator that \<open>find\<close> returns is the end exactly
  for a missing key. For a key that is there, it gives the member, and erasing at it is erasing the key;
  an iterator to any other member still gives the same value afterwards.
\<close>

theorem find_then_erase:
  assumes "json_wf (st a)" "st a = JObject m"
  shows "(case json_find st a key of
      Inl f \<Rightarrow> False
    | Inr it \<Rightarrow>
        if json_count (st a) key = 0 then json_end st a = Inr it
        else read_through st (iter_deref st) it = Inr (the (map_of m key)) \<and> iter_key st it = Inr key
          \<and> (case json_erase_at st a it of
               Inl f \<Rightarrow> False
             | Inr (next, st') \<Rightarrow> erase_key key (st a) = Inr (st' a, 1)
                 \<and> (\<forall>k it'. k = key \<or> json_count (st a) k = 0 \<or> json_find st a k \<noteq> Inr it'
                     \<or> read_through st' (iter_deref st') it' = read_through st (iter_deref st) it')))"
proof (cases "map_of m key")
  case None
  then show ?thesis using assms by (simp add: find_object json_count_def iter_at_def json_size_def member_at_def)
next
  case (Some v)
  then obtain i where i: "key_index key m = Some i" by (metis key_index_map_of option.exhaust option.simps(3))
  define m' where "m' = filter (\<lambda>e. fst e \<noteq> key) m"
  define st' where "st' = st(a := JObject m')"
  have er: "json_erase_at st a ((iter_of a)\<lparr>it_member := At_member key\<rparr>) = Inr (iter_at (JObject m') a i, st')"
    using assms i erase_at_found [of m st a "(iter_of a)\<lparr>it_member := At_member key\<rparr>" key i]
      filter_key_cut [of m key i] by (simp add: map_sorted_distinct m'_def st'_def)
  have "read_through st' (iter_deref st') it' = read_through st (iter_deref st) it'"
    if k: "k \<noteq> key" "json_count (st a) k \<noteq> 0" "json_find st a k = Inr it'" for k it'
  proof -
    obtain w where w: "map_of m k = Some w"
      using k(2) assms(2) by (cases "map_of m k") (simp_all add: json_count_def)
    moreover have "map_of m' k = Some w" using w k map_of_filter_key [of k key m] by (simp add: m'_def)
    ultimately show ?thesis using k assms read_member [of st a m k w] read_member [of st' a m' k w]
      by (auto simp: find_object st'_def)
  qed
  then show ?thesis using assms Some er
    by (auto simp: find_object json_count_def read_member key_member erase_key_def st'_def m'_def)
qed

theorem find_then_erase_witness:
  "(case json_find (\<lambda>a. JObject [(''k'', JBool True)] :: int json) 0 ''k'' of
      Inl f \<Rightarrow> False
    | Inr it \<Rightarrow> iter_key (\<lambda>a. JObject [(''k'', JBool True)] :: int json) it = Inr ''k'')"
  using find_then_erase [of "\<lambda>a. JObject [(''k'', JBool True)] :: int json" 0 "[(''k'', JBool True)]" "''k''"]
  by (simp add: map_sorted_def json_count_def split: sum.splits)

text \<open>
  Initializer lists. A list of pairs whose first elements are strings becomes an object: well-formed if
  the values are, with the first value of every key; \<open>object()\<close> accepts no other list, and \<open>array()\<close>
  keeps every list as an array. An object is the list of its members as pairs.
\<close>

theorem init_list_object:
  assumes "\<forall>e\<in>set kvs. json_wf (snd e)"
  shows "(case json_object (map (\<lambda>(k, v). JArray [JString k, v]) kvs) of
      Inl f \<Rightarrow> False
    | Inr j \<Rightarrow> json_wf j \<and> json_of_init (map (\<lambda>(k, v). JArray [JString k, v]) kvs) True V_array = Inr j
        \<and> (\<exists>m. j = JObject m \<and> map_of m = map_of kvs \<and> (\<not> map_sorted kvs \<or> m = kvs)))
    \<and> ((\<exists>j. json_object init = Inr j) \<longleftrightarrow> (\<forall>e\<in>set init. \<exists>k v. e = JArray [JString k, v]))
    \<and> json_array init = Inr (JArray init)"
proof -
  let ?m = "fold (\<lambda>(k, v). map_emplace k v) kvs []"
  have "map_sorted kvs \<Longrightarrow> ?m = kvs" using emplace_sorted [of "[]" kvs] by simp
  moreover have "json_wf (JObject ?m)" using assms by (intro emplace_all_wf) simp_all
  moreover have "map_of ?m = map_of kvs" by (simp add: emplace_all)
  ultimately show ?thesis
    by (simp add: json_object_def json_array_def json_of_init_def init_pairs list_all_iff init_pair_Some
        comp_def split_beta del: json_wf.simps)
qed

theorem init_list_object_witness:
  "(case json_object [JArray [JString ''a'', JNull], JArray [JString ''a'', JBool True]] of
      Inl f \<Rightarrow> False | Inr j \<Rightarrow> json_wf (j :: int json))"
  using init_list_object [of "[(''a'', JNull), (''a'', JBool True)] :: (string \<times> int json) list" "[]"]
  by (auto split: sum.splits)

end
