(* ===== verification/JsonConvert.thy ===== *)
theory JsonConvert
  imports JsonContainer
begin

text \<open>
  \<open>include/json.h\<close>, the conversions between C++ values and JSON values: the type traits, the overloads of
  \<open>to_json\<close> and \<open>from_json\<close> with their \<open>enable_if\<close> conditions, \<open>get\<close>, \<open>get_ptr\<close>, \<open>get_ref\<close> and \<open>value\<close>.
  A C++ type is a value of the data type \<open>ctype\<close>, so that the choice of an overload is a function. The main
  facts: the choice is never ambiguous, and what was converted to JSON converts back.
\<close>

section \<open>C++ types\<close>

text \<open>
  \<open>T_int w s\<close> is the integer type of \<open>w\<close> bits that is signed if \<open>s\<close> holds, as \<open>int64_t\<close> and \<open>uint64_t\<close> name
  them; \<open>T_llong\<close> is \<open>long long\<close>, another type of 64 bits. An enumeration has an underlying type and may be
  scoped. \<open>T_nested\<close> stands for the iterators and pointers of the class, \<open>T_vector\<close>, \<open>T_list\<close> and
  \<open>T_forward_list\<close> for the sequence containers, \<open>T_map\<close> for \<open>std::map\<close>. The conditions are not asked for
  \<open>basic_json\<close> itself (\<open>T_json\<close>), which has cases of its own.
\<close>

datatype ctype =
    T_void | T_json | T_nested | T_bool | T_string | T_cstr
  | T_int nat bool | T_llong bool | T_float | T_double
  | T_enum bool nat bool
  | T_vector ctype | T_list ctype | T_forward_list ctype
  | T_map ctype ctype

abbreviation array_t :: ctype where "array_t \<equiv> T_vector T_json"
abbreviation object_t :: ctype where "object_t \<equiv> T_map T_string T_json"

text \<open>The width and the sign of an integer type, also of the one under an enumeration.\<close>

fun int_type :: "ctype \<Rightarrow> nat \<times> bool" where
  "int_type (T_int w s) = (w, s)"
| "int_type (T_llong s) = (64, s)"
| "int_type (T_enum scoped w s) = (w, s)"
| "int_type t = (0, False)"

fun value_type :: "ctype \<Rightarrow> ctype" where
  "value_type (T_vector t) = t"
| "value_type (T_list t) = t"
| "value_type (T_forward_list t) = t"
| "value_type t = T_void"

fun key_type :: "ctype \<Rightarrow> ctype" where
  "key_type (T_map k v) = k"
| "key_type t = T_void"

fun mapped_type :: "ctype \<Rightarrow> ctype" where
  "mapped_type (T_map k v) = v"
| "mapped_type t = T_void"

section \<open>Type traits\<close>

fun is_integral :: "ctype \<Rightarrow> bool" where
  "is_integral T_bool = True"
| "is_integral (T_int w s) = True"
| "is_integral (T_llong s) = True"
| "is_integral t = False"

definition is_floating_point :: "ctype \<Rightarrow> bool" where
  "is_floating_point t \<longleftrightarrow> t = T_float \<or> t = T_double"

definition is_arithmetic :: "ctype \<Rightarrow> bool" where
  "is_arithmetic t \<longleftrightarrow> is_integral t \<or> is_floating_point t"

fun is_enum :: "ctype \<Rightarrow> bool" where
  "is_enum (T_enum scoped w s) = True"
| "is_enum t = False"

fun convertible_to_int :: "ctype \<Rightarrow> bool" where
  "convertible_to_int (T_enum scoped w s) = (\<not> scoped)"
| "convertible_to_int t = is_arithmetic t"

definition is_unscoped_enum :: "ctype \<Rightarrow> bool" where
  "is_unscoped_enum t \<longleftrightarrow> convertible_to_int t \<and> is_enum t"

definition constructible_string :: "ctype \<Rightarrow> bool" where
  "constructible_string t \<longleftrightarrow> t = T_string \<or> t = T_cstr"

fun has_mapped_type :: "ctype \<Rightarrow> bool" where
  "has_mapped_type (T_map k v) = True"
| "has_mapped_type t = False"

fun has_key_type :: "ctype \<Rightarrow> bool" where
  "has_key_type (T_map k v) = True"
| "has_key_type t = False"

fun has_value_type :: "ctype \<Rightarrow> bool" where
  "has_value_type T_string = True"
| "has_value_type T_nested = True"
| "has_value_type (T_vector t) = True"
| "has_value_type (T_list t) = True"
| "has_value_type (T_forward_list t) = True"
| "has_value_type (T_map k v) = True"
| "has_value_type t = False"

fun has_iterator :: "ctype \<Rightarrow> bool" where
  "has_iterator T_string = True"
| "has_iterator (T_vector t) = True"
| "has_iterator (T_list t) = True"
| "has_iterator (T_forward_list t) = True"
| "has_iterator (T_map k v) = True"
| "has_iterator t = False"

definition is_basic_json_nested_type :: "ctype \<Rightarrow> bool" where
  "is_basic_json_nested_type t \<longleftrightarrow> t = T_nested"

text \<open>\<open>is_compatible_integer_type\<close>, with the sign of the library's own type.\<close>

definition is_compatible_integer_type :: "bool \<Rightarrow> ctype \<Rightarrow> bool" where
  "is_compatible_integer_type is_signed t \<longleftrightarrow>
     is_integral t \<and> t \<noteq> T_bool \<and> snd (int_type t) = is_signed"

text \<open>
  A map is compatible if its keys make strings and its values make JSON values (\<open>constructible_json\<close>: the
  conditions of the constructor from a C++ value); a container that is neither that nor a string is a
  compatible array.
\<close>

function is_compatible_object_type :: "ctype \<Rightarrow> bool"
  and is_compatible_array_type :: "ctype \<Rightarrow> bool"
  and has_to_json :: "ctype \<Rightarrow> bool"
  and constructible_json :: "ctype \<Rightarrow> bool" where
  "is_compatible_object_type t =
     (t \<noteq> T_void \<and> has_mapped_type t \<and> has_key_type t \<and> constructible_string (key_type t)
      \<and> (case t of T_map k v \<Rightarrow> constructible_json v | _ \<Rightarrow> False))"
| "is_compatible_array_type t =
     (t \<noteq> T_void \<and> \<not> is_compatible_object_type t \<and> \<not> constructible_string t
      \<and> \<not> is_basic_json_nested_type t \<and> has_value_type t \<and> has_iterator t)"
| "has_to_json t =
     (t = T_bool \<or> constructible_string t \<or> is_floating_point t
      \<or> is_compatible_integer_type False t \<or> is_compatible_integer_type True t \<or> is_unscoped_enum t
      \<or> is_compatible_array_type t \<or> t = array_t \<or> is_compatible_object_type t)"
| "constructible_json t = (t = T_json \<or> \<not> is_basic_json_nested_type t \<and> has_to_json t)"
  by pat_completeness auto

termination is_compatible_object_type
  by (relation "measure (\<lambda>x. case x of Inl (Inl t) \<Rightarrow> 4 * size t | Inl (Inr t) \<Rightarrow> 4 * size t + 1
      | Inr (Inl t) \<Rightarrow> 4 * size t + 2 | Inr (Inr t) \<Rightarrow> 4 * size t + 3)") auto

declare is_compatible_object_type.simps [simp del] is_compatible_array_type.simps [simp del]
  has_to_json.simps [simp del] constructible_json.simps [simp del]

section \<open>Overloads\<close>

datatype to_overload =
  To_bool | To_string | To_float | To_unsigned | To_integer | To_enum | To_array | To_object

fun to_viable :: "to_overload \<Rightarrow> ctype \<Rightarrow> bool" where
  "to_viable To_bool t = (t = T_bool)"
| "to_viable To_string t = constructible_string t"
| "to_viable To_float t = is_floating_point t"
| "to_viable To_unsigned t = is_compatible_integer_type False t"
| "to_viable To_integer t = is_compatible_integer_type True t"
| "to_viable To_enum t = is_unscoped_enum t"
| "to_viable To_array t = (is_compatible_array_type t \<or> t = array_t)"
| "to_viable To_object t = is_compatible_object_type t"

definition to_overloads :: "ctype \<Rightarrow> to_overload list" where
  "to_overloads t = filter (\<lambda>ov. to_viable ov t)
     [To_bool, To_string, To_float, To_unsigned, To_integer, To_enum, To_array, To_object]"

datatype from_overload =
    From_bool | From_string | From_double | From_unsigned | From_integer | From_enum
  | From_array_t | From_forward_list | From_array | From_object | From_arithmetic

fun from_viable :: "from_overload \<Rightarrow> ctype \<Rightarrow> bool" where
  "from_viable From_bool t = (t = T_bool)"
| "from_viable From_string t = (t = T_string)"
| "from_viable From_double t = (t = T_double)"
| "from_viable From_unsigned t = (t = T_int 64 False)"
| "from_viable From_integer t = (t = T_int 64 True)"
| "from_viable From_enum t = is_unscoped_enum t"
| "from_viable From_array_t t = (t = array_t)"
| "from_viable From_forward_list t = (t = T_forward_list (value_type t))"
| "from_viable From_array t = (is_compatible_array_type t \<and> t \<noteq> array_t)"
| "from_viable From_object t = is_compatible_object_type t"
| "from_viable From_arithmetic t =
     (is_arithmetic t \<and> t \<noteq> T_int 64 False \<and> t \<noteq> T_int 64 True \<and> t \<noteq> T_double \<and> t \<noteq> T_bool)"

text \<open>The overload for \<open>forward_list\<close> is more specialised than that for arrays.\<close>

definition from_overloads :: "ctype \<Rightarrow> from_overload list" where
  "from_overloads t =
     (let viable = filter (\<lambda>ov. from_viable ov t)
        [From_bool, From_string, From_double, From_unsigned, From_integer, From_enum, From_array_t,
         From_forward_list, From_array, From_object, From_arithmetic]
      in if From_forward_list \<in> set viable then removeAll From_array viable else viable)"

section \<open>C++ values\<close>

datatype (cval_doubles: 'd) cval =
    C_bool bool | C_string string | C_int int | C_float 'd
  | C_json "'d json" | C_seq "'d cval list" | C_map "(string \<times> 'd cval) list"

text \<open>
  The conversions to \<open>float\<close> and to the integer types below 64 bits; a \<open>float\<close> is the double it equals.
\<close>

record 'd cpp_lib =
  c_dbl :: "'d dbl_lib"
  c_single :: "'d \<Rightarrow> 'd"
  c_single_i64 :: "u64 \<Rightarrow> 'd"
  c_single_u64 :: "u64 \<Rightarrow> 'd"
  c_to_int :: "nat \<Rightarrow> bool \<Rightarrow> 'd \<Rightarrow> int"

text \<open>\<open>static_cast\<close> to an integer type of \<open>w\<close> bits.\<close>

definition wrap_int :: "nat \<Rightarrow> bool \<Rightarrow> int \<Rightarrow> int" where
  "wrap_int w s n = (if s then (n + 2 ^ (w - 1)) mod 2 ^ w - 2 ^ (w - 1) else n mod 2 ^ w)"

definition cast_u64 :: "'d cpp_lib \<Rightarrow> ctype \<Rightarrow> u64 \<Rightarrow> 'd cval" where
  "cast_u64 L t u =
     (if t = T_double then C_float (d_of_u64 (c_dbl L) u)
      else if t = T_float then C_float (c_single_u64 L u)
      else C_int (case int_type t of (w, s) \<Rightarrow> wrap_int w s (uint u)))"

definition cast_i64 :: "'d cpp_lib \<Rightarrow> ctype \<Rightarrow> u64 \<Rightarrow> 'd cval" where
  "cast_i64 L t i =
     (if t = T_double then C_float (d_of_i64 (c_dbl L) i)
      else if t = T_float then C_float (c_single_i64 L i)
      else C_int (case int_type t of (w, s) \<Rightarrow> wrap_int w s (sint i)))"

definition cast_double :: "'d cpp_lib \<Rightarrow> ctype \<Rightarrow> 'd \<Rightarrow> 'd cval" where
  "cast_double L t d =
     (if t = T_double then C_float d
      else if t = T_float then C_float (c_single L d)
      else C_int (case int_type t of (w, s) \<Rightarrow>
        if w = 64 then (if s then sint (d_to_i64 (c_dbl L) d) else uint (d_to_u64 (c_dbl L) d))
        else c_to_int L w s d))"

section \<open>To JSON\<close>

definition construct_boolean :: "bool \<Rightarrow> 'd json" where
  "construct_boolean b = JBool b"

definition construct_string :: "string \<Rightarrow> 'd json" where
  "construct_string s = JString s"

text \<open>Infinities and NaN become null.\<close>

definition construct_float :: "'d dbl_lib \<Rightarrow> 'd \<Rightarrow> 'd json" where
  "construct_float fl val = (if \<not> d_isfinite fl val then JNull else JFloat val)"

definition construct_unsigned :: "int \<Rightarrow> 'd json" where
  "construct_unsigned val = JUint (word_of_int val)"

definition construct_integer :: "int \<Rightarrow> 'd json" where
  "construct_integer val = JInt (word_of_int val)"

definition construct_array :: "'d json list \<Rightarrow> 'd json" where
  "construct_array arr = JArray arr"

definition construct_object :: "(string \<times> 'd json) list \<Rightarrow> 'd json" where
  "construct_object obj = JObject (fold (\<lambda>(key, val). map_emplace key val) obj [])"

text \<open>
  The elements of a container are converted one after the other. What does not compile is an exception
  with the text of the static assertion.
\<close>

primrec res_map :: "('a \<Rightarrow> 'b res) \<Rightarrow> 'a list \<Rightarrow> 'b list res" where
  "res_map f [] = Inr []"
| "res_map f (x # xs) = res_bind (f x) (\<lambda>y. res_bind (res_map f xs) (\<lambda>ys. Inr (y # ys)))"

definition static_fail :: "string \<Rightarrow> exn" where
  "static_fail name = Foreign_exn (''could not find '' @ name @ ''() method in T'' @ [CHR 0x27] @ ''s namespace'')"

function to_json :: "'d cpp_lib \<Rightarrow> ctype \<Rightarrow> 'd cval \<Rightarrow> 'd json res"
  and json_of :: "'d cpp_lib \<Rightarrow> ctype \<Rightarrow> 'd cval \<Rightarrow> 'd json res" where
  "to_json L t v =
     (case (to_overloads t, v) of
        ([To_bool], C_bool b) \<Rightarrow> Inr (construct_boolean b)
      | ([To_string], C_string s) \<Rightarrow> Inr (construct_string s)
      | ([To_float], C_float d) \<Rightarrow> Inr (construct_float (c_dbl L) d)
      | ([To_unsigned], C_int n) \<Rightarrow> Inr (construct_unsigned n)
      | ([To_integer], C_int n) \<Rightarrow> Inr (construct_integer n)
      | ([To_enum], C_int n) \<Rightarrow> Inr (construct_integer n)
      | ([To_array], C_seq xs) \<Rightarrow>
          (case t of
             T_vector e \<Rightarrow> res_bind (res_map (json_of L e) xs) (\<lambda>js. Inr (construct_array js))
           | T_list e \<Rightarrow> res_bind (res_map (json_of L e) xs) (\<lambda>js. Inr (construct_array js))
           | T_forward_list e \<Rightarrow> res_bind (res_map (json_of L e) xs) (\<lambda>js. Inr (construct_array js))
           | _ \<Rightarrow> Inl (static_fail ''to_json''))
      | ([To_object], C_map m) \<Rightarrow>
          (case t of
             T_map k e \<Rightarrow> res_bind (res_map (\<lambda>(key, v). res_bind (json_of L e v) (\<lambda>j. Inr (key, j))) m)
               (\<lambda>kvs. Inr (construct_object kvs))
           | _ \<Rightarrow> Inl (static_fail ''to_json''))
      | _ \<Rightarrow> Inl (static_fail ''to_json''))"
| "json_of L t v = (if t = T_json then (case v of C_json j \<Rightarrow> Inr j | _ \<Rightarrow> Inl (static_fail ''to_json''))
     else to_json L t v)"
  by pat_completeness auto

termination to_json
  by (relation "measure (\<lambda>x. case x of Inl (L, t, v) \<Rightarrow> 2 * size t | Inr (L, t, v) \<Rightarrow> 2 * size t + 1)") auto

declare to_json.simps [simp del] json_of.simps [simp del]

section \<open>From JSON\<close>

text \<open>\<open>get_arithmetic_value\<close>, for the library's own number types and enumerations: null is 0.\<close>

definition get_arithmetic_value :: "'d cpp_lib \<Rightarrow> ctype \<Rightarrow> 'd json \<Rightarrow> 'd cval res" where
  "get_arithmetic_value L t j = (case j of
      JUint u \<Rightarrow> Inr (cast_u64 L t u)
    | JInt i \<Rightarrow> Inr (cast_i64 L t i)
    | JFloat d \<Rightarrow> Inr (cast_double L t d)
    | _ \<Rightarrow> if is_null j then Inr (if t = T_double then C_float (d_zero (c_dbl L)) else C_int 0)
          else Inl (Domain_error (''type must be number, but is '' @ type_name j)))"

text \<open>The other number types: booleans are numbers, null is not.\<close>

definition from_json_arithmetic :: "'d cpp_lib \<Rightarrow> ctype \<Rightarrow> 'd json \<Rightarrow> 'd cval res" where
  "from_json_arithmetic L t j = (case j of
      JUint u \<Rightarrow> Inr (cast_u64 L t u)
    | JInt i \<Rightarrow> Inr (cast_i64 L t i)
    | JFloat d \<Rightarrow> Inr (cast_double L t d)
    | JBool b \<Rightarrow> Inr (cast_i64 L t (if b then 1 else 0))
    | _ \<Rightarrow> Inl (Domain_error (''type must be number, but is '' @ type_name j)))"

definition must_be :: "string \<Rightarrow> 'd json \<Rightarrow> exn" where
  "must_be name j = Domain_error (''type must be '' @ name @ '', but is '' @ type_name j)"

fun seq_of :: "'d cval \<Rightarrow> 'd cval list" where
  "seq_of (C_seq xs) = xs"
| "seq_of v = []"

text \<open>What \<open>ValueType ret;\<close> makes; a number is not initialised, and not read before it is written.\<close>

fun default_value :: "ctype \<Rightarrow> 'd cval" where
  "default_value T_bool = C_bool False"
| "default_value T_string = C_string []"
| "default_value (T_vector t) = C_seq []"
| "default_value (T_list t) = C_seq []"
| "default_value (T_forward_list t) = C_seq []"
| "default_value (T_map k v) = C_map []"
| "default_value t = C_int 0"

text \<open>
  The conditions of the two overloads for sequences, which look at what the value is only if the elements
  are not JSON values.
\<close>

definition check_array :: "ctype \<Rightarrow> 'd json \<Rightarrow> unit res" where
  "check_array e j =
     (if is_null j then Inl (must_be ''array'' j)
      else if e \<noteq> T_json \<and> \<not> is_array j then Inl (must_be ''array'' j)
      else Inr ())"

text \<open>
  \<open>from_json (j, val)\<close> writes to \<open>val\<close>: a sequence keeps what it held, new elements go behind it, those of a
  \<open>forward_list\<close> in front of it.
\<close>

function from_json :: "'d cpp_lib \<Rightarrow> ctype \<Rightarrow> 'd json \<Rightarrow> 'd cval \<Rightarrow> 'd cval res"
  and get :: "'d cpp_lib \<Rightarrow> ctype \<Rightarrow> 'd json \<Rightarrow> 'd cval res" where
  "from_json L t j val =
     (case from_overloads t of
        [From_bool] \<Rightarrow> res_bind (get_bool j) (\<lambda>b. Inr (C_bool b))
      | [From_string] \<Rightarrow> res_bind (get_string j) (\<lambda>s. Inr (C_string s))
      | [From_double] \<Rightarrow> get_arithmetic_value L t j
      | [From_unsigned] \<Rightarrow> get_arithmetic_value L t j
      | [From_integer] \<Rightarrow> get_arithmetic_value L t j
      | [From_enum] \<Rightarrow> get_arithmetic_value L (case int_type t of (w, s) \<Rightarrow> T_int w s) j
      | [From_array_t] \<Rightarrow>
          (case j of JArray xs \<Rightarrow> Inr (C_seq (map C_json xs)) | _ \<Rightarrow> Inl (must_be ''array'' j))
      | [From_forward_list] \<Rightarrow>
          (case t of
             T_forward_list e \<Rightarrow> res_bind (check_array e j) (\<lambda>_.
               res_bind (res_map (get L e) (rev (json_range j))) (\<lambda>vs. Inr (C_seq (fold (#) vs (seq_of val)))))
           | _ \<Rightarrow> Inl (static_fail ''from_json''))
      | [From_array] \<Rightarrow>
          (case t of
             T_vector e \<Rightarrow> res_bind (check_array e j) (\<lambda>_.
               res_bind (res_map (get L e) (json_range j)) (\<lambda>vs. Inr (C_seq (seq_of val @ vs))))
           | T_list e \<Rightarrow> res_bind (check_array e j) (\<lambda>_.
               res_bind (res_map (get L e) (json_range j)) (\<lambda>vs. Inr (C_seq (seq_of val @ vs))))
           | _ \<Rightarrow> Inl (static_fail ''from_json''))
      | [From_object] \<Rightarrow>
          (case j of
             JObject m \<Rightarrow>
               (case t of
                  T_map T_string e \<Rightarrow>
                    res_bind (res_map (\<lambda>(key, x). res_bind (get L e x) (\<lambda>v. Inr (key, v))) m)
                      (\<lambda>kvs. Inr (C_map (fold (\<lambda>(key, v). map_emplace key v) kvs [])))
                | _ \<Rightarrow> Inl (static_fail ''from_json''))
           | _ \<Rightarrow> Inl (must_be ''object'' j))
      | [From_arithmetic] \<Rightarrow> from_json_arithmetic L t j
      | _ \<Rightarrow> Inl (static_fail ''from_json''))"
| "get L t j = (if t = T_json then Inr (C_json j) else from_json L t j (default_value t))"
  by pat_completeness auto

termination from_json
  by (relation "measure (\<lambda>x. case x of Inl (L, t, j, v) \<Rightarrow> 2 * size t | Inr (L, t, j) \<Rightarrow> 2 * size t + 1)") auto

declare from_json.simps [simp del] get.simps [simp del]

text \<open>
  \<open>value (key, default)\<close>: the member, converted to the type of the default, or the default; and the
  overload for C strings.
\<close>

definition json_value :: "'d cpp_lib \<Rightarrow> ctype \<Rightarrow> string \<Rightarrow> 'd cval \<Rightarrow> 'd json \<Rightarrow> 'd cval res" where
  "json_value L t key dflt j = (case j of
      JObject m \<Rightarrow> (case map_of m key of Some x \<Rightarrow> get L t x | None \<Rightarrow> Inr dflt)
    | _ \<Rightarrow> Inl (Domain_error (''cannot use value() with '' @ type_name j)))"

definition json_value_cstr :: "'d cpp_lib \<Rightarrow> string \<Rightarrow> string \<Rightarrow> 'd json \<Rightarrow> 'd cval res" where
  "json_value_cstr L key dflt j = json_value L T_string key (C_string dflt) j"

section \<open>Pointers and references\<close>

text \<open>
  \<open>get_ptr\<close>: where the stored value is of the pointer's type, and no null pointer then; the pointer to a
  signed integer is given for an unsigned one, too, as \<open>is_number_integer\<close> holds for both. What is
  written through it goes to the union, the tag stays.
\<close>

definition ptr_object :: "'d json \<Rightarrow> (string \<times> 'd json) list option" where
  "ptr_object j = (if is_object j then (case j of JObject m \<Rightarrow> Some m | _ \<Rightarrow> None) else None)"

definition ptr_array :: "'d json \<Rightarrow> 'd json list option" where
  "ptr_array j = (if is_array j then (case j of JArray xs \<Rightarrow> Some xs | _ \<Rightarrow> None) else None)"

definition ptr_string :: "'d json \<Rightarrow> string option" where
  "ptr_string j = (if is_string j then (case j of JString s \<Rightarrow> Some s | _ \<Rightarrow> None) else None)"

definition ptr_boolean :: "'d json \<Rightarrow> bool option" where
  "ptr_boolean j = (if is_boolean j then (case j of JBool b \<Rightarrow> Some b | _ \<Rightarrow> None) else None)"

definition ptr_integer :: "'d json \<Rightarrow> u64 option" where
  "ptr_integer j = (if is_number_integer j then (case j of JInt i \<Rightarrow> Some i | JUint u \<Rightarrow> Some u | _ \<Rightarrow> None) else None)"

definition ptr_unsigned :: "'d json \<Rightarrow> u64 option" where
  "ptr_unsigned j = (if is_number_unsigned j then (case j of JUint u \<Rightarrow> Some u | _ \<Rightarrow> None) else None)"

definition ptr_float :: "'d json \<Rightarrow> 'd option" where
  "ptr_float j = (if is_number_float j then (case j of JFloat d \<Rightarrow> Some d | _ \<Rightarrow> None) else None)"

text \<open>A value with another one in the place the pointer is for.\<close>

definition put_integer :: "u64 \<Rightarrow> 'd json \<Rightarrow> 'd json" where
  "put_integer i j = (case j of JInt i' \<Rightarrow> JInt i | JUint u \<Rightarrow> JUint i | _ \<Rightarrow> j)"

definition put_stored :: "'d json \<Rightarrow> 'd json \<Rightarrow> 'd json" where
  "put_stored v j = (if json_type v = json_type j then v else j)"

text \<open>\<open>get_ref\<close>, by the pointer and the place: \<open>f\<close> is what the caller writes through the reference.\<close>

definition get_ref ::
  "('d json \<Rightarrow> 'p option) \<Rightarrow> ('p \<Rightarrow> 'd json \<Rightarrow> 'd json) \<Rightarrow> ('p \<Rightarrow> 'p) \<Rightarrow> 'd json \<Rightarrow> ('p \<times> 'd json) res" where
  "get_ref ptr put f obj = (case ptr obj of
      Some p \<Rightarrow> Inr (f p, put (f p) obj)
    | None \<Rightarrow> Inl (Domain_error (''incompatible ReferenceType for get_ref, actual type is '' @ type_name obj)))"

text \<open>The contract of a pointer and its place.\<close>

locale stored_part =
  fixes ptr :: "'d json \<Rightarrow> 'p option"
    and put :: "'p \<Rightarrow> 'd json \<Rightarrow> 'd json"
  assumes ptr_put: "ptr j \<noteq> None \<Longrightarrow> ptr (put p j) = Some p"
    and put_ptr: "ptr j = Some p \<Longrightarrow> put p j = j"
    and put_type: "json_type (put p j) = json_type j"
begin

lemma ref_reads_back: "get_ref ptr put f j = Inr (p, j') \<Longrightarrow> ptr j' = Some p \<and> json_type j' = json_type j"
  by (auto simp: get_ref_def ptr_put put_type split: option.splits)

lemma ref_identity: "ptr j = Some p \<Longrightarrow> get_ref ptr put (\<lambda>p. p) j = Inr (p, j)"
  by (simp add: get_ref_def put_ptr)

lemma ref_throws: "(\<exists>e. get_ref ptr put f j = Inl e) \<longleftrightarrow> ptr j = None"
  by (auto simp: get_ref_def split: option.splits)

lemma ref_compose:
  "get_ref ptr put f j = Inr (p, j') \<Longrightarrow> \<exists>q j''. get_ref ptr put g j' = Inr (q, j'') \<and> q = g p \<and> ptr j'' = Some q"
  by (auto simp: get_ref_def ptr_put split: option.splits)

end

lemmas ptr_defs = ptr_object_def ptr_array_def ptr_string_def ptr_boolean_def ptr_integer_def
  ptr_unsigned_def ptr_float_def put_integer_def put_stored_def
  is_object_def is_array_def is_string_def is_boolean_def is_number_integer_def is_number_unsigned_def
  is_number_float_def

interpretation object_part: stored_part ptr_object "\<lambda>m. put_stored (JObject m)"
  by unfold_locales (auto simp: ptr_defs split: json.splits)

interpretation array_part: stored_part ptr_array "\<lambda>xs. put_stored (JArray xs)"
  by unfold_locales (auto simp: ptr_defs split: json.splits)

interpretation string_part: stored_part ptr_string "\<lambda>s. put_stored (JString s)"
  by unfold_locales (auto simp: ptr_defs split: json.splits)

interpretation boolean_part: stored_part ptr_boolean "\<lambda>b. put_stored (JBool b)"
  by unfold_locales (auto simp: ptr_defs split: json.splits)

interpretation integer_part: stored_part ptr_integer put_integer
  by unfold_locales (auto simp: ptr_defs split: json.splits)

interpretation unsigned_part: stored_part ptr_unsigned "\<lambda>u. put_stored (JUint u)"
  by unfold_locales (auto simp: ptr_defs split: json.splits)

interpretation float_part: stored_part ptr_float "\<lambda>d. put_stored (JFloat d)"
  by unfold_locales (auto simp: ptr_defs split: json.splits)

section \<open>Copies\<close>

text \<open>
  The copy constructor copies by type, the containers by the copy constructors of their elements; the
  move constructor leaves null behind; assignment takes its argument by value and swaps.
\<close>

function json_copy :: "'d json \<Rightarrow> 'd json" where
  "json_copy (JObject m) = JObject (map (\<lambda>(key, v). (key, json_copy v)) m)"
| "json_copy (JArray xs) = JArray (map json_copy xs)"
| "json_copy (JString s) = JString s"
| "json_copy (JBool b) = JBool b"
| "json_copy (JInt i) = JInt i"
| "json_copy (JUint u) = JUint u"
| "json_copy (JFloat d) = JFloat d"
| "json_copy JNull = JNull"
| "json_copy JDiscarded = JDiscarded"
  by pat_completeness auto

termination json_copy
  by (relation "measure size") (auto dest!: json_size simp del: json.size)

definition json_move :: "'d json \<Rightarrow> 'd json \<times> 'd json" where
  "json_move other = (other, JNull)"

definition json_exchange :: "'d json \<Rightarrow> 'd json \<Rightarrow> 'd json \<times> 'd json" where
  "json_exchange this other = (other, this)"

definition json_assign :: "'d json \<Rightarrow> 'd json \<Rightarrow> 'd json" where
  "json_assign this c = (let other = json_copy c; (this', other') = json_exchange this other in this')"

lemma json_copy_id [simp]: "json_copy j = j"
  by (induction j rule: json_copy.induct) (auto simp: map_idI split: prod.splits)

interpretation json_values: copy_swap json_copy json_exchange json_assign
  by unfold_locales (simp_all add: json_exchange_def json_assign_def)

text \<open>\<open>max_size\<close>; the limits of the containers are those of the standard library.\<close>

definition json_max_size :: "nat \<Rightarrow> nat \<Rightarrow> 'd json \<Rightarrow> nat" where
  "json_max_size array_max object_max j = (case j of
      JArray xs \<Rightarrow> array_max
    | JObject m \<Rightarrow> object_max
    | _ \<Rightarrow> json_size j)"

text \<open>\<open>meta\<close>, as it is compiled on Linux by a compiler of some family and version.\<close>

definition json_pair :: "string \<Rightarrow> 'd json \<Rightarrow> 'd json" where
  "json_pair key v = JArray [JString key, v]"

definition json_meta :: "string \<Rightarrow> string \<Rightarrow> string \<Rightarrow> 'd json res" where
  "json_meta family version cplusplus =
     (let result = JNull in
      res_bind (json_put result ''copyright'' (JString ''(C) 2013-2017 Niels Lohmann'')) (\<lambda>result.
      res_bind (json_put result ''name'' (JString ''JSON for Modern C++'')) (\<lambda>result.
      res_bind (json_put result ''url'' (JString ''https://github.com/nlohmann/json'')) (\<lambda>result.
      res_bind (json_of_init [json_pair ''string'' (JString ''2.1.0''), json_pair ''major'' (JInt 2),
        json_pair ''minor'' (JInt 1), json_pair ''patch'' (JInt 0)] True V_array) (\<lambda>v.
      res_bind (json_put result ''version'' v) (\<lambda>result.
      res_bind (json_put result ''platform'' (JString ''linux'')) (\<lambda>result.
      res_bind (json_of_init [json_pair ''family'' (JString family),
        json_pair ''version'' (JString version)] True V_array) (\<lambda>compiler.
      res_bind (json_put result ''compiler'' compiler) (\<lambda>result.
      res_bind (json_index result ''compiler'') (\<lambda>(result, compiler).
      res_bind (json_put compiler ''c++'' (JString cplusplus)) (\<lambda>compiler.
        json_put result ''compiler'' compiler)))))))))))"

lemma meta_value:
  "json_meta family version cplusplus = Inr (JObject
     [(''compiler'', JObject [(''c++'', JString cplusplus), (''family'', JString family), (''version'', JString version)]),
      (''copyright'', JString ''(C) 2013-2017 Niels Lohmann''), (''name'', JString ''JSON for Modern C++''),
      (''platform'', JString ''linux''), (''url'', JString ''https://github.com/nlohmann/json''),
      (''version'', JObject [(''major'', JInt 2), (''minor'', JInt 1), (''patch'', JInt 0), (''string'', JString ''2.1.0'')])])"
  by (simp add: json_meta_def json_put_cases json_index_cases json_of_init_def json_pair_def init_pair_def
      map_emplace_def Let_def)

section \<open>The choice of an overload\<close>

text \<open>The types that convert both ways.\<close>

fun convertible :: "ctype \<Rightarrow> bool" where
  "convertible T_json = True"
| "convertible T_bool = True"
| "convertible T_string = True"
| "convertible (T_int w s) = (w \<le> 64)"
| "convertible (T_llong s) = True"
| "convertible T_float = True"
| "convertible T_double = True"
| "convertible (T_enum scoped w s) = (\<not> scoped \<and> w \<le> 64)"
| "convertible (T_vector t) = convertible t"
| "convertible (T_list t) = convertible t"
| "convertible (T_forward_list t) = convertible t"
| "convertible (T_map k t) = (k = T_string \<and> convertible t)"
| "convertible t = False"

lemmas trait_defs = is_floating_point_def is_arithmetic_def is_unscoped_enum_def constructible_string_def
  is_basic_json_nested_type_def is_compatible_integer_type_def

lemma compatible_object [simp]:
  "is_compatible_object_type (T_map k v) \<longleftrightarrow> constructible_string k \<and> constructible_json v"
  by (simp add: is_compatible_object_type.simps)

lemma not_compatible_object: "\<not> has_mapped_type t \<Longrightarrow> \<not> is_compatible_object_type t"
  by (simp add: is_compatible_object_type.simps)

lemma convertible_constructible: "convertible t \<Longrightarrow> constructible_json t"
  by (cases t) (auto simp: constructible_json.simps has_to_json.simps is_compatible_array_type.simps trait_defs
      not_compatible_object)

lemmas overload_defs = to_overloads_def from_overloads_def is_compatible_array_type.simps trait_defs
  not_compatible_object Let_def

lemma to_overloads_simps [simp]:
  "to_overloads T_bool = [To_bool]"
  "to_overloads T_string = [To_string]"
  "to_overloads (T_int w s) = [if s then To_integer else To_unsigned]"
  "to_overloads (T_llong s) = [if s then To_integer else To_unsigned]"
  "to_overloads T_float = [To_float]"
  "to_overloads T_double = [To_float]"
  "to_overloads (T_enum scoped w s) = (if scoped then [] else [To_enum])"
  "to_overloads (T_vector t) = [To_array]"
  "to_overloads (T_list t) = [To_array]"
  "to_overloads (T_forward_list t) = [To_array]"
  "to_overloads (T_map k t) = [if constructible_string k \<and> constructible_json t then To_object else To_array]"
  "to_overloads T_void = []" "to_overloads T_nested = []" "to_overloads T_cstr = [To_string]"
  by (simp_all add: overload_defs)

lemma from_overloads_simps [simp]:
  "from_overloads T_bool = [From_bool]"
  "from_overloads T_string = [From_string]"
  "from_overloads (T_int w s) =
     [if w = 64 then if s then From_integer else From_unsigned else From_arithmetic]"
  "from_overloads (T_llong s) = [From_arithmetic]"
  "from_overloads T_float = [From_arithmetic]"
  "from_overloads T_double = [From_double]"
  "from_overloads (T_enum scoped w s) = (if scoped then [] else [From_enum])"
  "from_overloads (T_vector t) = [if t = T_json then From_array_t else From_array]"
  "from_overloads (T_list t) = [From_array]"
  "from_overloads (T_forward_list t) = [From_forward_list]"
  "from_overloads (T_map k t) = [if constructible_string k \<and> constructible_json t then From_object else From_array]"
  "from_overloads T_void = []" "from_overloads T_nested = []" "from_overloads T_cstr = []"
  by (simp_all add: overload_defs)

section \<open>Numbers\<close>

lemma wrap_int_cong:
  assumes "a mod 2 ^ 64 = b mod (2 ^ 64 :: int)" "w \<le> 64"
  shows "wrap_int w s a = wrap_int w s b"
proof -
  have d: "(2 :: int) ^ w dvd 2 ^ 64" by (rule le_imp_power_dvd [OF assms(2)])
  have "a mod 2 ^ w = b mod 2 ^ w" using assms(1) mod_mod_cancel [OF d] by metis
  then have "(a + 2 ^ (w - 1)) mod 2 ^ w = (b + 2 ^ (w - 1)) mod 2 ^ w" "a mod 2 ^ w = b mod 2 ^ w"
    by (auto intro: mod_add_cong)
  then show ?thesis by (simp add: wrap_int_def)
qed

lemma uint_mod: "uint (word_of_int n :: u64) mod 2 ^ 64 = n mod 2 ^ 64"
  by (simp add: unsigned_of_int take_bit_eq_mod)

lemma sint_mod: "sint (u :: u64) mod 2 ^ 64 = uint u mod 2 ^ 64"
proof -
  have "word_of_int (sint u) = u" by simp
  then show ?thesis using uint_mod [of "sint u"] by metis
qed

lemma wrap_word [simp]:
  "w \<le> 64 \<Longrightarrow> wrap_int w s (uint (word_of_int n :: u64)) = wrap_int w s n"
  "w \<le> 64 \<Longrightarrow> wrap_int w s (sint (word_of_int n :: u64)) = wrap_int w s n"
  by (rule wrap_int_cong, simp_all only: uint_mod sint_mod mod_mod_trivial)+

lemma wrap_uint [simp]: "wrap_int 64 False (uint (u :: u64)) = uint u"
  using uint_lt2p [of u] by (simp add: wrap_int_def)

lemma wrap_sint [simp]: "wrap_int 64 True (sint (u :: u64)) = sint u"
  using sint_ge [of u] sint_less [of u] by (simp add: wrap_int_def)

lemma wrap_across [simp]:
  "wrap_int 64 True (uint (u :: u64)) = sint u" "wrap_int 64 False (sint (u :: u64)) = uint u"
proof -
  have "wrap_int 64 s (sint u) = wrap_int 64 s (uint u)" for s
    by (rule wrap_int_cong) (simp_all only: sint_mod order_refl)
  from this [of True] this [of False]
  show "wrap_int 64 True (uint u) = sint u" "wrap_int 64 False (sint u) = uint u" by simp_all
qed

section \<open>Sequences\<close>

lemma res_map_eq_Inr: "res_map f xs = Inr ys \<longleftrightarrow> list_all2 (\<lambda>x y. f x = Inr y) xs ys"
  by (induction xs arbitrary: ys) (auto simp: res_simps list_all2_Cons1)

lemma res_map_back:
  assumes "\<And>x. x \<in> set xs \<Longrightarrow> \<exists>y. f x = Inr y \<and> g y = Inr x"
  shows "\<exists>ys. res_map f xs = Inr ys \<and> res_map g ys = Inr xs"
  using assms
proof (induction xs)
  case (Cons x xs)
  from Cons.prems [of x] obtain y where "f x = Inr y" "g y = Inr x" by auto
  moreover from Cons obtain ys where "res_map f xs = Inr ys" "res_map g ys = Inr xs" by auto
  ultimately show ?case by (intro exI [of _ "y # ys"]) simp
qed simp

lemma res_map_rev: "res_map f xs = Inr ys \<Longrightarrow> res_map f (rev xs) = Inr (rev ys)"
  by (simp add: res_map_eq_Inr)

lemma fold_Cons: "fold (#) xs ys = rev xs @ ys"
  by (induction xs arbitrary: ys) simp_all

text \<open>The exception of a conversion is that of the first element that does not convert.\<close>

lemma res_map_eq_Inl:
  "res_map f xs = Inl e \<longleftrightarrow> (\<exists>ys x zs. xs = ys @ x # zs \<and> f x = Inl e \<and> (\<forall>y\<in>set ys. \<exists>v. f y = Inr v))"
    (is "_ \<longleftrightarrow> ?first xs")
proof (induction xs)
  case (Cons x xs)
  have "?first (x # xs) \<longleftrightarrow> f x = Inl e \<or> (\<exists>v. f x = Inr v) \<and> ?first xs" (is "?l \<longleftrightarrow> ?r")
  proof
    assume ?l
    then obtain ys y zs where "x # xs = ys @ y # zs" "f y = Inl e" "\<forall>y\<in>set ys. \<exists>v. f y = Inr v" by blast
    then show ?r by (cases ys) auto
  next
    assume ?r
    then show ?l
    proof (elim disjE conjE exE)
      assume "f x = Inl e"
      then show ?l by (intro exI [of _ "[]"]) simp
    next
      fix v ys y zs
      assume "f x = Inr v" "xs = ys @ y # zs" "f y = Inl e" "\<forall>y\<in>set ys. \<exists>v. f y = Inr v"
      then show ?l by (intro exI [of _ "x # ys"] exI [of _ y] exI [of _ zs]) simp
    qed
  qed
  with Cons show ?case by (cases "f x") (auto simp: res_simps)
qed simp

lemma res_map_rev_Inl:
  "res_map f (rev xs) = Inl e \<longleftrightarrow> (\<exists>ys x zs. xs = ys @ x # zs \<and> f x = Inl e \<and> (\<forall>z\<in>set zs. \<exists>v. f z = Inr v))"
proof
  assume "res_map f (rev xs) = Inl e"
  then obtain ys x zs where "rev xs = ys @ x # zs" "f x = Inl e" "\<forall>y\<in>set ys. \<exists>v. f y = Inr v"
    unfolding res_map_eq_Inl by blast
  then show "\<exists>ys x zs. xs = ys @ x # zs \<and> f x = Inl e \<and> (\<forall>z\<in>set zs. \<exists>v. f z = Inr v)"
    by (intro exI [of _ "rev zs"] exI [of _ x] exI [of _ "rev ys"]) (simp add: rev_swap)
next
  assume "\<exists>ys x zs. xs = ys @ x # zs \<and> f x = Inl e \<and> (\<forall>z\<in>set zs. \<exists>v. f z = Inr v)"
  then obtain ys x zs where "xs = ys @ x # zs" "f x = Inl e" "\<forall>z\<in>set zs. \<exists>v. f z = Inr v" by blast
  then show "res_map f (rev xs) = Inl e"
    unfolding res_map_eq_Inl by (intro exI [of _ "rev zs"] exI [of _ x] exI [of _ "rev ys"]) simp
qed

section \<open>There and back\<close>

text \<open>
  The values of a type: integers in its range, \<open>float\<close>s that are doubles of that precision, both finite, maps
  in the order of their keys.
\<close>

fun fits :: "'d cpp_lib \<Rightarrow> ctype \<Rightarrow> 'd cval \<Rightarrow> bool" where
  "fits L T_json v = (case v of C_json j \<Rightarrow> True | _ \<Rightarrow> False)"
| "fits L T_bool v = (case v of C_bool b \<Rightarrow> True | _ \<Rightarrow> False)"
| "fits L T_string v = (case v of C_string s \<Rightarrow> True | _ \<Rightarrow> False)"
| "fits L (T_int w s) v = (case v of C_int n \<Rightarrow> wrap_int w s n = n | _ \<Rightarrow> False)"
| "fits L (T_llong s) v = (case v of C_int n \<Rightarrow> wrap_int 64 s n = n | _ \<Rightarrow> False)"
| "fits L T_float v = (case v of C_float d \<Rightarrow> c_single L d = d \<and> d_isfinite (c_dbl L) d | _ \<Rightarrow> False)"
| "fits L T_double v = (case v of C_float d \<Rightarrow> d_isfinite (c_dbl L) d | _ \<Rightarrow> False)"
| "fits L (T_enum scoped w s) v = (case v of C_int n \<Rightarrow> wrap_int w s n = n | _ \<Rightarrow> False)"
| "fits L (T_vector t) v = (case v of C_seq xs \<Rightarrow> list_all (fits L t) xs | _ \<Rightarrow> False)"
| "fits L (T_list t) v = (case v of C_seq xs \<Rightarrow> list_all (fits L t) xs | _ \<Rightarrow> False)"
| "fits L (T_forward_list t) v = (case v of C_seq xs \<Rightarrow> list_all (fits L t) xs | _ \<Rightarrow> False)"
| "fits L (T_map k t) v =
     (case v of C_map m \<Rightarrow> map_sorted m \<and> list_all (\<lambda>e. fits L t (snd e)) m | _ \<Rightarrow> False)"
| "fits L t v = False"

lemma json_of_to: "t \<noteq> T_json \<Longrightarrow> json_of L t v = to_json L t v"
  by (simp add: json_of.simps)

lemma to_json_simps:
  "to_json L T_bool (C_bool b) = Inr (JBool b)"
  "to_json L T_string (C_string s) = Inr (JString s)"
  "to_json L (T_int w False) (C_int n) = Inr (JUint (word_of_int n))"
  "to_json L (T_int w True) (C_int n) = Inr (JInt (word_of_int n))"
  "to_json L (T_llong False) (C_int n) = Inr (JUint (word_of_int n))"
  "to_json L (T_llong True) (C_int n) = Inr (JInt (word_of_int n))"
  "to_json L (T_enum False w sg) (C_int n) = Inr (JInt (word_of_int n))"
  "to_json L T_float (C_float d) = Inr (if d_isfinite (c_dbl L) d then JFloat d else JNull)"
  "to_json L T_double (C_float d) = Inr (if d_isfinite (c_dbl L) d then JFloat d else JNull)"
  "to_json L (T_vector t) (C_seq xs) = res_bind (res_map (json_of L t) xs) (\<lambda>js. Inr (JArray js))"
  "to_json L (T_list t) (C_seq xs) = res_bind (res_map (json_of L t) xs) (\<lambda>js. Inr (JArray js))"
  "to_json L (T_forward_list t) (C_seq xs) = res_bind (res_map (json_of L t) xs) (\<lambda>js. Inr (JArray js))"
  by (subst to_json.simps, simp add: construct_boolean_def construct_string_def construct_float_def
      construct_unsigned_def construct_integer_def construct_array_def)+

lemma json_of_simps [simp]:
  "json_of L T_json (C_json j) = Inr j"
  "json_of L T_bool (C_bool b) = Inr (JBool b)"
  "json_of L T_string (C_string s) = Inr (JString s)"
  "json_of L (T_int w sg) (C_int n) = Inr (if sg then JInt (word_of_int n) else JUint (word_of_int n))"
  "json_of L (T_llong sg) (C_int n) = Inr (if sg then JInt (word_of_int n) else JUint (word_of_int n))"
  "json_of L (T_enum False w sg) (C_int n) = Inr (JInt (word_of_int n))"
  "json_of L T_float (C_float d) = Inr (if d_isfinite (c_dbl L) d then JFloat d else JNull)"
  "json_of L T_double (C_float d) = Inr (if d_isfinite (c_dbl L) d then JFloat d else JNull)"
  "json_of L (T_vector t) (C_seq xs) = res_bind (res_map (json_of L t) xs) (\<lambda>js. Inr (JArray js))"
  "json_of L (T_list t) (C_seq xs) = res_bind (res_map (json_of L t) xs) (\<lambda>js. Inr (JArray js))"
  "json_of L (T_forward_list t) (C_seq xs) = res_bind (res_map (json_of L t) xs) (\<lambda>js. Inr (JArray js))"
  by (simp add: json_of.simps) (cases sg; simp add: json_of_to to_json_simps)+

lemma json_of_map [simp]:
  "constructible_json t \<Longrightarrow> json_of L (T_map T_string t) (C_map m) =
     res_bind (res_map (\<lambda>(key, v). res_bind (json_of L t v) (\<lambda>j. Inr (key, j))) m)
       (\<lambda>kvs. Inr (JObject (fold (\<lambda>(key, val). map_emplace key val) kvs [])))"
  by (simp add: json_of_to, subst to_json.simps)
    (simp add: constructible_string_def construct_object_def)

lemma get_simps [simp]:
  "get L T_json j = Inr (C_json j)"
  "get L T_bool j = res_bind (get_bool j) (\<lambda>b. Inr (C_bool b))"
  "get L T_string j = res_bind (get_string j) (\<lambda>s. Inr (C_string s))"
  "get L (T_int w sg) j =
     (if w = 64 then get_arithmetic_value L (T_int w sg) j else from_json_arithmetic L (T_int w sg) j)"
  "get L (T_llong sg) j = from_json_arithmetic L (T_llong sg) j"
  "get L T_float j = from_json_arithmetic L T_float j"
  "get L T_double j = get_arithmetic_value L T_double j"
  "get L (T_enum False w sg) j = get_arithmetic_value L (T_int w sg) j"
  by (subst get.simps, simp add: from_json.simps)+

lemma get_array_t [simp]:
  "get L array_t j = (case j of JArray xs \<Rightarrow> Inr (C_seq (map C_json xs)) | _ \<Rightarrow> Inl (must_be ''array'' j))"
  by (subst get.simps, simp add: from_json.simps)

lemma get_sequence [simp]:
  "t \<noteq> T_json \<Longrightarrow> get L (T_vector t) j = res_bind (check_array t j) (\<lambda>_.
     res_bind (res_map (get L t) (json_range j)) (\<lambda>vs. Inr (C_seq vs)))"
  "get L (T_list t) j = res_bind (check_array t j) (\<lambda>_.
     res_bind (res_map (get L t) (json_range j)) (\<lambda>vs. Inr (C_seq vs)))"
  "get L (T_forward_list t) j = res_bind (check_array t j) (\<lambda>_.
     res_bind (res_map (get L t) (rev (json_range j))) (\<lambda>vs. Inr (C_seq (rev vs))))"
  by (subst get.simps, simp, subst from_json.simps, simp add: fold_Cons)+

lemma get_map [simp]:
  "constructible_json t \<Longrightarrow> get L (T_map T_string t) (JObject m) =
     res_bind (res_map (\<lambda>(key, x). res_bind (get L t x) (\<lambda>v. Inr (key, v))) m)
       (\<lambda>kvs. Inr (C_map (fold (\<lambda>(key, v). map_emplace key v) kvs [])))"
  by (subst get.simps, simp, subst from_json.simps) (simp add: constructible_string_def)

lemmas arithmetic_defs = get_arithmetic_value_def from_json_arithmetic_def cast_u64_def cast_i64_def cast_double_def

lemma convert_array:
  assumes "\<And>v. v \<in> set xs \<Longrightarrow> \<exists>j. json_of L t v = Inr j \<and> get L t j = Inr v"
  shows "\<exists>js. res_map (json_of L t) xs = Inr js \<and> res_map (get L t) js = Inr xs"
  using res_map_back [of xs "json_of L t" "get L t"] assms by blast

lemma convert_members:
  assumes "\<And>e. e \<in> set m \<Longrightarrow> \<exists>j. json_of L t (snd e) = Inr j \<and> get L t j = Inr (snd e)"
  shows "\<exists>kvs. res_map (\<lambda>(key, v). res_bind (json_of L t v) (\<lambda>j. Inr (key, j))) m = Inr kvs
    \<and> res_map (\<lambda>(key, x). res_bind (get L t x) (\<lambda>v. Inr (key, v))) kvs = Inr m \<and> map fst kvs = map fst m"
proof -
  have "\<exists>kvs. res_map (\<lambda>(key, v). res_bind (json_of L t v) (\<lambda>j. Inr (key, j))) m = Inr kvs
      \<and> res_map (\<lambda>(key, x). res_bind (get L t x) (\<lambda>v. Inr (key, v))) kvs = Inr m"
    by (rule res_map_back) (use assms in \<open>fastforce split: prod.splits\<close>)
  then obtain kvs where k: "res_map (\<lambda>(key, v). res_bind (json_of L t v) (\<lambda>j. Inr (key, j))) m = Inr kvs"
      "res_map (\<lambda>(key, x). res_bind (get L t x) (\<lambda>v. Inr (key, v))) kvs = Inr m" by blast
  have "list_all2 (\<lambda>e e'. fst e = fst e') m kvs"
    using k(1) unfolding res_map_eq_Inr by (rule list_all2_mono) (auto simp: res_simps)
  then have "map fst kvs = map fst m"
    by (auto simp: list_all2_conv_all_nth intro: nth_equalityI)
  with k show ?thesis by blast
qed

lemma convert_sequence:
  assumes "\<And>v. fits L t v \<Longrightarrow> \<exists>j. json_of L t v = Inr j \<and> get L t j = Inr v" "list_all (fits L t) xs"
  obtains js where "res_map (json_of L t) xs = Inr js" "res_map (get L t) js = Inr xs"
proof -
  have "\<exists>js. res_map (json_of L t) xs = Inr js \<and> res_map (get L t) js = Inr xs"
    by (rule convert_array) (use assms in \<open>simp add: list_all_iff\<close>)
  with that show thesis by blast
qed

lemmas sequence_defs = check_array_def is_null_def is_array_def json_range_def

lemma convert_back: "convertible t \<Longrightarrow> fits L t v \<Longrightarrow> \<exists>j. json_of L t v = Inr j \<and> get L t j = Inr v"
proof (induction t arbitrary: v)
  case (T_vector t)
  then obtain xs where v: "v = C_seq xs" "list_all (fits L t) xs" by (cases v) auto
  obtain js where js: "res_map (json_of L t) xs = Inr js" "res_map (get L t) js = Inr xs"
    by (rule convert_sequence [OF _ v(2)]) (use T_vector in simp)
  show ?case
  proof (cases "t = T_json")
    case True
    then have "map C_json js = xs"
      using js(2) by (auto simp: res_map_eq_Inr list_all2_conv_all_nth intro: nth_equalityI)
    with v js True show ?thesis by simp
  next
    case False
    with v js show ?thesis by (simp add: sequence_defs)
  qed
next
  case (T_list t)
  then obtain xs where v: "v = C_seq xs" "list_all (fits L t) xs" by (cases v) auto
  obtain js where "res_map (json_of L t) xs = Inr js" "res_map (get L t) js = Inr xs"
    by (rule convert_sequence [OF _ v(2)]) (use T_list in simp)
  with v show ?case by (simp add: sequence_defs)
next
  case (T_forward_list t)
  then obtain xs where v: "v = C_seq xs" "list_all (fits L t) xs" by (cases v) auto
  obtain js where "res_map (json_of L t) xs = Inr js" "res_map (get L t) js = Inr xs"
    by (rule convert_sequence [OF _ v(2)]) (use T_forward_list in simp)
  with v show ?case by (simp add: sequence_defs res_map_rev)
next
  case (T_map k t)
  then obtain m where v: "v = C_map m" "map_sorted m" "list_all (\<lambda>e. fits L t (snd e)) m" by (cases v) auto
  have t: "k = T_string" "convertible t" "constructible_json t"
    using T_map.prems(1) convertible_constructible by auto
  have "\<exists>j. json_of L t (snd e) = Inr j \<and> get L t j = Inr (snd e)" if "e \<in> set m" for e
    using T_map.IH(2) t(2) that v(3) by (simp add: list_all_iff)
  from convert_members [OF this] obtain kvs where
    kvs: "res_map (\<lambda>(key, v). res_bind (json_of L t v) (\<lambda>j. Inr (key, j))) m = Inr kvs"
      "res_map (\<lambda>(key, x). res_bind (get L t x) (\<lambda>v. Inr (key, v))) kvs = Inr m" "map fst kvs = map fst m"
    by blast
  have "map_sorted kvs" using v(2) kvs(3) by (simp add: map_sorted_def)
  then have "fold (\<lambda>(key, val). map_emplace key val) kvs [] = kvs"
    "fold (\<lambda>(key, val). map_emplace key val) m [] = m"
    using emplace_sorted [of "[]"] v(2) by simp_all
  with v t kvs show ?case by simp
next
  case (T_enum scoped w sg)
  then obtain n where "v = C_int n" "wrap_int w sg n = n" "\<not> scoped" "w \<le> 64" by (cases v) auto
  then show ?case by (simp add: arithmetic_defs)
next
  case (T_int w sg)
  then obtain n where "v = C_int n" "wrap_int w sg n = n" "w \<le> 64" by (cases v) auto
  then show ?case by (cases sg) (auto simp: arithmetic_defs)
next
  case (T_llong sg)
  then obtain n where "v = C_int n" "wrap_int 64 sg n = n" by (cases v) auto
  then show ?case by (cases sg) (simp_all add: arithmetic_defs)
next
  case T_float
  then show ?case by (cases v) (simp_all add: arithmetic_defs)
next
  case T_double
  then show ?case by (cases v) (simp_all add: arithmetic_defs)
next
  case T_bool
  then show ?case by (cases v) (simp_all add: get_bool_def)
next
  case T_string
  then show ?case by (cases v) (simp_all add: get_string_def is_string_def)
next
  case T_json
  then show ?case by (cases v) simp_all
qed simp_all

section \<open>Properties\<close>

text \<open>
  Property C19: what is converted to JSON converts back: a value of a convertible C++ type, with containers
  nested to any depth, makes a JSON value, and \<open>get\<close> with the same type gives that value again. The
  numbers have to be finite and in the range of their type.
\<close>

theorem convert_roundtrip:
  assumes "convertible t" "fits L t v"
  shows "\<exists>j. json_of L t v = Inr j \<and> get L t j = Inr v"
  by (rule convert_back [OF assms])

definition int_cpp :: "int cpp_lib" where
  "int_cpp = \<lparr>c_dbl = int_dbl, c_single = (\<lambda>d. d), c_single_i64 = sint, c_single_u64 = uint,
     c_to_int = (\<lambda>w s d. wrap_int w s d)\<rparr>"

theorem convert_roundtrip_witness:
  "\<exists>j. json_of int_cpp (T_map T_string (T_forward_list (T_int 8 True)))
       (C_map [(''a'', C_seq [C_int (- 128), C_int 127]), (''b'', C_seq [])]) = Inr j
     \<and> get int_cpp (T_map T_string (T_forward_list (T_int 8 True))) j
       = Inr (C_map [(''a'', C_seq [C_int (- 128), C_int 127]), (''b'', C_seq [])])"
  by (rule convert_roundtrip) (simp_all add: wrap_int_def map_sorted_def)

text \<open>
  The conditions of the overloads exclude each other: for no type are two overloads of
  \<open>to_json\<close> or of \<open>from_json\<close> left to choose from, and for a convertible type there is one of each.
\<close>

theorem overload_unique:
  "length (to_overloads t) \<le> 1 \<and> length (from_overloads t) \<le> 1
   \<and> (convertible t \<longrightarrow> t = T_json \<or> to_overloads t \<noteq> [] \<and> from_overloads t \<noteq> [])"
proof (cases t)
  case T_json
  then show ?thesis by (simp add: overload_defs)
qed auto

theorem overload_unique_witness:
  "length (from_overloads (T_forward_list (T_map T_cstr T_void))) \<le> 1 \<and> from_overloads (T_list T_bool) \<noteq> []"
  using overload_unique [of "T_forward_list (T_map T_cstr T_void)"] overload_unique [of "T_list T_bool"] by simp

text \<open>
  A double that is not finite is written as null and comes back as 0; a \<open>float\<close> does not come back, there
  null is an error.
\<close>

theorem nonfinite_lost:
  assumes "\<not> d_isfinite (c_dbl L) d"
  shows "json_of L T_double (C_float d) = Inr JNull \<and> json_of L T_float (C_float d) = Inr JNull
    \<and> get L T_double JNull = Inr (C_float (d_zero (c_dbl L)))
    \<and> get L T_float JNull = Inl (Domain_error ''type must be number, but is null'')"
  using assms by (simp add: arithmetic_defs is_null_def)

theorem nonfinite_lost_witness:
  "\<exists>L d. json_of L T_double (C_float (d :: nat)) = Inr JNull \<and> get L T_double JNull \<noteq> Inr (C_float d)"
proof -
  let ?L = "\<lparr>c_dbl = \<lparr>d_of_i64 = unat, d_of_u64 = unat, d_to_i64 = of_nat, d_to_u64 = of_nat,
     d_eq = (=), d_lt = (<), d_is_zero = (\<lambda>d. d = 0), d_signbit = (\<lambda>d. False), d_isfinite = (\<lambda>d. d < 9),
     d_strtod = length, d_print = string_of_nat, d_zero = 0\<rparr>, c_single = (\<lambda>d. d), c_single_i64 = unat,
     c_single_u64 = unat, c_to_int = (\<lambda>w s d. int d)\<rparr>"
  show ?thesis using nonfinite_lost [of ?L 9] by (intro exI [of _ ?L] exI [of _ 9]) simp
qed

text \<open>
  The conversions of the program are the two cases for 64 bits: \<open>get<long>\<close> by \<open>get_arithmetic_value\<close>,
  \<open>get<long long>\<close> by the overload for other numbers.
\<close>

lemma get_long_cval:
  "get L (T_int 64 True) j = res_bind (get_long (c_dbl L) j) (\<lambda>n. Inr (C_int (sint n)))"
  "get L (T_llong True) j = res_bind (get_long_long (c_dbl L) j) (\<lambda>n. Inr (C_int (sint n)))"
  by (cases j; simp add: arithmetic_defs get_long_def get_long_long_def is_null_def)+

text \<open>A number that does not fit the integer type is cut to its width, without an error.\<close>

lemma get_narrow:
  "w \<noteq> 64 \<Longrightarrow> get L (T_int w sg) (JInt i) = Inr (C_int (wrap_int w sg (sint i)))"
  "w \<noteq> 64 \<Longrightarrow> get L (T_int w sg) (JUint u) = Inr (C_int (wrap_int w sg (uint u)))"
  by (simp_all add: arithmetic_defs)

text \<open>
  Which element is blamed: the exception of a conversion of an array to a \<open>list\<close> is that of the first
  element that does not convert, of a conversion to a \<open>forward_list\<close> that of the last one.
\<close>

theorem first_failure:
  "get L (T_list t) (JArray xs) = Inl e \<longleftrightarrow>
     (\<exists>ys x zs. xs = ys @ x # zs \<and> get L t x = Inl e \<and> (\<forall>y\<in>set ys. \<exists>v. get L t y = Inr v))"
  "get L (T_forward_list t) (JArray xs) = Inl e \<longleftrightarrow>
     (\<exists>ys x zs. xs = ys @ x # zs \<and> get L t x = Inl e \<and> (\<forall>z\<in>set zs. \<exists>v. get L t z = Inr v))"
proof -
  show "get L (T_list t) (JArray xs) = Inl e \<longleftrightarrow>
     (\<exists>ys x zs. xs = ys @ x # zs \<and> get L t x = Inl e \<and> (\<forall>y\<in>set ys. \<exists>v. get L t y = Inr v))"
    by (simp add: sequence_defs res_simps res_map_eq_Inl)
  have "get L (T_forward_list t) (JArray xs) = Inl e \<longleftrightarrow> res_map (get L t) (rev xs) = Inl e"
    by (simp add: sequence_defs res_simps)
  also have "\<dots> \<longleftrightarrow> (\<exists>ys x zs. xs = ys @ x # zs \<and> get L t x = Inl e \<and> (\<forall>z\<in>set zs. \<exists>v. get L t z = Inr v))"
    by (rule res_map_rev_Inl)
  finally show "get L (T_forward_list t) (JArray xs) = Inl e \<longleftrightarrow>
     (\<exists>ys x zs. xs = ys @ x # zs \<and> get L t x = Inl e \<and> (\<forall>z\<in>set zs. \<exists>v. get L t z = Inr v))" .
qed

text \<open>
  A \<open>list\<close> of JSON values is made of every value but null, of a number the list of that number; a \<open>vector\<close>
  of JSON values is made of arrays only.
\<close>

theorem list_of_scalar:
  "get L (T_list T_json) (JInt i) = Inr (C_seq [C_json (JInt i)])
   \<and> get L (T_list T_json) (JObject m) = Inr (C_seq (map (C_json \<circ> snd) m))
   \<and> get L array_t (JInt i) = Inl (Domain_error ''type must be array, but is number'')"
proof -
  have "res_map (get L T_json) xs = Inr (map C_json xs)" for xs by (induction xs) simp_all
  then show ?thesis by (simp add: sequence_defs must_be_def)
qed

text \<open>
  A reference to a signed integer can be had of an unsigned number: \<open>-1\<close> written through it makes
  the largest unsigned number, and the type does not change.
\<close>

theorem integer_ref_of_unsigned:
  "get_ref ptr_integer put_integer (\<lambda>_. word_of_int (- 1)) (JUint u) = Inr (word_of_int (- 1), JUint (2 ^ 64 - 1))
   \<and> get_ref ptr_unsigned (\<lambda>u. put_stored (JUint u)) f (JInt i)
     = Inl (Domain_error ''incompatible ReferenceType for get_ref, actual type is number'')"
  by (simp add: get_ref_def ptr_defs)

text \<open>
  What is written through a reference is read back through it, and the type of the value stays, for
  every type of reference; only integers share a place.
\<close>

theorem references_read_back:
  "get_ref ptr_string (\<lambda>s. put_stored (JString s)) f j = Inr (s, j') \<Longrightarrow>
     ptr_string j' = Some s \<and> json_type j' = json_type j"
  "get_ref ptr_object (\<lambda>m. put_stored (JObject m)) g j = Inr (m, j') \<Longrightarrow>
     ptr_object j' = Some m \<and> json_type j' = json_type j"
  "get_ref ptr_integer put_integer h j = Inr (i, j') \<Longrightarrow> ptr_integer j' = Some i \<and> json_type j' = json_type j"
  using string_part.ref_reads_back object_part.ref_reads_back integer_part.ref_reads_back by blast+

text \<open>
  \<open>value\<close> gives the converted member or the default, and throws for values that are not objects, and
  where the member does not convert: the default is not for members of another type.
\<close>

theorem json_value_cases:
  "json_value L t key d j = Inl e \<longleftrightarrow>
     (case j of JObject m \<Rightarrow> (\<exists>x. map_of m key = Some x \<and> get L t x = Inl e)
      | _ \<Rightarrow> e = Domain_error (''cannot use value() with '' @ type_name j))"
  "json_value L t key d (JObject m) = Inr v \<longleftrightarrow>
     (if key \<in> fst ` set m then get L t (the (map_of m key)) = Inr v else v = d)"
  by (auto simp: json_value_def map_of_eq_None_iff split: json.splits option.splits)
    (metis map_of_eq_None_iff option.distinct(1))+

end
