(* ===== verification/JsonCompare.thy ===== *)
theory JsonCompare
  imports JsonRoundtrip
begin

text \<open>
  \<open>include/json.h\<close>, the comparison operators of values. Numbers of different types are converted
  first: an integer to a floating-point number, an unsigned integer to a signed one. Arrays and
  objects compare as \<open>std::vector\<close> and \<open>std::map\<close> do, element by element.
\<close>

section \<open>The operators\<close>

fun json_eq :: "'d dbl_lib \<Rightarrow> 'd json \<Rightarrow> 'd json \<Rightarrow> bool"
  and elements_eq :: "'d dbl_lib \<Rightarrow> 'd json list \<Rightarrow> 'd json list \<Rightarrow> bool"
  and members_eq :: "'d dbl_lib \<Rightarrow> (string \<times> 'd json) list \<Rightarrow> (string \<times> 'd json) list \<Rightarrow> bool" where
  "json_eq fl (JArray xs) rhs = (case rhs of JArray ys \<Rightarrow> elements_eq fl xs ys | _ \<Rightarrow> False)"
| "json_eq fl (JObject m) rhs = (case rhs of JObject n \<Rightarrow> members_eq fl m n | _ \<Rightarrow> False)"
| "json_eq fl JNull rhs = (case rhs of JNull \<Rightarrow> True | _ \<Rightarrow> False)"
| "json_eq fl (JString s) rhs = (case rhs of JString t \<Rightarrow> s = t | _ \<Rightarrow> False)"
| "json_eq fl (JBool a) rhs = (case rhs of JBool b \<Rightarrow> a = b | _ \<Rightarrow> False)"
| "json_eq fl (JInt i) rhs =
     (case rhs of JInt k \<Rightarrow> i = k | JFloat e \<Rightarrow> d_eq fl (d_of_i64 fl i) e | JUint v \<Rightarrow> i = v | _ \<Rightarrow> False)"
| "json_eq fl (JUint u) rhs =
     (case rhs of JUint v \<Rightarrow> u = v | JFloat e \<Rightarrow> d_eq fl (d_of_u64 fl u) e | JInt k \<Rightarrow> u = k | _ \<Rightarrow> False)"
| "json_eq fl (JFloat d) rhs =
     (case rhs of JFloat e \<Rightarrow> d_eq fl d e | JInt k \<Rightarrow> d_eq fl d (d_of_i64 fl k)
      | JUint v \<Rightarrow> d_eq fl d (d_of_u64 fl v) | _ \<Rightarrow> False)"
| "json_eq fl JDiscarded rhs = False"
| "elements_eq fl [] [] = True"
| "elements_eq fl (x # xs) (y # ys) = (json_eq fl x y \<and> elements_eq fl xs ys)"
| "elements_eq fl [] (y # ys) = False"
| "elements_eq fl (x # xs) [] = False"
| "members_eq fl [] [] = True"
| "members_eq fl ((k, v) # m) ((l, w) # n) = (k = l \<and> json_eq fl v w \<and> members_eq fl m n)"
| "members_eq fl [] (e # n) = False"
| "members_eq fl (e # m) [] = False"

text \<open>
  \<open>operator<\<close>. \<open>std::lexicographical_compare\<close> asks \<open>x < y\<close>, then \<open>y < x\<close>; the members of an object
  are pairs, whose \<open><\<close> looks at the keys first.
\<close>

function json_lt :: "'d dbl_lib \<Rightarrow> 'd json \<Rightarrow> 'd json \<Rightarrow> bool"
  and elements_lt :: "'d dbl_lib \<Rightarrow> 'd json list \<Rightarrow> 'd json list \<Rightarrow> bool"
  and members_lt :: "'d dbl_lib \<Rightarrow> (string \<times> 'd json) list \<Rightarrow> (string \<times> 'd json) list \<Rightarrow> bool" where
  "json_lt fl (JArray xs) rhs =
     (case rhs of JArray ys \<Rightarrow> elements_lt fl xs ys | _ \<Rightarrow> type_less V_array (json_type rhs))"
| "json_lt fl (JObject m) rhs =
     (case rhs of JObject n \<Rightarrow> members_lt fl m n | _ \<Rightarrow> type_less V_object (json_type rhs))"
| "json_lt fl JNull rhs = (case rhs of JNull \<Rightarrow> False | _ \<Rightarrow> type_less V_null (json_type rhs))"
| "json_lt fl (JString s) rhs = (case rhs of JString t \<Rightarrow> s < t | _ \<Rightarrow> type_less V_string (json_type rhs))"
| "json_lt fl (JBool a) rhs = (case rhs of JBool b \<Rightarrow> a < b | _ \<Rightarrow> type_less V_boolean (json_type rhs))"
| "json_lt fl (JInt i) rhs =
     (case rhs of JInt k \<Rightarrow> sint i < sint k | JFloat e \<Rightarrow> d_lt fl (d_of_i64 fl i) e
      | JUint v \<Rightarrow> sint i < sint v | _ \<Rightarrow> type_less V_number_integer (json_type rhs))"
| "json_lt fl (JUint u) rhs =
     (case rhs of JUint v \<Rightarrow> u < v | JFloat e \<Rightarrow> d_lt fl (d_of_u64 fl u) e
      | JInt k \<Rightarrow> sint u < sint k | _ \<Rightarrow> type_less V_number_unsigned (json_type rhs))"
| "json_lt fl (JFloat d) rhs =
     (case rhs of JFloat e \<Rightarrow> d_lt fl d e | JInt k \<Rightarrow> d_lt fl d (d_of_i64 fl k)
      | JUint v \<Rightarrow> d_lt fl d (d_of_u64 fl v) | _ \<Rightarrow> type_less V_number_float (json_type rhs))"
| "json_lt fl JDiscarded rhs =
     (case rhs of JDiscarded \<Rightarrow> False | _ \<Rightarrow> type_less V_discarded (json_type rhs))"
| "elements_lt fl (x # xs) (y # ys) =
     (if json_lt fl x y then True else if json_lt fl y x then False else elements_lt fl xs ys)"
| "elements_lt fl [] ys = (ys \<noteq> [])"
| "elements_lt fl (x # xs) [] = False"
| "members_lt fl ((k, v) # m) ((l, w) # n) =
     (if k < l \<or> \<not> l < k \<and> json_lt fl v w then True
      else if l < k \<or> \<not> k < l \<and> json_lt fl w v then False
      else members_lt fl m n)"
| "members_lt fl [] n = (n \<noteq> [])"
| "members_lt fl (e # m) [] = False"
  by pat_completeness auto
termination
  by (relation "measure (case_sum (\<lambda>(_, a, b). size a + size b)
        (case_sum (\<lambda>(_, xs, ys). size_list size xs + size_list size ys)
          (\<lambda>(_, m, n). size_list (size_prod (\<lambda>_. 0) size) m + size_list (size_prod (\<lambda>_. 0) size) n)))") auto

text \<open>The derived operators, as the code defines them from the two.\<close>

definition json_ne :: "'d dbl_lib \<Rightarrow> 'd json \<Rightarrow> 'd json \<Rightarrow> bool" where
  "json_ne fl lhs rhs \<longleftrightarrow> \<not> json_eq fl lhs rhs"

definition json_le :: "'d dbl_lib \<Rightarrow> 'd json \<Rightarrow> 'd json \<Rightarrow> bool" where
  "json_le fl lhs rhs \<longleftrightarrow> \<not> json_lt fl rhs lhs"

definition json_gt :: "'d dbl_lib \<Rightarrow> 'd json \<Rightarrow> 'd json \<Rightarrow> bool" where
  "json_gt fl lhs rhs \<longleftrightarrow> \<not> json_le fl lhs rhs"

definition json_ge :: "'d dbl_lib \<Rightarrow> 'd json \<Rightarrow> 'd json \<Rightarrow> bool" where
  "json_ge fl lhs rhs \<longleftrightarrow> \<not> json_lt fl lhs rhs"

section \<open>A normal form\<close>

text \<open>Values without floating-point numbers, and their normal form: all integers are signed.\<close>

function exact :: "'d json \<Rightarrow> bool" where
  "exact JNull = True"
| "exact (JObject m) = (\<forall>e\<in>set m. exact (snd e))"
| "exact (JArray xs) = (\<forall>x\<in>set xs. exact x)"
| "exact (JString s) = True"
| "exact (JBool b) = True"
| "exact (JInt i) = True"
| "exact (JUint u) = True"
| "exact (JFloat d) = False"
| "exact JDiscarded = False"
  by pat_completeness auto
termination
  by (relation "measure size") (auto dest!: json_size simp del: json.size)

function signed_form :: "'d json \<Rightarrow> 'd json" where
  "signed_form JNull = JNull"
| "signed_form (JObject m) = JObject (map (\<lambda>e. (fst e, signed_form (snd e))) m)"
| "signed_form (JArray xs) = JArray (map signed_form xs)"
| "signed_form (JString s) = JString s"
| "signed_form (JBool b) = JBool b"
| "signed_form (JInt i) = JInt i"
| "signed_form (JUint u) = JInt u"
| "signed_form (JFloat d) = JFloat d"
| "signed_form JDiscarded = JDiscarded"
  by pat_completeness auto
termination
  by (relation "measure size") (auto dest!: json_size simp del: json.size)

text \<open>
  Values without floating-point numbers, of which nothing is discarded, and whose unsigned numbers fit
  in a signed one.
\<close>

function fits_signed :: "'d json \<Rightarrow> bool" where
  "fits_signed JNull = True"
| "fits_signed (JObject m) = (\<forall>e\<in>set m. fits_signed (snd e))"
| "fits_signed (JArray xs) = (\<forall>x\<in>set xs. fits_signed x)"
| "fits_signed (JString s) = True"
| "fits_signed (JBool b) = True"
| "fits_signed (JInt i) = True"
| "fits_signed (JUint u) = (unat u < 2 ^ 63)"
| "fits_signed (JFloat d) = False"
| "fits_signed JDiscarded = False"
  by pat_completeness auto
termination
  by (relation "measure size") (auto dest!: json_size simp del: json.size)

lemma eq_signed_form:
  "exact a \<Longrightarrow> exact b \<Longrightarrow> json_eq fl a b \<longleftrightarrow> signed_form a = signed_form b"
  "\<forall>x\<in>set xs. exact x \<Longrightarrow> \<forall>y\<in>set ys. exact y \<Longrightarrow>
     elements_eq fl xs ys \<longleftrightarrow> map signed_form xs = map signed_form ys"
  "\<forall>e\<in>set m. exact (snd e) \<Longrightarrow> \<forall>e\<in>set n. exact (snd e) \<Longrightarrow>
     members_eq fl m n \<longleftrightarrow> map (\<lambda>e. (fst e, signed_form (snd e))) m = map (\<lambda>e. (fst e, signed_form (snd e))) n"
  by (induction fl a b and fl xs ys and fl m n rule: json_eq_elements_eq_members_eq.induct)
    (auto split: json.splits)

section \<open>The order as a lexicographic order\<close>

text \<open>
  The reference: a value is written as a list of integers, prefix-free, its type first; the order of
  values is the lexicographic order of these lists.
\<close>

definition text_key :: "string \<Rightarrow> int list" where
  "text_key s = map (\<lambda>c. int (of_char c) + 1) s @ [0]"

function order_key :: "'d json \<Rightarrow> int list" where
  "order_key JNull = [0]"
| "order_key (JObject m) = 3 # concat (map (\<lambda>e. 1 # text_key (fst e) @ order_key (snd e)) m) @ [0]"
| "order_key (JArray xs) = 4 # concat (map (\<lambda>x. 1 # order_key x) xs) @ [0]"
| "order_key (JString s) = 5 # text_key s"
| "order_key (JBool b) = [1, of_bool b]"
| "order_key (JInt i) = [2, sint i]"
| "order_key (JUint u) = [2, uint u]"
| "order_key (JFloat d) = []"
| "order_key JDiscarded = []"
  by pat_completeness auto
termination
  by (relation "measure size") (auto dest!: json_size simp del: json.size)

lemma text_key_Nil: "text_key [] = [0]" by (simp add: text_key_def)
lemma text_key_Cons: "text_key (c # s) = (int (of_char c) + 1) # text_key s" by (simp add: text_key_def)
lemma less_char_int: "int (of_char c) + 1 \<le> int (of_char d) \<longleftrightarrow> c < d"
  unfolding less_char_def by linarith
lemma eq_char_int: "int (of_char c) = int (of_char d) \<longleftrightarrow> c = d"
  unfolding of_nat_eq_iff by simp
lemma text_key_less:
  "text_key s @ r < text_key t @ r' \<longleftrightarrow> s < t \<or> s = t \<and> r < r'"
proof (induction s arbitrary: t)
  case Nil
  show ?case by (cases t) (simp_all add: text_key_Nil text_key_Cons del: of_nat_of_char)
next
  case (Cons c s)
  show ?case
    by (cases t) (auto simp add: text_key_Nil text_key_Cons Cons.IH less_char_int eq_char_int simp del: of_nat_of_char)
qed
lemma sint_small:
  assumes "unat u < 2 ^ 63"
  shows "sint (u :: u64) = uint u"
proof -
  have "int (unat u) < int (2 ^ 63)" using assms by (simp only: of_nat_less_iff)
  then have "uint u < 2 ^ 63" by simp
  then show ?thesis unfolding sint_uint by (intro signed_take_bit_int_eq_self) (auto intro: order_trans [of _ 0])
qed
lemma end_less:
  "0 # r < concat (map (\<lambda>x. 1 # f x) ys) @ 0 # r' \<longleftrightarrow> ys \<noteq> [] \<or> (r :: int list) < r'"
  by (cases ys) auto

text \<open>Trichotomy by the keys: the comparison of two codes with anything behind them.\<close>

lemma order_key_less:
  "fits_signed a \<Longrightarrow> fits_signed b \<Longrightarrow>
     order_key a @ r < order_key b @ r' \<longleftrightarrow> json_lt fl a b \<or> \<not> json_lt fl b a \<and> r < r'"
  "\<forall>x\<in>set xs. fits_signed x \<Longrightarrow> \<forall>y\<in>set ys. fits_signed y \<Longrightarrow>
     concat (map (\<lambda>x. 1 # order_key x) xs) @ 0 # r < concat (map (\<lambda>x. 1 # order_key x) ys) @ 0 # r'
       \<longleftrightarrow> elements_lt fl xs ys \<or> \<not> elements_lt fl ys xs \<and> r < r'"
  "\<forall>e\<in>set m. fits_signed (snd e) \<Longrightarrow> \<forall>e\<in>set n. fits_signed (snd e) \<Longrightarrow>
     concat (map (\<lambda>e. 1 # text_key (fst e) @ order_key (snd e)) m) @ 0 # r
         < concat (map (\<lambda>e. 1 # text_key (fst e) @ order_key (snd e)) n) @ 0 # r'
       \<longleftrightarrow> members_lt fl m n \<or> \<not> members_lt fl n m \<and> r < r'"
proof (induction fl a b and fl xs ys and fl m n arbitrary: r r' and r r' and r r'
    rule: json_lt_elements_lt_members_lt.induct)
qed (auto simp: type_less_def end_less text_key_less sint_small word_less_def split: json.splits)

text \<open>The codes are equal exactly for equal normal forms.\<close>

lemma text_key_eq: "text_key s @ r = text_key t @ r' \<longleftrightarrow> s = t \<and> r = r'"
  by (metis text_key_less less_list_code(1) linorder_neq_iff order.irrefl)

lemma end_eq:
  "0 # r = concat (map (\<lambda>x. 1 # f x) ys) @ 0 # r' \<longleftrightarrow> ys = [] \<and> (r :: int list) = r'"
  "concat (map (\<lambda>x. 1 # f x) ys) @ 0 # r = 0 # r' \<longleftrightarrow> ys = [] \<and> (r :: int list) = r'"
  by (cases ys; auto)+

lemma order_key_eq:
  "fits_signed a \<Longrightarrow> fits_signed b \<Longrightarrow>
     order_key a @ r = order_key b @ r' \<longleftrightarrow> json_eq fl a b \<and> r = r'"
  "\<forall>x\<in>set xs. fits_signed x \<Longrightarrow> \<forall>y\<in>set ys. fits_signed y \<Longrightarrow>
     concat (map (\<lambda>x. 1 # order_key x) xs) @ 0 # r = concat (map (\<lambda>x. 1 # order_key x) ys) @ 0 # r'
       \<longleftrightarrow> elements_eq fl xs ys \<and> r = r'"
  "\<forall>e\<in>set m. fits_signed (snd e) \<Longrightarrow> \<forall>e\<in>set n. fits_signed (snd e) \<Longrightarrow>
     concat (map (\<lambda>e. 1 # text_key (fst e) @ order_key (snd e)) m) @ 0 # r
         = concat (map (\<lambda>e. 1 # text_key (fst e) @ order_key (snd e)) n) @ 0 # r'
       \<longleftrightarrow> members_eq fl m n \<and> r = r'"
proof (induction fl a b and fl xs ys and fl m n arbitrary: r r' and r r' and r r'
    rule: json_eq_elements_eq_members_eq.induct)
  case (1 fl xs rhs)
  show ?case
  proof (cases rhs)
    case (JArray ys)
    show ?thesis using "1.IH" [OF JArray, of r r'] "1.prems" by (simp add: JArray)
  qed (use "1.prems" in simp_all)
next
  case (2 fl m rhs)
  show ?case
  proof (cases rhs)
    case (JObject n)
    show ?thesis using "2.IH" [OF JObject, of r r'] "2.prems" by (simp add: JObject)
  qed (use "2.prems" in simp_all)
qed (auto simp: end_eq text_key_eq signed_word_eqI sint_small [symmetric] split: json.splits)

lemma json_lt_key:
  assumes "fits_signed a" "fits_signed b"
  shows "json_lt fl a b \<longleftrightarrow> order_key a < order_key b"
  using order_key_less(1) [OF assms, of "[]" "[]" fl]
    order_key_less(1) [OF assms(2,1), of "[]" "[]" fl] by auto

lemma json_eq_key:
  assumes "fits_signed a" "fits_signed b"
  shows "json_eq fl a b \<longleftrightarrow> order_key a = order_key b"
  using order_key_eq(1) [OF assms, of "[]" "[]" fl] by simp

section \<open>Properties\<close>

text \<open>
  On values without floating-point numbers \<open>==\<close> is equality up to the type of the
  integers: two values are equal exactly if they are the same after every unsigned number is read as
  a signed one.
\<close>

theorem json_eq_signed_form:
  assumes "exact a" "exact b"
  shows "json_eq fl a b \<longleftrightarrow> signed_form a = signed_form b"
  using assms by (rule eq_signed_form(1))

theorem json_eq_signed_form_witness:
  "json_eq int_dbl (JArray [JUint 18446744073709551615, JObject [(''a'', JNull)]]) (JArray [JInt (-1), JObject [(''a'', JNull)]])"
  using json_eq_signed_form [of "JArray [JUint 18446744073709551615, JObject [(''a'', JNull)]] :: int json"
      "JArray [JInt (-1), JObject [(''a'', JNull)]]" int_dbl] by simp

text \<open>
  Property C20: on values without floating-point numbers, of which nothing is discarded and whose
  unsigned numbers fit a signed one, \<open><\<close> is a strict linear order whose equality is \<open>==\<close>: exactly one of
  \<open>a < b\<close>, \<open>a == b\<close> and \<open>b < a\<close> holds, \<open><\<close> is transitive, and \<open><=\<close> is \<open><\<close> or \<open>==\<close>.
\<close>

theorem json_order_laws:
  assumes "fits_signed a" "fits_signed b" "fits_signed c"
  shows "(json_lt fl a b \<longleftrightarrow> \<not> json_eq fl a b \<and> \<not> json_lt fl b a)
    \<and> (json_lt fl a b \<and> json_lt fl b c \<longrightarrow> json_lt fl a c)
    \<and> (json_le fl a b \<longleftrightarrow> json_lt fl a b \<or> json_eq fl a b)
    \<and> (json_gt fl a b \<longleftrightarrow> json_lt fl b a)"
  using assms by (auto simp: json_lt_key json_eq_key json_le_def json_gt_def)

theorem json_order_laws_witness:
  "json_lt int_dbl (JArray [JInt 3]) (JArray [JUint 4, JNull]) \<and> json_le int_dbl (JInt 3) (JUint 3)
    \<and> json_lt int_dbl (JInt (-1)) (JString [])"
  using json_order_laws [of "JArray [JInt 3] :: int json" "JArray [JUint 4, JNull]" JNull int_dbl]
    json_order_laws [of "JInt 3 :: int json" "JUint 3" JNull int_dbl]
    json_order_laws [of "JInt (-1) :: int json" "JInt 0" "JString []" int_dbl]
  by (simp add: type_less_def)

text \<open>
  With larger unsigned numbers \<open><\<close> is no order: there is a cycle of three values, because
  unsigned numbers are compared as they are with each other and as negative ones with integers.
\<close>

theorem json_lt_cycle:
  "json_lt fl (JInt 5) (JUint 6) \<and> json_lt fl (JUint 6) (JUint 18446744073709551615)
    \<and> json_lt fl (JUint 18446744073709551615) (JInt 5)"
  by simp

text \<open>
  A value that is written and read again compares equal to the original.
\<close>

theorem dump_parse_compares_equal:
  assumes "json_plain j"
  shows "\<exists>j'. json_parse fl (json_dump fl indent j) = Inr j' \<and> json_eq fl j' j \<and> json_eq fl j j'"
proof -
  have "exact j" "exact (canon j)" "signed_form (canon j) = signed_form j"
    using assms by (induction j rule: json_plain.induct) auto
  then show ?thesis
    using json_parse_dump [OF assms, of fl indent] by (simp add: eq_signed_form(1))
qed

theorem dump_parse_compares_equal_witness:
  "\<exists>j'. json_parse int_dbl (json_dump int_dbl 0 (JArray [JInt 7, JBool True])) = Inr j'
    \<and> json_eq int_dbl j' (JArray [JInt 7, JBool True])"
  using dump_parse_compares_equal [of "JArray [JInt 7, JBool True]" int_dbl 0] by auto

end
