(* ===== verification/JsonPatch.thy ===== *)
theory JsonPatch
  imports JsonPointer JsonCompare
begin

text \<open>
  \<open>include/json.h\<close>, \<open>patch\<close> and \<open>diff\<close>. A patch works on a copy of the value, so that an exception
  leaves no trace. Where C++ leaves the order of evaluation open, the right side of an assignment
  comes first, and the left side of a comparison.
\<close>

section \<open>Operations\<close>

definition stdq :: "string \<Rightarrow> string" where
  "stdq s = [CHR 0x27] @ s @ [CHR 0x27]"

text \<open>The change of the parent in \<open>operation_add\<close>; the last case is an assertion.\<close>

definition add_child :: "string \<Rightarrow> 'd json \<Rightarrow> 'd access" where
  "add_child last_path val parent =
     (case parent of
        JArray xs \<Rightarrow>
          if last_path = ''-'' then res_bind (json_push_back parent val) (\<lambda>p. Inr (p, p))
          else res_bind (stoi last_path) (\<lambda>idx.
            if length xs < to_size idx
            then Inl (Out_of_range (''array index '' @ string_of_int idx @ '' is out of range''))
            else let i = to_size idx; p = JArray (take i xs @ val # drop i xs) in Inr (p, p))
      | JNull \<Rightarrow> res_bind (json_put parent last_path val) (\<lambda>p. Inr (p, p))
      | JObject m \<Rightarrow> res_bind (json_put parent last_path val) (\<lambda>p. Inr (p, p))
      | _ \<Rightarrow> Inl (Foreign_exn ''assert(false)''))"

definition operation_add :: "string list \<Rightarrow> 'd json \<Rightarrow> 'd json \<Rightarrow> 'd json res" where
  "operation_add ptr val result =
     (if ptr = [] then Inr val
      else
        res_bind (if [hd ptr] \<noteq> ptr then get_checked [hd ptr] reading result else Inr (result, result)) (\<lambda>_.
        res_bind (get_unchecked (butlast ptr) (add_child (last ptr) val) result) (\<lambda>(_, result).
        Inr result)))"

text \<open>The change of the parent in \<open>operation_remove\<close>; a parent of a primitive type is left alone.\<close>

definition remove_child :: "string \<Rightarrow> 'd access" where
  "remove_child last_path parent =
     (case parent of
        JObject m \<Rightarrow>
          if map_of m last_path \<noteq> None then res_bind (erase_key last_path parent) (\<lambda>(p, n). Inr (p, p))
          else Inl (out_of_range_key last_path)
      | JArray xs \<Rightarrow>
          res_bind (stoi last_path) (\<lambda>i. res_bind (erase_index (to_size i) parent) (\<lambda>p. Inr (p, p)))
      | _ \<Rightarrow> Inr (parent, parent))"

definition operation_remove :: "string list \<Rightarrow> 'd json \<Rightarrow> 'd json res" where
  "operation_remove ptr result =
     (if ptr = [] then Inl (Domain_error ''JSON pointer has no parent'')
      else res_bind (get_checked (butlast ptr) (remove_child (last ptr)) result) (\<lambda>(_, result). Inr result))"

section \<open>Applying a patch\<close>

text \<open>\<open>get_value\<close> for a member of any type, and for one of type string.\<close>

definition error_msg :: "string \<Rightarrow> string" where
  "error_msg op' = (if op' = ''op'' then ''operation'' else ''operation '' @ stdq op')"

definition get_value :: "(string \<times> 'd json) list \<Rightarrow> string \<Rightarrow> string \<Rightarrow> 'd json res" where
  "get_value m op' member =
     (case map_of m member of
        None \<Rightarrow> Inl (Invalid_argument (error_msg op' @ '' must have member '' @ stdq member))
      | Some v \<Rightarrow> Inr v)"

definition get_string_value :: "(string \<times> 'd json) list \<Rightarrow> string \<Rightarrow> string \<Rightarrow> string res" where
  "get_string_value m op' member =
     res_bind (get_value m op' member) (\<lambda>v. case v of
        JString s \<Rightarrow> Inr s
      | _ \<Rightarrow> Inl (Invalid_argument (error_msg op' @ '' must have string member '' @ stdq member)))"

definition patch_copy :: "(string \<times> 'd json) list \<Rightarrow> string list \<Rightarrow> 'd json \<Rightarrow> 'd json res" where
  "patch_copy m ptr result =
     res_bind (get_string_value m ''copy'' ''from'') (\<lambda>from_path.
     res_bind (pointer_split from_path) (\<lambda>from_ptr.
     res_bind (get_checked from_ptr reading result) (\<lambda>(v, _).
     res_bind (get_unchecked ptr (writing v) result) (\<lambda>(_, result). Inr result))))"

definition patch_move :: "(string \<times> 'd json) list \<Rightarrow> string list \<Rightarrow> 'd json \<Rightarrow> 'd json res" where
  "patch_move m ptr result =
     res_bind (get_string_value m ''move'' ''from'') (\<lambda>from_path.
     res_bind (pointer_split from_path) (\<lambda>from_ptr.
     res_bind (get_checked from_ptr reading result) (\<lambda>(v, _).
     res_bind (operation_remove from_ptr result) (\<lambda>result.
     operation_add ptr v result))))"

definition patch_test :: "'d dbl_lib \<Rightarrow> (string \<times> 'd json) list \<Rightarrow> string list \<Rightarrow> 'd json \<Rightarrow> 'd json res" where
  "patch_test fl m ptr result =
     (let unsuccessful = Inl (Domain_error (''unsuccessful: '' @ json_dump fl (- 1) (JObject m)))
      in case get_checked ptr reading result of
        Inl (Out_of_range mes) \<Rightarrow> unsuccessful
      | Inl e \<Rightarrow> Inl e
      | Inr (v, _) \<Rightarrow>
          res_bind (get_value m ''test'' ''value'') (\<lambda>w. if json_eq fl v w then Inr result else unsuccessful))"

text \<open>One operation of the patch.\<close>

definition patch_operation :: "'d dbl_lib \<Rightarrow> 'd json \<Rightarrow> 'd json \<Rightarrow> 'd json res" where
  "patch_operation fl val result =
     (case val of
        JObject m \<Rightarrow>
          res_bind (get_string_value m ''op'' ''op'') (\<lambda>op'.
          res_bind (get_string_value m op' ''path'') (\<lambda>path.
          res_bind (pointer_split path) (\<lambda>ptr.
            if op' = ''add'' then res_bind (get_value m ''add'' ''value'') (\<lambda>v. operation_add ptr v result)
            else if op' = ''remove'' then operation_remove ptr result
            else if op' = ''replace'' then
              res_bind (get_value m ''replace'' ''value'') (\<lambda>v.
              res_bind (get_checked ptr (writing v) result) (\<lambda>(_, result). Inr result))
            else if op' = ''move'' then patch_move m ptr result
            else if op' = ''copy'' then patch_copy m ptr result
            else if op' = ''test'' then patch_test fl m ptr result
            else Inl (Invalid_argument (''operation value '' @ stdq op' @ '' is invalid'')))))
      | _ \<Rightarrow> Inl (Invalid_argument ''JSON patch must be an array of objects''))"

fun patch_operations :: "'d dbl_lib \<Rightarrow> 'd json list \<Rightarrow> 'd json \<Rightarrow> 'd json res" where
  "patch_operations fl [] result = Inr result"
| "patch_operations fl (val # vals) result =
     res_bind (patch_operation fl val result) (patch_operations fl vals)"

definition json_patch :: "'d dbl_lib \<Rightarrow> 'd json \<Rightarrow> 'd json \<Rightarrow> 'd json res" where
  "json_patch fl j p =
     (case p of
        JArray vals \<Rightarrow> patch_operations fl vals j
      | _ \<Rightarrow> Inl (Invalid_argument ''JSON patch must be an array of objects''))"

section \<open>Computing a patch\<close>

text \<open>The three operations that \<open>diff\<close> makes, as the initializer lists build them.\<close>

definition op_replace :: "string \<Rightarrow> 'd json \<Rightarrow> 'd json" where
  "op_replace path v =
     JObject [(''op'', JString ''replace''), (''path'', JString path), (''value'', v)]"

definition op_remove :: "string \<Rightarrow> 'd json" where
  "op_remove path = JObject [(''op'', JString ''remove''), (''path'', JString path)]"

definition op_add :: "string \<Rightarrow> 'd json \<Rightarrow> 'd json" where
  "op_add path v = JObject [(''op'', JString ''add''), (''path'', JString path), (''value'', v)]"

text \<open>
  \<open>diff\<close>; the second function is the loop over the elements that both arrays have, the third the loop
  over the members of the source.
\<close>

fun json_diff :: "'d dbl_lib \<Rightarrow> 'd json \<Rightarrow> 'd json \<Rightarrow> string \<Rightarrow> 'd json list"
  and diff_elements :: "'d dbl_lib \<Rightarrow> nat \<Rightarrow> 'd json list \<Rightarrow> 'd json list \<Rightarrow> string \<Rightarrow> 'd json list"
  and diff_members :: "'d dbl_lib \<Rightarrow> (string \<times> 'd json) list \<Rightarrow> (string \<times> 'd json) list \<Rightarrow> string \<Rightarrow> 'd json list" where
  "json_diff fl (JArray xs) target path =
     (if json_eq fl (JArray xs) target then []
      else case target of
        JArray ys \<Rightarrow>
          diff_elements fl 0 xs ys path
          @ rev (map (\<lambda>i. op_remove (path @ ''/'' @ string_of_nat i)) [length ys..<length xs])
          @ map (\<lambda>i. op_add (path @ ''/'' @ string_of_nat i) (ys ! i)) [length xs..<length ys]
      | _ \<Rightarrow> [op_replace path target])"
| "json_diff fl (JObject m) target path =
     (if json_eq fl (JObject m) target then []
      else case target of
        JObject n \<Rightarrow>
          diff_members fl m n path
          @ map (\<lambda>e. op_add (path @ ''/'' @ escape (fst e)) (snd e)) (filter (\<lambda>e. map_of m (fst e) = None) n)
      | _ \<Rightarrow> [op_replace path target])"
| "json_diff fl JNull target path = (if json_eq fl JNull target then [] else [op_replace path target])"
| "json_diff fl (JString s) target path = (if json_eq fl (JString s) target then [] else [op_replace path target])"
| "json_diff fl (JBool b) target path = (if json_eq fl (JBool b) target then [] else [op_replace path target])"
| "json_diff fl (JInt i) target path = (if json_eq fl (JInt i) target then [] else [op_replace path target])"
| "json_diff fl (JUint u) target path = (if json_eq fl (JUint u) target then [] else [op_replace path target])"
| "json_diff fl (JFloat d) target path = (if json_eq fl (JFloat d) target then [] else [op_replace path target])"
| "json_diff fl JDiscarded target path = (if json_eq fl JDiscarded target then [] else [op_replace path target])"
| "diff_elements fl i (x # xs) (y # ys) path =
     json_diff fl x y (path @ ''/'' @ string_of_nat i) @ diff_elements fl (i + 1) xs ys path"
| "diff_elements fl i [] ys path = []"
| "diff_elements fl i (x # xs) [] path = []"
| "diff_members fl [] n path = []"
| "diff_members fl ((key, v) # m) n path =
     (case map_of n key of
        Some w \<Rightarrow> json_diff fl v w (path @ ''/'' @ escape key)
      | None \<Rightarrow> [op_remove (path @ ''/'' @ escape key)])
     @ diff_members fl m n path"

end
