(* ===== verification/JsonPatchLaws.thy ===== *)
theory JsonPatchLaws
  imports JsonPatch
begin

text \<open>
  Facts on pointers and patches: places of a value that a pointer leads to, the operations of a patch
  at a place, and the patch that \<open>diff\<close> computes.
\<close>

section \<open>Places\<close>

text \<open>
  A place is a value with a hole: \<open>C x\<close> is the value with \<open>x\<close> in the hole. A pointer leads to a place
  if both ways to follow it work on what is there and leave the rest alone.
\<close>

definition leads_to :: "string list \<Rightarrow> ('d json \<Rightarrow> 'd json) \<Rightarrow> bool" where
  "leads_to ts C \<longleftrightarrow>
     (\<forall>k x. get_checked ts k (C x) = put_back C (k x)) \<and> (\<forall>k x. get_unchecked ts k (C x) = put_back C (k x))"

lemma put_back_comp: "put_back c (put_back d r) = put_back (\<lambda>y. c (d y)) r"
  by (cases r) (auto simp: put_back_def)

lemma put_back_Inr [simp]: "put_back c (Inr (a, y)) = Inr (a, c y)"
  by (simp add: put_back_def)

lemma put_back_Inl [simp]: "put_back c (Inl e) = Inl e"
  by (simp add: put_back_def)

lemma put_back_id [simp]: "put_back (\<lambda>x. x) r = r"
  by (cases r) auto

lemma place_Nil: "leads_to [] (\<lambda>x. x)"
  by (simp add: leads_to_def put_back_id)

lemma get_checked_append: "get_checked (ts @ us) k = get_checked ts (get_checked us k)"
proof (induction ts)
  case (Cons t ts)
  show ?case by (rule ext) (simp only: append_Cons get_checked.simps Cons.IH)
qed (rule ext, simp)

lemma get_unchecked_append: "get_unchecked (ts @ us) k = get_unchecked ts (get_unchecked us k)"
proof (induction ts)
  case (Cons t ts)
  show ?case by (rule ext) (simp only: append_Cons get_unchecked.simps Cons.IH)
qed (rule ext, simp)

lemma place_step:
  assumes "leads_to ts C" "\<And>k x. get_checked [t] k (D x) = put_back D (k x)"
    "\<And>k x. get_unchecked [t] k (D x) = put_back D (k x)"
  shows "leads_to (ts @ [t]) (\<lambda>x. C (D x))"
proof -
  have "get_checked (ts @ [t]) k (C (D x)) = put_back (\<lambda>x. C (D x)) (k x)" for k x
    using assms(1) by (simp only: get_checked_append leads_to_def assms(2) put_back_comp)
  moreover have "get_unchecked (ts @ [t]) k (C (D x)) = put_back (\<lambda>x. C (D x)) (k x)" for k x
    using assms(1) by (simp only: get_unchecked_append leads_to_def assms(3) put_back_comp)
  ultimately show ?thesis by (simp add: leads_to_def)
qed

text \<open>The member of an object between smaller and greater keys, and the element of an array.\<close>

lemma map_assign_middle:
  "\<forall>e\<in>set m. fst e < key \<Longrightarrow> map_assign key v (m @ (key, w) # n) = m @ (key, v) # n"
  by (induction m) auto

lemma map_of_middle:
  "\<forall>e\<in>set m. fst e < (key :: string) \<Longrightarrow> map_of (m @ (key, w) # n) key = Some w"
  by (induction m) auto

lemma place_member:
  assumes "leads_to ts C" "\<forall>e\<in>set m. fst e < key"
  shows "leads_to (ts @ [key]) (\<lambda>x. C (JObject (m @ (key, x) # n)))"
  using assms(1)
  by (rule place_step)
    (simp_all add: at_key_def index_key_def json_index_def is_null_def map_of_middle [OF assms(2)]
      map_assign_middle [OF assms(2)] del: map_of_append)

lemma string_of_nat_hd: "0 < n \<Longrightarrow> hd (string_of_nat n) \<noteq> CHR ''0''"
proof (induction n rule: string_of_nat.induct)
  case (1 n)
  show ?case
  proof (cases "n < 10")
    case True
    then have "n \<in> {1, 2, 3, 4, 5, 6, 7, 8, 9}" using 1(2) by auto
    then show ?thesis by (auto simp: string_of_nat.simps [of n] digit_chars)
  next
    case False
    then show ?thesis using 1 by (simp add: string_of_nat.simps [of n])
  qed
qed

lemma string_of_nat_token:
  "string_of_nat n \<noteq> ''-''" "\<not> (1 < length (string_of_nat n) \<and> hd (string_of_nat n) = CHR ''0'')"
proof -
  show "string_of_nat n \<noteq> ''-''"
    using string_of_nat_digits [of "CHR ''-''" n] by (auto simp: c_isdigit_def in_range_def)
  show "\<not> (1 < length (string_of_nat n) \<and> hd (string_of_nat n) = CHR ''0'')"
    using string_of_nat_hd [of n] by (cases n) (auto simp: string_of_nat.simps [of 0])
qed

lemma stoi_string_of_nat:
  assumes "n < 2 ^ 31"
  shows "stoi (string_of_nat n) = Inr (int n)"
proof -
  have d: "\<forall>c\<in>set (string_of_nat n). c_isdigit c" using string_of_nat_digits by blast
  then have "cstr (string_of_nat n) = string_of_nat n"
    by (intro cstr_no_NUL) (use c_isdigit_not_sign(4) in blast)
  moreover have "int n < 2 ^ 31" using assms by simp
  ultimately show ?thesis
    using strtol10_digits [OF string_of_nat_nonempty d]
    by (simp add: stoi_def string_of_nat_nonempty [symmetric] del: string_of_nat_nonempty add: clamp_long_def long_min_def long_max_def)
qed

lemma to_size_nat: "n < 2 ^ 64 \<Longrightarrow> to_size (int n) = n"
  by (simp add: to_size_def unat_of_nat take_bit_nat_eq_self)

lemma place_element:
  assumes "leads_to ts C" "length xs < 2 ^ 31"
  shows "leads_to (ts @ [string_of_nat (length xs)]) (\<lambda>x. C (JArray (xs @ x # ys)))"
  using assms(1)
proof (rule place_step)
  have "to_size (int (length xs)) = length xs" using assms(2) by (intro to_size_nat) simp
  then show "get_checked [string_of_nat (length xs)] k (JArray (xs @ x # ys)) = put_back (\<lambda>x. JArray (xs @ x # ys)) (k x)"
    and "get_unchecked [string_of_nat (length xs)] k (JArray (xs @ x # ys)) = put_back (\<lambda>x. JArray (xs @ x # ys)) (k x)"
    for k :: "'a access" and x
    using assms(2) string_of_nat_token [of "length xs"]
    by (auto simp: at_index_def index_array_def is_null_def vector_max_size_def stoi_string_of_nat Let_def)
qed

section \<open>The operations at a place\<close>

lemma escape_index: "escape (string_of_nat n) = string_of_nat n"
  using string_of_nat_digits [of "CHR ''~''" n] string_of_nat_digits [of "CHR ''/''" n]
  by (intro escape_plain) (auto simp: c_isdigit_def in_range_def)

lemma pointer_index: "pointer_to_string ts @ CHR ''/'' # string_of_nat n = pointer_to_string (ts @ [string_of_nat n])"
  by (simp add: pointer_to_string_snoc escape_index)

lemma pointer_member: "pointer_to_string ts @ CHR ''/'' # escape key = pointer_to_string (ts @ [key])"
  by (simp add: pointer_to_string_snoc)

lemma get_checked_first:
  "get_checked (t # us) k j = Inr r \<Longrightarrow> \<exists>r'. get_checked [t] reading j = Inr r'"
  by (cases j) (auto simp: at_key_def at_index_def reading_def res_bind_eq_Inr split: if_splits option.splits)

lemma place_checked: "leads_to ts C \<Longrightarrow> get_checked ts k (C x) = put_back C (k x)"
  by (simp add: leads_to_def)

lemma place_unchecked: "leads_to ts C \<Longrightarrow> get_unchecked ts k (C x) = put_back C (k x)"
  by (simp add: leads_to_def)

lemma place_top: "leads_to (t # ts) C \<Longrightarrow> \<exists>r. get_checked [t] reading (C x) = Inr r"
  using get_checked_first [of t ts reading "C x"] place_checked [of "t # ts" C reading x]
  by (simp add: reading_def)

lemma operation_add_at:
  assumes "leads_to ts C" "add_child key v x = Inr (a, y)"
  shows "operation_add (ts @ [key]) v (C x) = Inr (C y)"
proof (cases ts)
  case Nil
  then show ?thesis using assms place_unchecked [of ts C "add_child key v" x] by (simp add: operation_add_def)
next
  case (Cons t us)
  then obtain r where "get_checked [t] reading (C x) = Inr r" using place_top assms(1) by blast
  then show ?thesis
    using place_unchecked [OF assms(1), of "add_child key v" x] assms(2) Cons
    by (cases r) (simp add: operation_add_def del: get_checked.simps get_unchecked.simps)
qed

lemma operation_remove_at:
  "leads_to ts C \<Longrightarrow> remove_child key x = Inr (a, y) \<Longrightarrow> operation_remove (ts @ [key]) (C x) = Inr (C y)"
  by (simp add: operation_remove_def place_checked)

lemmas patch_simps = patch_operation_def get_string_value_def get_value_def pointer_split_to_string

lemma patch_replace_at:
  "leads_to ts C \<Longrightarrow> patch_operation fl (op_replace (pointer_to_string ts) v) (C x) = Inr (C v)"
  by (simp add: op_replace_def patch_simps place_checked writing_def)

lemma patch_remove_at:
  "leads_to ts C \<Longrightarrow> remove_child key x = Inr (a, y) \<Longrightarrow>
     patch_operation fl (op_remove (pointer_to_string (ts @ [key]))) (C x) = Inr (C y)"
  by (simp add: op_remove_def patch_simps operation_remove_at)

lemma patch_add_at:
  "leads_to ts C \<Longrightarrow> add_child key v x = Inr (a, y) \<Longrightarrow>
     patch_operation fl (op_add (pointer_to_string (ts @ [key])) v) (C x) = Inr (C y)"
  by (simp add: op_add_def patch_simps operation_add_at)

lemma remove_member:
  "map_of m key \<noteq> None \<Longrightarrow>
     remove_child key (JObject m) = Inr (let p = JObject (filter (\<lambda>e. fst e \<noteq> key) m) in (p, p))"
  by (simp add: remove_child_def erase_key_def Let_def)

lemma remove_last:
  assumes "length xs < 2 ^ 31"
  shows "remove_child (string_of_nat (length xs)) (JArray (xs @ [x])) = Inr (JArray xs, JArray xs)"
proof -
  have "to_size (int (length xs)) = length xs" using assms by (intro to_size_nat) simp
  then show ?thesis using assms by (simp add: remove_child_def erase_index_def stoi_string_of_nat)
qed

lemma add_member: "add_child key v (JObject m) = Inr (let p = JObject (map_assign key v m) in (p, p))"
  by (simp add: add_child_def json_put_cases Let_def)

lemma add_last:
  assumes "length xs < 2 ^ 31"
  shows "add_child (string_of_nat (length xs)) v (JArray xs) = Inr (JArray (xs @ [v]), JArray (xs @ [v]))"
proof -
  have "to_size (int (length xs)) = length xs" using assms by (intro to_size_nat) simp
  then show ?thesis using assms string_of_nat_token(1) [of "length xs"]
    by (simp add: add_child_def stoi_string_of_nat Let_def)
qed

lemma patch_operations_append:
  "patch_operations fl (ps @ qs) j = res_bind (patch_operations fl ps j) (patch_operations fl qs)"
proof (induction ps arbitrary: j)
  case (Cons p ps)
  then show ?case by (cases "patch_operation fl p j") simp_all
qed simp

section \<open>The patch of a difference\<close>

text \<open>Values without discarded parts, with sorted objects and with arrays whose indices are ints.\<close>

function patchable :: "'d json \<Rightarrow> bool" where
  "patchable JNull = True"
| "patchable (JObject m) = (map_sorted m \<and> (\<forall>e\<in>set m. patchable (snd e)))"
| "patchable (JArray xs) = (length xs < 2 ^ 31 \<and> (\<forall>x\<in>set xs. patchable x))"
| "patchable (JString s) = True"
| "patchable (JBool b) = True"
| "patchable (JInt i) = True"
| "patchable (JUint u) = True"
| "patchable (JFloat d) = True"
| "patchable JDiscarded = False"
  by pat_completeness auto
termination
  by (relation "measure size") (auto dest!: json_size simp del: json.size)

lemma elements_eq_all2: "elements_eq fl xs ys \<longleftrightarrow> list_all2 (json_eq fl) xs ys"
  by (induction xs ys rule: list_induct2') auto

lemma members_eq_all2:
  "members_eq fl m n \<longleftrightarrow> list_all2 (\<lambda>e f. fst e = fst f \<and> json_eq fl (snd e) (snd f)) m n"
  by (induction m n rule: list_induct2') auto

lemma json_eq_refl: "(\<And>d. d_eq fl d d) \<Longrightarrow> patchable j \<Longrightarrow> json_eq fl j j"
proof (induction j rule: patchable.induct)
  case (2 m)
  then show ?case by (auto simp: members_eq_all2 intro!: list.rel_refl_strong)
next
  case (3 xs)
  then show ?case by (auto simp: elements_eq_all2 intro!: list.rel_refl_strong)
qed simp_all

text \<open>The elements behind the common ones are removed from the end, or added at the end.\<close>

lemma patch_remove_tail:
  assumes "leads_to ts C" "length xs + length zs < 2 ^ 31"
  shows "patch_operations fl (rev (map (\<lambda>i. op_remove (pointer_to_string ts @ ''/'' @ string_of_nat i))
      [length xs..<length xs + length zs])) (C (JArray (xs @ zs))) = Inr (C (JArray xs))"
  using assms(2)
proof (induction zs rule: rev_induct)
  case (snoc z zs)
  have "remove_child (string_of_nat (length (xs @ zs))) (JArray ((xs @ zs) @ [z])) = Inr (JArray (xs @ zs), JArray (xs @ zs))"
    using snoc.prems by (intro remove_last) simp
  from patch_remove_at [OF assms(1) this] snoc show ?case by (simp add: pointer_index)
qed simp

lemma patch_add_tail:
  assumes "leads_to ts C" "length ys < 2 ^ 31"
  shows "length xs \<le> length ys \<Longrightarrow>
    patch_operations fl (map (\<lambda>i. op_add (pointer_to_string ts @ ''/'' @ string_of_nat i) (ys ! i))
      [length xs..<length ys]) (C (JArray xs)) = Inr (C (JArray (xs @ drop (length xs) ys)))"
proof (induction "length ys - length xs" arbitrary: xs)
  case (Suc k)
  then have l: "length xs < length ys" by simp
  have "add_child (string_of_nat (length xs)) (ys ! length xs) (JArray xs)
      = Inr (JArray (xs @ [ys ! length xs]), JArray (xs @ [ys ! length xs]))"
    using l assms(2) by (intro add_last) simp
  from patch_add_at [OF assms(1) this] Suc.hyps(1) [of "xs @ [ys ! length xs]"] Suc.hyps(2) l
  show ?case by (simp add: upt_conv_Cons pointer_index Cons_nth_drop_Suc)
qed simp

lemma patch_add_members:
  assumes "leads_to ts C"
  shows "patch_operations fl (map (\<lambda>e. op_add (pointer_to_string ts @ ''/'' @ escape (fst e)) (snd e)) es)
      (C (JObject m)) = Inr (C (JObject (std_map.ins_all es m)))"
proof (induction es arbitrary: m)
  case (Cons e es)
  from patch_add_at [OF assms add_member [of "fst e" "snd e" m, unfolded Let_def]] Cons.IH
  show ?case by (cases e) (simp add: pointer_member std_map.ins_all_def)
qed (simp add: std_map.ins_all_def)

text \<open>Two sorted maps with the same keys and equal values are equal.\<close>

lemma members_eq_sorted:
  assumes "map_sorted q" "map_sorted n" "dom (map_of q) = dom (map_of n)"
    "\<And>k v w. map_of q k = Some v \<Longrightarrow> map_of n k = Some w \<Longrightarrow> json_eq fl v w"
  shows "members_eq fl q n"
proof -
  have sets: "set (map fst q) = set (map fst n)" using assms(3) by (simp add: dom_map_of_conv_image_fst)
  have keys: "map fst q = map fst n"
    using strict_sorted_equal assms(1,2) sets unfolding map_sorted_def by blast
  have dist: "distinct (map fst q)" "distinct (map fst n)"
    using assms(1,2) by (simp_all add: map_sorted_def strict_sorted_iff)
  show ?thesis unfolding members_eq_all2
  proof (rule list_all2_all_nthI)
    show "length q = length n" using keys by (metis length_map)
    fix i assume i: "i < length q"
    then have i': "i < length n" using keys by (metis length_map)
    have f: "fst (q ! i) = fst (n ! i)" using keys i i' by (metis nth_map)
    have "map_of q (fst (q ! i)) = Some (snd (q ! i))" "map_of n (fst (n ! i)) = Some (snd (n ! i))"
      using dist i i' by (simp_all add: map_of_eq_Some_iff)
    then show "fst (q ! i) = fst (n ! i) \<and> json_eq fl (snd (q ! i)) (snd (n ! i))"
      using f assms(4) by metis
  qed
qed

text \<open>The end of the array case, and of the object case.\<close>

lemma patch_array_rest:
  assumes "leads_to ts C" "length xs < 2 ^ 31" "length ys < 2 ^ 31" "\<And>d. d_eq fl d d"
    "list_all2 (json_eq fl) rs (take (length xs) ys)" "\<forall>y\<in>set ys. patchable y"
  shows "\<exists>r. patch_operations fl (rev (map (\<lambda>i. op_remove (pointer_to_string ts @ ''/'' @ string_of_nat i))
        [length ys..<length xs]) @
      map (\<lambda>i. op_add (pointer_to_string ts @ ''/'' @ string_of_nat i) (ys ! i)) [length xs..<length ys])
      (C (JArray (rs @ drop (length ys) xs))) = Inr (C r) \<and> json_eq fl r (JArray ys)"
proof -
  have len: "length rs = min (length xs) (length ys)" using list_all2_lengthD [OF assms(5)] by simp
  have rem: "patch_operations fl (rev (map (\<lambda>i. op_remove (pointer_to_string ts @ ''/'' @ string_of_nat i))
      [length ys..<length xs])) (C (JArray (rs @ drop (length ys) xs))) = Inr (C (JArray rs))"
  proof (cases "length ys \<le> length xs")
    case True
    then show ?thesis using patch_remove_tail [OF assms(1), of rs "drop (length ys) xs"] assms(2) len by simp
  qed simp
  have add: "patch_operations fl (map (\<lambda>i. op_add (pointer_to_string ts @ ''/'' @ string_of_nat i) (ys ! i))
      [length xs..<length ys]) (C (JArray rs)) = Inr (C (JArray (rs @ drop (length xs) ys)))"
  proof (cases "length xs \<le> length ys")
    case True
    then show ?thesis using patch_add_tail [OF assms(1,3), of rs] len by simp
  qed simp
  have "list_all2 (json_eq fl) (drop (length xs) ys) (drop (length xs) ys)"
    by (rule list.rel_refl_strong, rule json_eq_refl [OF assms(4)]) (use assms(6) in_set_dropD in metis)
  then have "list_all2 (json_eq fl) (rs @ drop (length xs) ys) ys"
    using list_all2_appendI [OF assms(5)] by fastforce
  then show ?thesis
    using rem add by (intro exI [of _ "JArray (rs @ drop (length xs) ys)"]) (simp add: patch_operations_append elements_eq_all2)
qed

lemma map_of_rev_distinct: "distinct (map fst m) \<Longrightarrow> map_of (rev m) = map_of m"
  by (rule ext) (metis distinct_rev map_of_eq_Some_iff not_Some_eq rev_map set_rev)

lemma patch_object_rest:
  assumes "leads_to ts C" "map_sorted m" "map_sorted n" "\<And>d. d_eq fl d d" "\<forall>e\<in>set n. patchable (snd e)"
    "map fst rs = filter (\<lambda>k. map_of n k \<noteq> None) (map fst m)"
    "\<forall>e\<in>set rs. \<exists>w. map_of n (fst e) = Some w \<and> json_eq fl (snd e) w"
  shows "\<exists>r. patch_operations fl (map (\<lambda>e. op_add (pointer_to_string ts @ ''/'' @ escape (fst e)) (snd e))
      (filter (\<lambda>e. map_of m (fst e) = None) n)) (C (JObject rs)) = Inr (C r) \<and> json_eq fl r (JObject n)"
proof -
  let ?es = "filter (\<lambda>e. map_of m (fst e) = None) n"
  let ?q = "std_map.ins_all ?es rs"
  have sorted: "map_sorted rs"
    using assms(2,6) by (simp add: map_sorted_def sorted_wrt_filter)
  have dist: "distinct (map fst n)" using assms(3) by (simp add: map_sorted_def strict_sorted_iff)
  then have "distinct (map fst ?es)" by (simp add: distinct_map_filter)
  then have look: "map_of ?q k = (case map_of ?es k of None \<Rightarrow> map_of rs k | Some v \<Rightarrow> Some v)" for k
    using std_map.look_ins_all [OF sorted, of ?es k] by (simp add: map_of_rev_distinct)
  have es: "map_of ?es k = (if map_of m k = None then map_of n k else None)" for k
    by (induction n) auto
  have keys: "map_of rs k = None \<longleftrightarrow> map_of n k = None \<or> map_of m k = None" for k
    using arg_cong [OF assms(6), of set] by (auto simp: map_of_eq_None_iff)
  have "members_eq fl ?q n"
  proof (rule members_eq_sorted)
    show "map_sorted ?q" using std_map.inv_ins_all [OF sorted] .
    show "dom (map_of ?q) = dom (map_of n)"
    proof (intro set_eqI iffI)
      fix k assume "k \<in> dom (map_of ?q)"
      then show "k \<in> dom (map_of n)" using keys [of k] by (cases "map_of m k") (auto simp: look es split: option.splits)
    next
      fix k assume "k \<in> dom (map_of n)"
      then show "k \<in> dom (map_of ?q)" using keys [of k] by (cases "map_of m k") (auto simp: look es split: option.splits)
    qed
    fix k v w assume kv: "map_of ?q k = Some v" "map_of n k = Some w"
    show "json_eq fl v w"
    proof (cases "map_of m k")
      case None
      then have "v = w" using kv by (simp add: look es)
      then show ?thesis using json_eq_refl [OF assms(4)] assms(5) kv(2) map_of_SomeD by fastforce
    next
      case (Some x)
      then have "map_of rs k = Some v" using kv by (simp add: look es)
      then show ?thesis using assms(7) kv(2) by (fastforce dest: map_of_SomeD)
    qed
  qed (rule assms(3))
  then show ?thesis using patch_add_members [OF assms(1), of fl ?es rs] by (intro exI [of _ "JObject ?q"]) simp
qed

text \<open>
  The three functions of \<open>diff\<close> at a place: afterwards the place holds a value that is equal to the
  target.
\<close>

lemma patch_replaced:
  assumes "\<forall>d. d_eq fl d d" "patchable t" "leads_to ts C"
  shows "\<exists>r. res_bind (patch_operation fl (op_replace (pointer_to_string ts) t) (C s)) (patch_operations fl [])
      = Inr (C r) \<and> json_eq fl r t"
  using assms(2,3) json_eq_refl [OF spec [OF assms(1)]] by (intro exI [of _ t]) (simp add: patch_replace_at)

lemma diff_patches:
  "\<forall>d. d_eq fl d d \<Longrightarrow> patchable s \<Longrightarrow> patchable t \<Longrightarrow> path = pointer_to_string ts \<Longrightarrow> leads_to ts C \<Longrightarrow>
     \<exists>r. patch_operations fl (json_diff fl s t path) (C s) = Inr (C r) \<and> json_eq fl r t"
  "\<forall>d. d_eq fl d d \<Longrightarrow> \<forall>x\<in>set xs. patchable x \<Longrightarrow> \<forall>y\<in>set ys. patchable y \<Longrightarrow> i = length zs \<Longrightarrow> length zs + length xs < 2 ^ 31 \<Longrightarrow>
     path = pointer_to_string ts \<Longrightarrow> leads_to ts C \<Longrightarrow>
     \<exists>rs. patch_operations fl (diff_elements fl i xs ys path) (C (JArray (zs @ xs)))
         = Inr (C (JArray (zs @ rs @ drop (length ys) xs)))
       \<and> list_all2 (json_eq fl) rs (take (length xs) ys)"
  "\<forall>d. d_eq fl d d \<Longrightarrow> map_sorted (ms @ m) \<Longrightarrow> \<forall>e\<in>set m. patchable (snd e) \<Longrightarrow> \<forall>e\<in>set n. patchable (snd e) \<Longrightarrow>
     path = pointer_to_string ts \<Longrightarrow> leads_to ts C \<Longrightarrow>
     \<exists>rs. patch_operations fl (diff_members fl m n path) (C (JObject (ms @ m))) = Inr (C (JObject (ms @ rs)))
       \<and> map fst rs = filter (\<lambda>k. map_of n k \<noteq> None) (map fst m)
       \<and> (\<forall>e\<in>set rs. \<exists>w. map_of n (fst e) = Some w \<and> json_eq fl (snd e) w)"
proof (induction fl s t path and fl i xs ys path and fl m n path
    arbitrary: ts C and ts C zs and ts C ms rule: json_diff_diff_elements_diff_members.induct)
  case (1 fl xs target path)
  show ?case
  proof (cases "json_eq fl (JArray xs) target")
    case False
    show ?thesis
    proof (cases target)
      case (JArray ys)
      have "\<exists>rs. patch_operations fl (diff_elements fl 0 xs ys path) (C (JArray ([] @ xs)))
          = Inr (C (JArray ([] @ rs @ drop (length ys) xs))) \<and> list_all2 (json_eq fl) rs (take (length xs) ys)"
        using "1.prems" JArray False by (intro "1.IH" [of _ _ ts]) auto
      then obtain rs where "patch_operations fl (diff_elements fl 0 xs ys path) (C (JArray xs))
          = Inr (C (JArray (rs @ drop (length ys) xs)))" "list_all2 (json_eq fl) rs (take (length xs) ys)"
        by auto
      moreover have "\<exists>r. patch_operations fl (rev (map (\<lambda>i. op_remove (pointer_to_string ts @ ''/'' @ string_of_nat i))
            [length ys..<length xs]) @
          map (\<lambda>i. op_add (pointer_to_string ts @ ''/'' @ string_of_nat i) (ys ! i)) [length xs..<length ys])
          (C (JArray (rs @ drop (length ys) xs))) = Inr (C r) \<and> json_eq fl r (JArray ys)"
        by (rule patch_array_rest [OF "1.prems"(5) _ _ spec [OF "1.prems"(1)]]) (use calculation "1.prems"(2,3) JArray in simp_all)
      ultimately show ?thesis
        using False JArray "1.prems"(4) by (simp add: patch_operations_append)
    qed (use patch_replaced [OF "1.prems"(1,3,5)] "1.prems"(4) False in simp_all)
  qed (auto intro!: exI [of _ "JArray xs"])
next
  case (2 fl m target path)
  show ?case
  proof (cases "json_eq fl (JObject m) target")
    case False
    show ?thesis
    proof (cases target)
      case (JObject n)
      have "\<exists>rs. patch_operations fl (diff_members fl m n path) (C (JObject ([] @ m))) = Inr (C (JObject ([] @ rs)))
          \<and> map fst rs = filter (\<lambda>k. map_of n k \<noteq> None) (map fst m)
          \<and> (\<forall>e\<in>set rs. \<exists>w. map_of n (fst e) = Some w \<and> json_eq fl (snd e) w)"
        using "2.prems" JObject False by (intro "2.IH" [of _ _ ts]) auto
      then obtain rs where "patch_operations fl (diff_members fl m n path) (C (JObject m)) = Inr (C (JObject rs))"
          "map fst rs = filter (\<lambda>k. map_of n k \<noteq> None) (map fst m)"
          "\<forall>e\<in>set rs. \<exists>w. map_of n (fst e) = Some w \<and> json_eq fl (snd e) w"
        by auto
      moreover have "\<exists>r. patch_operations fl (map (\<lambda>e. op_add (pointer_to_string ts @ ''/'' @ escape (fst e)) (snd e))
          (filter (\<lambda>e. map_of m (fst e) = None) n)) (C (JObject rs)) = Inr (C r) \<and> json_eq fl r (JObject n)"
        by (rule patch_object_rest [OF "2.prems"(5) _ _ spec [OF "2.prems"(1)]]) (use calculation "2.prems"(2,3) JObject in simp_all)
      ultimately show ?thesis
        using False JObject "2.prems"(4) by (simp add: patch_operations_append)
    qed (use patch_replaced [OF "2.prems"(1,3,5)] "2.prems"(4) False in simp_all)
  qed (auto intro!: exI [of _ "JObject m"])
next
  case (10 fl i x xs y ys path)
  have "leads_to (ts @ [string_of_nat i]) (\<lambda>x. C (JArray (zs @ x # xs)))"
    using place_element [OF "10.prems"(7), of zs xs] "10.prems"(4,5) by simp
  then obtain r where r: "patch_operations fl (json_diff fl x y (path @ ''/'' @ string_of_nat i)) (C (JArray (zs @ x # xs)))
      = Inr (C (JArray (zs @ r # xs)))" "json_eq fl r y"
    using "10.IH"(1) [OF "10.prems"(1), of "ts @ [string_of_nat i]"] "10.prems"(2,3,6) pointer_index by fastforce
  have "\<exists>rs. patch_operations fl (diff_elements fl (i + 1) xs ys path) (C (JArray ((zs @ [r]) @ xs)))
      = Inr (C (JArray ((zs @ [r]) @ rs @ drop (length ys) xs))) \<and> list_all2 (json_eq fl) rs (take (length xs) ys)"
    using "10.prems" by (intro "10.IH"(2)) auto
  then obtain rs where "patch_operations fl (diff_elements fl (i + 1) xs ys path) (C (JArray (zs @ r # xs)))
      = Inr (C (JArray (zs @ r # rs @ drop (length ys) xs)))" "list_all2 (json_eq fl) rs (take (length xs) ys)"
    by auto
  then show ?case using r by (intro exI [of _ "r # rs"]) (simp add: patch_operations_append)
next
  case (14 fl key v m n path)
  have sorted: "map_sorted (ms @ (key, v) # m)" "map_sorted ((ms @ [(key, r)]) @ m)" "map_sorted (ms @ m)" for r
    using "14.prems"(2) by (auto simp: map_sorted_def sorted_wrt_append)
  have less: "\<forall>e\<in>set ms. fst e < key" "\<forall>e\<in>set m. key < fst e"
    using "14.prems"(2) by (auto simp: map_sorted_def sorted_wrt_append)
  show ?case
  proof (cases "map_of n key")
    case None
    have "filter (\<lambda>e. fst e \<noteq> key) ms = ms" "filter (\<lambda>e. fst e \<noteq> key) m = m"
      using less by (auto simp: filter_id_conv)
    then have "remove_child key (JObject (ms @ (key, v) # m)) = Inr (JObject (ms @ m), JObject (ms @ m))"
      using map_of_middle [OF less(1)] by (simp add: remove_member Let_def del: map_of_append)
    from patch_remove_at [OF "14.prems"(6) this]
    have "patch_operation fl (op_remove (path @ ''/'' @ escape key)) (C (JObject (ms @ (key, v) # m)))
        = Inr (C (JObject (ms @ m)))" using "14.prems"(5) by (simp add: pointer_member)
    moreover have "\<exists>rs. patch_operations fl (diff_members fl m n path) (C (JObject (ms @ m))) = Inr (C (JObject (ms @ rs)))
        \<and> map fst rs = filter (\<lambda>k. map_of n k \<noteq> None) (map fst m)
        \<and> (\<forall>e\<in>set rs. \<exists>w. map_of n (fst e) = Some w \<and> json_eq fl (snd e) w)"
      using "14.prems" sorted(3) by (intro "14.IH"(2)) auto
    ultimately show ?thesis using None by simp
  next
    case (Some w)
    have "patchable v" "patchable w" using "14.prems"(3,4) Some by (auto dest!: map_of_SomeD)
    then obtain r where r: "patch_operations fl (json_diff fl v w (path @ ''/'' @ escape key)) (C (JObject (ms @ (key, v) # m)))
        = Inr (C (JObject (ms @ (key, r) # m)))" "json_eq fl r w"
      using "14.IH"(1) [OF Some "14.prems"(1), of "ts @ [key]" "\<lambda>x. C (JObject (ms @ (key, x) # m))"]
        place_member [OF "14.prems"(6) less(1), of m] "14.prems"(5) pointer_member by fastforce
    have "\<exists>rs. patch_operations fl (diff_members fl m n path) (C (JObject ((ms @ [(key, r)]) @ m)))
          = Inr (C (JObject ((ms @ [(key, r)]) @ rs)))
        \<and> map fst rs = filter (\<lambda>k. map_of n k \<noteq> None) (map fst m)
        \<and> (\<forall>e\<in>set rs. \<exists>w. map_of n (fst e) = Some w \<and> json_eq fl (snd e) w)"
      using "14.prems" sorted(2) by (intro "14.IH"(2)) auto
    then obtain rs where "patch_operations fl (diff_members fl m n path) (C (JObject (ms @ (key, r) # m)))
          = Inr (C (JObject (ms @ (key, r) # rs)))"
        "map fst rs = filter (\<lambda>k. map_of n k \<noteq> None) (map fst m)"
        "\<forall>e\<in>set rs. \<exists>w. map_of n (fst e) = Some w \<and> json_eq fl (snd e) w"
      by auto
    then show ?thesis using r Some by (intro exI [of _ "(key, r) # rs"]) (simp add: patch_operations_append)
  qed
qed (auto simp: patch_replaced intro: json_eq_refl)

section \<open>Theorems\<close>

text \<open>
  The text of a pointer and its tokens: for every list of tokens, with slashes and
  tildes in them and empty ones included, \<open>split\<close> gets back from \<open>to_string\<close> what was put in.
\<close>

theorem pointer_roundtrip:
  "pointer_split (pointer_to_string ts) = Inr ts"
  by (rule pointer_split_to_string)

text \<open>
  Property C23: for two values with arrays of fewer than $2^{31}$ elements, objects with their keys in
  order and nothing discarded, the patch that \<open>diff\<close> computes can be applied to the source without an
  exception, and makes of it a value that is equal to the target. The comparison of doubles is reflexive
  (there is no NaN in the values). The positions of longer arrays do not fit the \<open>int\<close> of \<open>stoi\<close>, by
  which a pointer is read.
\<close>

theorem diff_patch_roundtrip:
  assumes "patchable s" "patchable t" "\<forall>d. d_eq fl d d"
  shows "\<exists>r. json_patch fl s (JArray (json_diff fl s t [])) = Inr r \<and> json_eq fl r t"
  using diff_patches(1) [OF assms(3,1,2) _ place_Nil, of "[]"] by (simp add: json_patch_def)

theorem diff_patch_roundtrip_witness:
  "\<exists>r. json_patch int_dbl
       (JObject [(''a'', JArray [JUint 1, JUint 2]), (''b~/'', JNull)])
       (JArray (json_diff int_dbl
         (JObject [(''a'', JArray [JUint 1, JUint 2]), (''b~/'', JNull)])
         (JObject [(''a'', JArray [JString ''x'']), (''c'', JBool True)]) [])) = Inr r
     \<and> json_eq int_dbl r (JObject [(''a'', JArray [JString ''x'']), (''c'', JBool True)])"
  by (rule diff_patch_roundtrip)
    (simp_all add: map_sorted_def int_dbl_def less_char_def less_list_code)

text \<open>
  The operations at a place that a pointer leads to, where \<open>C x\<close> is the whole value and
  \<open>x\<close> what is at the place. \<open>replace\<close> and \<open>copy\<close> put the new value there; \<open>copy\<close> so also replaces the
  element of an array that \<open>add\<close> would insert before. \<open>test\<close> changes nothing, and fails with an
  exception if the values differ. \<open>remove\<close> takes away a member of an object, fails if there is none, and
  does nothing at all, without an exception, below a value that is neither an object nor an array.
\<close>

theorem patch_at_place:
  fixes C :: "'d json \<Rightarrow> 'd json"
  assumes "leads_to ts C"
  shows "patch_operation fl (op_replace (pointer_to_string ts) v) (C x) = Inr (C v)
    \<and> (\<forall>m. map_of m ''from'' = Some (JString (pointer_to_string from')) \<and> get_checked from' reading (C x) = Inr (v, j) \<longrightarrow>
         patch_copy m ts (C x) = Inr (C v))
    \<and> (\<forall>m. map_of m ''value'' = Some v \<longrightarrow>
         (patch_test fl m ts (C x) = Inr (C x)) = json_eq fl x v)
    \<and> (\<forall>m. operation_remove (ts @ [key]) (C (JObject m)) =
         (if map_of m key = None then Inl (out_of_range_key key)
          else Inr (C (JObject (filter (\<lambda>e. fst e \<noteq> key) m)))))
    \<and> (\<not> is_structured x \<longrightarrow> operation_remove (ts @ [key]) (C x) = Inr (C x))"
proof (intro conjI allI impI)
  show "patch_operation fl (op_replace (pointer_to_string ts) v) (C x) = Inr (C v)"
    by (rule patch_replace_at) (rule assms)
next
  fix m :: "(string \<times> 'd json) list"
  assume "map_of m ''from'' = Some (JString (pointer_to_string from')) \<and> get_checked from' reading (C x) = Inr (v, j)"
  then show "patch_copy m ts (C x) = Inr (C v)"
    by (simp add: patch_copy_def patch_simps place_unchecked [OF assms] writing_def)
next
  fix m :: "(string \<times> 'd json) list"
  assume "map_of m ''value'' = Some v"
  then show "(patch_test fl m ts (C x) = Inr (C x)) = json_eq fl x v"
    by (simp add: patch_test_def patch_simps place_checked [OF assms] reading_def)
next
  fix m :: "(string \<times> 'd json) list"
  show "operation_remove (ts @ [key]) (C (JObject m)) =
      (if map_of m key = None then Inl (out_of_range_key key)
       else Inr (C (JObject (filter (\<lambda>e. fst e \<noteq> key) m))))"
    by (auto simp: operation_remove_def place_checked [OF assms] remove_child_def erase_key_def split: option.splits)
next
  assume "\<not> is_structured x"
  then show "operation_remove (ts @ [key]) (C x) = Inr (C x)"
    by (cases x) (simp_all add: operation_remove_at [OF assms] remove_child_def is_structured_def is_array_def is_object_def)
qed

theorem patch_at_place_witness:
  "patch_operation int_dbl (op_replace ''/a'' (JUint 2)) (JObject [(''a'', JUint 1)]) = Inr (JObject [(''a'', JUint 2)])
   \<and> operation_remove [''a'', ''b''] (JObject [(''a'', JUint 1)] :: int json) = Inr (JObject [(''a'', JUint 1)])"
proof -
  have "leads_to [''a''] (\<lambda>x. JObject [(''a'', x)])"
    using place_member [OF place_Nil, of "[]" "''a''" "[]"] by simp
  from patch_at_place [OF this, of int_dbl "JUint 2" "JUint 1" "[]" JNull "''b''"]
  show ?thesis
    by (simp add: pointer_to_string_def escape_chars esc01_def is_structured_def is_array_def is_object_def)
qed

end
