(* ===== verification/JsonFlatten.thy ===== *)
theory JsonFlatten
  imports JsonPatchLaws
begin

text \<open>
  \<open>include/json.h\<close>, \<open>flatten\<close> and \<open>unflatten\<close>: a value as an object whose keys are pointers and whose
  values are primitive.
\<close>

section \<open>Definitions\<close>

text \<open>
  \<open>json_pointer::flatten\<close>; the other two functions are its loops. The result is an object that is
  assigned to.
\<close>

fun flatten_into :: "string \<Rightarrow> 'd json \<Rightarrow> 'd json \<Rightarrow> 'd json res"
  and flatten_elements :: "string \<Rightarrow> nat \<Rightarrow> 'd json list \<Rightarrow> 'd json \<Rightarrow> 'd json res"
  and flatten_members :: "string \<Rightarrow> (string \<times> 'd json) list \<Rightarrow> 'd json \<Rightarrow> 'd json res" where
  "flatten_into ref (JArray xs) result =
     (if xs = [] then json_put result ref JNull else flatten_elements ref 0 xs result)"
| "flatten_into ref (JObject m) result =
     (if m = [] then json_put result ref JNull else flatten_members ref m result)"
| "flatten_into ref JNull result = json_put result ref JNull"
| "flatten_into ref (JString s) result = json_put result ref (JString s)"
| "flatten_into ref (JBool b) result = json_put result ref (JBool b)"
| "flatten_into ref (JInt i) result = json_put result ref (JInt i)"
| "flatten_into ref (JUint u) result = json_put result ref (JUint u)"
| "flatten_into ref (JFloat d) result = json_put result ref (JFloat d)"
| "flatten_into ref JDiscarded result = json_put result ref JDiscarded"
| "flatten_elements ref i [] result = Inr result"
| "flatten_elements ref i (x # xs) result =
     res_bind (flatten_into (ref @ ''/'' @ string_of_nat i) x result) (flatten_elements ref (i + 1) xs)"
| "flatten_members ref [] result = Inr result"
| "flatten_members ref ((key, x) # m) result =
     res_bind (flatten_into (ref @ ''/'' @ escape key) x result) (flatten_members ref m)"

definition json_flatten :: "'d json \<Rightarrow> 'd json res" where
  "json_flatten j = flatten_into [] j (JObject [])"

fun unflatten_members :: "(string \<times> 'd json) list \<Rightarrow> 'd json \<Rightarrow> 'd json res" where
  "unflatten_members [] result = Inr result"
| "unflatten_members ((key, x) # m) result =
     (if \<not> is_primitive x then Inl (Domain_error ''values in object must be primitive'')
      else res_bind (pointer_split key) (\<lambda>ts.
           res_bind (get_and_create ts (writing x) result) (\<lambda>(_, result).
           unflatten_members m result)))"

definition json_unflatten :: "'d json \<Rightarrow> 'd json res" where
  "json_unflatten j =
     (case j of
        JObject m \<Rightarrow> unflatten_members m JNull
      | _ \<Rightarrow> Inl (Domain_error ''only objects can be unflattened''))"

section \<open>What flattening keeps\<close>

text \<open>The entry for what a pointer leads to: the value itself, or null for an empty array or object.\<close>

definition flat_entry :: "'d json \<Rightarrow> string \<times> 'd json \<Rightarrow> bool" where
  "flat_entry j e \<longleftrightarrow> is_primitive (snd e) \<and>
     (\<exists>x. at_pointer (fst e) reading j = Inr (x, j) \<and>
        (snd e = x \<or> snd e = JNull \<and> is_structured x \<and> json_empty x))"

lemma set_map_assign_subset: "set (map_assign k v m) \<subseteq> insert (k, v) (set m)"
  by (induction m) auto

lemma flat_entry_at:
  assumes "leads_to ts C" "is_primitive y" "y = x \<or> y = JNull \<and> is_structured x \<and> json_empty x"
  shows "flat_entry (C x) (pointer_to_string ts, y)"
  using assms place_checked [OF assms(1), of reading x]
  by (auto simp: flat_entry_def at_pointer_def pointer_split_to_string reading_def)

lemma primitives:
  "is_primitive JNull" "is_primitive (JString s)" "is_primitive (JBool b)" "is_primitive (JInt i)"
  "is_primitive (JUint u)" "is_primitive (JFloat d)"
  by (simp_all add: is_primitive_def is_null_def is_string_def is_boolean_def is_number_def is_number_integer_def
      is_number_float_def)

lemma put_flat:
  assumes "flat_entry j (k, v)" "map_sorted m" "\<forall>e\<in>set m. flat_entry j e"
  shows "\<exists>m'. json_put (JObject m) k v = Inr (JObject m') \<and> map_sorted m' \<and> (\<forall>e\<in>set m'. flat_entry j e)"
  using assms set_map_assign_subset [of k v m] by (auto simp: json_put_cases map_sorted_assign)

lemma put_leaf:
  "leads_to ts C \<Longrightarrow> ref = pointer_to_string ts \<Longrightarrow> j = C x \<Longrightarrow> result = JObject m \<Longrightarrow> map_sorted m \<Longrightarrow>
     \<forall>e\<in>set m. flat_entry j e \<Longrightarrow> is_primitive x \<Longrightarrow>
     \<exists>m'. json_put result ref x = Inr (JObject m') \<and> map_sorted m' \<and> (\<forall>e\<in>set m'. flat_entry j e)"
  using put_flat [of j ref x m] flat_entry_at [of ts C x x] by simp

lemma flatten_entries_of:
  "patchable x \<Longrightarrow> leads_to ts C \<Longrightarrow> ref = pointer_to_string ts \<Longrightarrow> j = C x \<Longrightarrow> result = JObject m \<Longrightarrow>
     map_sorted m \<Longrightarrow> \<forall>e\<in>set m. flat_entry j e \<Longrightarrow>
     \<exists>m'. flatten_into ref x result = Inr (JObject m') \<and> map_sorted m' \<and> (\<forall>e\<in>set m'. flat_entry j e)"
  "\<forall>x\<in>set xs. patchable x \<Longrightarrow> length zs + length xs < 2 ^ 31 \<Longrightarrow> i = length zs \<Longrightarrow> leads_to ts C \<Longrightarrow>
     ref = pointer_to_string ts \<Longrightarrow> j = C (JArray (zs @ xs)) \<Longrightarrow> result = JObject m \<Longrightarrow>
     map_sorted m \<Longrightarrow> \<forall>e\<in>set m. flat_entry j e \<Longrightarrow>
     \<exists>m'. flatten_elements ref i xs result = Inr (JObject m') \<and> map_sorted m' \<and> (\<forall>e\<in>set m'. flat_entry j e)"
  "\<forall>e\<in>set ys. patchable (snd e) \<Longrightarrow> map_sorted (ns @ ys) \<Longrightarrow> leads_to ts C \<Longrightarrow>
     ref = pointer_to_string ts \<Longrightarrow> j = C (JObject (ns @ ys)) \<Longrightarrow> result = JObject m \<Longrightarrow>
     map_sorted m \<Longrightarrow> \<forall>e\<in>set m. flat_entry j e \<Longrightarrow>
     \<exists>m'. flatten_members ref ys result = Inr (JObject m') \<and> map_sorted m' \<and> (\<forall>e\<in>set m'. flat_entry j e)"
proof (induction ref x result and ref i xs result and ref ys result
    arbitrary: ts C m and zs ts C m and ns ts C m
    rule: flatten_into_flatten_elements_flatten_members.induct)
  case (1 ref xs result)
  show ?case
  proof (cases "xs = []")
    case True
    then show ?thesis
      using "1.prems" flat_entry_at [OF "1.prems"(2), of JNull "JArray []"]
      by (auto intro!: put_flat simp: primitives is_structured_def is_array_def json_empty_def)
  next
    case False
    then show ?thesis using "1.IH" [of "[]" ts C m] "1.prems" by simp
  qed
next
  case (2 ref n result)
  show ?case
  proof (cases "n = []")
    case True
    then show ?thesis
      using "2.prems" flat_entry_at [OF "2.prems"(2), of JNull "JObject []"]
      by (auto intro!: put_flat simp: primitives is_structured_def is_object_def json_empty_def)
  next
    case False
    then show ?thesis using "2.IH" [of "[]" ts C m] "2.prems" by simp
  qed
next
  case (11 ref i x xs result)
  have "leads_to (ts @ [string_of_nat i]) (\<lambda>y. C (JArray (zs @ y # xs)))"
    using place_element [OF "11.prems"(4), of zs xs] "11.prems"(2,3) by simp
  then obtain m' where m': "flatten_into (ref @ ''/'' @ string_of_nat i) x result = Inr (JObject m')" "map_sorted m'"
      "\<forall>e\<in>set m'. flat_entry j e"
    using "11.IH"(1) [of "ts @ [string_of_nat i]" "\<lambda>y. C (JArray (zs @ y # xs))" m] "11.prems" pointer_index
    by fastforce
  then show ?case
    using "11.IH"(2) [of "JObject m'" "zs @ [x]" ts C m'] "11.prems" by simp
next
  case (13 ref key x ys result)
  have "\<forall>e\<in>set ns. fst e < key" using "13.prems"(2) by (auto simp: map_sorted_def sorted_wrt_append)
  then have "leads_to (ts @ [key]) (\<lambda>y. C (JObject (ns @ (key, y) # ys)))"
    using place_member [OF "13.prems"(3), of ns key ys] by simp
  then obtain m' where m': "flatten_into (ref @ ''/'' @ escape key) x result = Inr (JObject m')" "map_sorted m'"
      "\<forall>e\<in>set m'. flat_entry j e"
    using "13.IH"(1) [of "ts @ [key]" "\<lambda>y. C (JObject (ns @ (key, y) # ys))" m] "13.prems" pointer_member
    by fastforce
  then show ?case
    using "13.IH"(2) [of "JObject m'" "ns @ [(key, x)]" ts C m'] "13.prems" by simp
qed (simp_all only: flatten_into.simps patchable.simps primitives put_leaf, simp_all)

section \<open>Theorems\<close>

text \<open>
  Flattening. The result is an object of primitive values whose keys are pointers into
  the value: each leads to the value of its entry, or to an empty array or object, for which the entry
  is null.
\<close>

theorem flatten_entries:
  assumes "patchable j"
  shows "\<exists>m. json_flatten j = Inr (JObject m) \<and> map_sorted m \<and>
    (\<forall>(k, v)\<in>set m. is_primitive v \<and> (\<exists>x. at_pointer k reading j = Inr (x, j) \<and>
       (v = x \<or> v = JNull \<and> is_structured x \<and> json_empty x)))"
  using flatten_entries_of(1) [OF assms place_Nil, of "[]" j "JObject []" "[]"]
  by (auto simp: json_flatten_def flat_entry_def split_def)

theorem flatten_entries_witness:
  "\<exists>m. json_flatten (JObject [(''a'', JArray [JUint 1, JArray []])]) = Inr (JObject m) \<and> map_sorted m \<and>
    (\<forall>(k, v)\<in>set m. is_primitive v \<and>
       (\<exists>x. at_pointer k reading (JObject [(''a'', JArray [JUint 1, JArray []])])
            = Inr (x, JObject [(''a'', JArray [JUint 1, JArray []])]) \<and>
          (v = x \<or> v = JNull \<and> is_structured x \<and> json_empty x)))"
  by (rule flatten_entries) (simp add: map_sorted_def)

text \<open>
  An object whose first key is 0 comes back as an array: \<open>unflatten\<close> decides by the token alone.
\<close>

theorem unflatten_key_zero:
  "json_flatten (JObject [(''0'', JUint 1)]) = Inr (JObject [(''/0'', JUint 1)])"
  "json_unflatten (JObject [(''/0'', JUint 1)]) = Inr (JArray [JUint 1])"
proof -
  have "pointer_to_string [''0''] = ''/0''" by (simp add: pointer_to_string_def escape_chars esc01_def)
  then have "pointer_split ''/0'' = Inr [''0'']" using pointer_split_to_string [of "[''0'']"] by simp
  then show "json_unflatten (JObject [(''/0'', JUint 1)]) = Inr (JArray [JUint 1])"
    by (simp add: json_unflatten_def primitives index_array_def is_null_def vector_max_size_def writing_def Let_def)
qed (simp add: json_flatten_def json_put_cases escape_chars esc01_def)

end
