(* ===== verification/JsonBytes.thy ===== *)
theory JsonBytes
  imports JsonValue
begin

text \<open>
  \<open>include/json.h\<close>, what the two binary formats share: a vector of bytes that numbers are added to
  with the most significant byte first, and a vector and a position that values are read at. A number
  of one to eight bytes is kept in a word of 64 bits.
\<close>

unbundle bit_operations_syntax

section \<open>Writing numbers\<close>

text \<open>The cases of the \<open>switch\<close> fall through, from 8 to 4, 2 and 1.\<close>

definition add_to_vector :: "byte list \<Rightarrow> nat \<Rightarrow> u64 \<Rightarrow> byte list" where
  "add_to_vector vec bytes number =
     (let byte_at = (\<lambda>k. ucast (drop_bit k number AND 0xff));
          vec = (if bytes = 8 then vec @ map byte_at [56, 48, 40, 32] else vec);
          vec = (if bytes = 8 \<or> bytes = 4 then vec @ map byte_at [24, 16] else vec);
          vec = (if bytes = 8 \<or> bytes = 4 \<or> bytes = 2 then vec @ [byte_at 8] else vec)
      in if bytes = 8 \<or> bytes = 4 \<or> bytes = 2 \<or> bytes = 1 then vec @ [byte_at 0] else vec)"

text \<open>The bits of a double in a 64-bit word, and the doubles of a 32-bit and of a 16-bit format.\<close>

record 'd dbl_bits =
  d_bits :: "'d \<Rightarrow> u64"
  d_of_bits :: "u64 \<Rightarrow> 'd"
  d_of_float :: "u64 \<Rightarrow> 'd"
  d_ldexp :: "int \<Rightarrow> int \<Rightarrow> 'd"
  d_neg :: "'d \<Rightarrow> 'd"
  d_infinity :: 'd
  d_nan :: 'd
  d_finite :: "'d \<Rightarrow> bool"

text \<open>An instance for concrete computations: a double is its bits, and the small formats are not converted.\<close>

definition word_bits :: "u64 dbl_bits" where
  "word_bits = \<lparr>d_bits = (\<lambda>d. d), d_of_bits = (\<lambda>w. w), d_of_float = (\<lambda>w. w),
     d_ldexp = (\<lambda>m e. word_of_int m), d_neg = (\<lambda>d. d XOR 0x8000000000000000),
     d_infinity = 0x7ff0000000000000, d_nan = 0x7ff8000000000000,
     d_finite = (\<lambda>d. d AND 0x7ff0000000000000 \<noteq> 0x7ff0000000000000)\<rparr>"

text \<open>The loop that copies the bytes of a double in reverse order.\<close>

definition write_double :: "'d dbl_bits \<Rightarrow> byte list \<Rightarrow> 'd \<Rightarrow> byte list" where
  "write_double fb vec d =
     (let helper = map (\<lambda>i. ucast (drop_bit (8 * i) (d_bits fb d))) [0..<8]
      in vec @ map (\<lambda>i. helper ! (7 - i)) [0..<8])"

definition write_chars :: "byte list \<Rightarrow> string \<Rightarrow> byte list" where
  "write_chars vec s = vec @ map byte_of s"

section \<open>Reading\<close>

text \<open>\<open>v.at(i)\<close>, with the message of the library's exception.\<close>

definition vector_at :: "byte list \<Rightarrow> nat \<Rightarrow> byte res" where
  "vector_at v i =
     (if i < length v then Inr (v ! i)
      else Inl (Out_of_range (''vector::_M_range_check: __n (which is '' @ string_of_nat i
             @ '') >= this->size() (which is '' @ string_of_nat (length v) @ '')'')))"

text \<open>\<open>check_length\<close>; \<open>size_t\<close> has 64 bits.\<close>

definition check_length :: "nat \<Rightarrow> nat \<Rightarrow> nat \<Rightarrow> unit res" where
  "check_length sz len offset =
     (if sz < len \<or> sz < offset then Inl (Out_of_range ''len out of range'')
      else if 2 ^ 64 - 1 - offset < sz then Inl (Out_of_range ''len+offset out of range'')
      else if sz < len + offset then Inl (Out_of_range ''len+offset out of range'')
      else Inr ())"

definition big_endian :: "byte list \<Rightarrow> u64" where
  "big_endian bs = foldl (\<lambda>r b. push_bit 8 r OR ucast b) 0 bs"

text \<open>\<open>get_from_vector<T>\<close>, where \<open>n\<close> is the size of \<open>T\<close>; the sign is added by \<open>to_signed\<close>.\<close>

definition get_from_vector :: "nat \<Rightarrow> byte list \<Rightarrow> nat \<Rightarrow> u64 res" where
  "get_from_vector n vec current_index =
     (if length vec < current_index + n + 1
      then Inl (Out_of_range (''cannot read '' @ string_of_nat n @ '' bytes from vector''))
      else Inr (big_endian (map (\<lambda>i. vec ! (current_index + 1 + i)) [0..<n])))"

definition to_signed :: "nat \<Rightarrow> u64 \<Rightarrow> u64" where
  "to_signed n w = signed_take_bit (8 * n - 1) w"

text \<open>The loops that copy a float or a double from the bytes after the current one.\<close>

fun read_bytes :: "nat \<Rightarrow> byte list \<Rightarrow> nat \<Rightarrow> byte list res" where
  "read_bytes 0 v i = Inr []"
| "read_bytes (Suc n) v i =
     res_bind (vector_at v i) (\<lambda>b. res_bind (read_bytes n v (i + 1)) (\<lambda>bs. Inr (b # bs)))"

definition read_double :: "'d dbl_bits \<Rightarrow> byte list \<Rightarrow> nat \<Rightarrow> 'd res" where
  "read_double fb v current_idx =
     res_bind (read_bytes 8 v (current_idx + 1)) (\<lambda>bs. Inr (d_of_bits fb (big_endian bs)))"

definition read_float :: "'d dbl_bits \<Rightarrow> byte list \<Rightarrow> nat \<Rightarrow> 'd res" where
  "read_float fb v current_idx =
     res_bind (read_bytes 4 v (current_idx + 1)) (\<lambda>bs. Inr (d_of_float fb (big_endian bs)))"

text \<open>The value made of a double that was read: infinities and NaN become null.\<close>

definition stored_double :: "'d dbl_bits \<Rightarrow> 'd \<Rightarrow> 'd json" where
  "stored_double fb d = (if d_finite fb d then JFloat d else JNull)"

text \<open>
  A string: \<open>len\<close> characters from \<open>offset\<close>, if they are there. \<open>n\<close> is the number of bytes that the
  length is written in, behind the first byte.
\<close>

definition read_chars :: "byte list \<Rightarrow> nat \<Rightarrow> nat \<Rightarrow> ('d json \<times> nat) res" where
  "read_chars v len offset =
     res_bind (check_length (length v) len offset) (\<lambda>_.
     Inr (JString (map char_of_byte (take len (drop offset v))), offset + len))"

definition read_string :: "nat \<Rightarrow> byte list \<Rightarrow> nat \<Rightarrow> ('d json \<times> nat) res" where
  "read_string n v current_idx =
     res_bind (get_from_vector n v current_idx) (\<lambda>len. read_chars v (unat len) (current_idx + n + 1))"

text \<open>An unsigned and a signed number of \<open>n\<close> bytes.\<close>

definition read_unsigned :: "nat \<Rightarrow> byte list \<Rightarrow> nat \<Rightarrow> ('d json \<times> nat) res" where
  "read_unsigned n v current_idx =
     res_bind (get_from_vector n v current_idx) (\<lambda>w. Inr (JUint w, current_idx + n + 1))"

definition read_signed :: "nat \<Rightarrow> byte list \<Rightarrow> nat \<Rightarrow> ('d json \<times> nat) res" where
  "read_signed n v current_idx =
     res_bind (get_from_vector n v current_idx) (\<lambda>w. Inr (JInt (to_signed n w), current_idx + n + 1))"

section \<open>Progress\<close>

text \<open>Whatever is read lies in the vector, behind the first byte.\<close>

lemma get_from_vector_Inr: "get_from_vector n v i = Inr w \<Longrightarrow> i + n < length v"
  by (auto simp: get_from_vector_def split: if_splits)

lemma read_bytes_Inr: "read_bytes n v i = Inr bs \<Longrightarrow> n = 0 \<or> i + n \<le> length v"
  by (induction n arbitrary: i bs) (fastforce simp: vector_at_def res_bind_eq_Inr split: if_splits)+

lemma check_length_Inr: "check_length sz len offset = Inr u \<Longrightarrow> offset + len \<le> sz"
  by (auto simp: check_length_def split: if_splits)

definition within :: "byte list \<Rightarrow> nat \<Rightarrow> ('a \<times> nat) res \<Rightarrow> bool" where
  "within v i r \<longleftrightarrow> (\<forall>x k. r = Inr (x, k) \<longrightarrow> i \<le> k \<and> k \<le> length v)"

lemma within_Inl [simp]: "within v i (Inl e)"
  by (simp add: within_def)

lemma within_Inr [simp]: "within v i (Inr (x, k)) \<longleftrightarrow> i \<le> k \<and> k \<le> length v"
  by (simp add: within_def)

lemma withinD: "within v i r \<Longrightarrow> r = Inr (x, k) \<Longrightarrow> i \<le> k \<and> k \<le> length v"
  by (simp add: within_def)

lemma within_mono: "within v j r \<Longrightarrow> i \<le> j \<Longrightarrow> within v i r"
  by (auto simp: within_def)

lemma within_bind: "(\<And>x. m = Inr x \<Longrightarrow> within v i (f x)) \<Longrightarrow> within v i (res_bind m f)"
  by (cases m) auto

lemma within_if: "(c \<Longrightarrow> within v i r) \<Longrightarrow> (\<not> c \<Longrightarrow> within v i r') \<Longrightarrow> within v i (if c then r else r')"
  by simp

lemma within_reads:
  "i \<le> offset \<Longrightarrow> within v i (read_chars v len offset)" "within v (Suc i) (read_string n v i)"
  "within v (Suc i) (read_unsigned n v i)" "within v (Suc i) (read_signed n v i)"
  by (auto simp: read_chars_def read_string_def read_unsigned_def read_signed_def
      intro!: within_bind dest: check_length_Inr get_from_vector_Inr)

section \<open>Numbers are read back\<close>

text \<open>The bytes of a number, and that they are a codec on the numbers that fit.\<close>

definition bytes_of :: "nat \<Rightarrow> u64 \<Rightarrow> byte list" where
  "bytes_of n w = add_to_vector [] n w"

definition width :: "nat \<Rightarrow> bool" where
  "width n \<longleftrightarrow> n = 1 \<or> n = 2 \<or> n = 4 \<or> n = 8"

lemma add_to_vector_bytes: "add_to_vector v n w = v @ bytes_of n w"
  by (simp add: add_to_vector_def bytes_of_def Let_def)

lemma length_bytes_of: "width n \<Longrightarrow> length (bytes_of n w) = n"
  by (auto simp: width_def bytes_of_def add_to_vector_def Let_def)

lemma big_endian_Nil [simp]: "big_endian [] = 0"
  by (simp add: big_endian_def)

lemma big_endian_snoc [simp]: "big_endian (bs @ [b]) = push_bit 8 (big_endian bs) OR ucast b"
  by (simp add: big_endian_def)

text \<open>The last \<open>n\<close> bytes, read together.\<close>

lemma big_endian_bytes:
  "8 * n \<le> 64 \<Longrightarrow> big_endian (map (\<lambda>k. ucast (drop_bit (8 * k) w :: u64)) (rev [0..<n])) = take_bit (8 * n) w"
proof (induction n arbitrary: w)
  case (Suc n)
  have "[0..<Suc n] = 0 # map Suc [0..<n]"
    by (simp add: map_Suc_upt upt_conv_Cons del: upt_Suc)
  then have "rev [0..<Suc n] = map Suc (rev [0..<n]) @ [0]"
    by (simp add: rev_map)
  then have "big_endian (map (\<lambda>k. ucast (drop_bit (8 * k) w)) (rev [0..<Suc n]))
      = push_bit 8 (big_endian (map (\<lambda>k. ucast (drop_bit (8 * k) (drop_bit 8 w))) (rev [0..<n]))) OR ucast (ucast w :: byte)"
    by (simp add: comp_def drop_bit_drop_bit add.commute)
  also have "\<dots> = push_bit 8 (take_bit (8 * n) (drop_bit 8 w)) OR ucast (ucast w :: byte)"
    by (subst Suc.IH) (use Suc.prems in simp_all)
  also have "\<dots> = take_bit (8 * Suc n) w"
    by (rule bit_word_eqI) (use Suc.prems in \<open>auto simp: bit_simps\<close>)
  finally show ?case .
qed simp

lemma bytes_of_map:
  "width n \<Longrightarrow> bytes_of n w = map (\<lambda>k. ucast (drop_bit (8 * k) w)) (rev [0..<n])"
proof -
  assume n: "width n"
  have ff: "(0xff :: u64) = mask 8" by (simp add: mask_eq_exp_minus_1)
  have b: "ucast (drop_bit k w AND 0xff) = (ucast (drop_bit k w) :: byte)" for k
    unfolding ff by (rule bit_word_eqI) (auto simp: bit_simps)
  show ?thesis
    using n unfolding width_def bytes_of_def add_to_vector_def Let_def b
    by (auto simp: upt_rec [of _ "Suc _"] upt_rec [of _ "numeral _"])
qed

lemma big_endian_bytes_of: "width n \<Longrightarrow> big_endian (bytes_of n w) = take_bit (8 * n) w"
  using big_endian_bytes [of n w] by (auto simp: bytes_of_map width_def)

interpretation words: codec "bytes_of 8" "\<lambda>bs. Some (big_endian bs)" "\<lambda>w. True"
  by unfold_locales (simp add: big_endian_bytes_of width_def take_bit_word_eq_self)

text \<open>Reading behind the first byte of what was written.\<close>

lemma drop_less: "drop i v = b # bs \<Longrightarrow> i < length v \<and> v ! i = b \<and> drop (i + 1) v = bs"
  using Cons_nth_drop_Suc [of i v] by (cases "i < length v") auto

lemma nth_drop_eq: "drop i v = xs @ ys \<Longrightarrow> map (\<lambda>k. v ! (i + k)) [0..<length xs] = xs"
  by (rule nth_equalityI) (simp, metis add.commute append_eq_conv_conj diff_zero length_map length_upt nth_append nth_drop nth_map_upt plus_nat.add_0 nat_le_linear drop_all length_0_conv less_nat_zero_code append_is_Nil_conv)

lemma behind_number:
  assumes "drop i v = b # bytes_of n w @ post" "width n"
  shows "drop (i + n + 1) v = post" "i + n + 1 \<le> length v"
proof -
  have d: "drop (i + 1) v = bytes_of n w @ post" "i < length v"
    using drop_less [OF assms(1)] by auto
  have "drop n (drop (i + 1) v) = post"
    unfolding d(1) using length_bytes_of [OF assms(2)] by simp
  then show "drop (i + n + 1) v = post" by (simp add: add.commute add.left_commute)
  have "length v - (i + 1) = n + length post"
    using arg_cong [OF d(1), of length] length_bytes_of [OF assms(2)] by simp
  with d(2) show "i + n + 1 \<le> length v" by simp
qed

lemma get_from_vector_bytes:
  assumes "drop i v = b # bytes_of n w @ post" "width n"
  shows "get_from_vector n v i = Inr (take_bit (8 * n) w)"
proof -
  have d: "drop (i + 1) v = bytes_of n w @ post" and "i < length v"
    using drop_less [OF assms(1)] by auto
  then have "n \<le> length v - (i + 1)"
    by (metis assms(2) le_add1 length_append length_bytes_of length_drop)
  moreover have "map (\<lambda>k. v ! (i + 1 + k)) [0..<n] = bytes_of n w"
    using nth_drop_eq [OF d] length_bytes_of [OF assms(2)] by simp
  ultimately show ?thesis using \<open>i < length v\<close> big_endian_bytes_of [OF assms(2)]
    by (simp add: get_from_vector_def)
qed

text \<open>Numbers, strings and doubles behind the byte at \<open>i\<close>.\<close>

definition fits :: "nat \<Rightarrow> u64 \<Rightarrow> bool" where
  "fits n w \<longleftrightarrow> take_bit (8 * n) w = w"

lemma fits_less: "unat w < 2 ^ (8 * n) \<Longrightarrow> fits n w"
  by (simp add: fits_def word_unat_eq_iff unsigned_take_bit_eq take_bit_nat_eq_self)

lemma read_unsigned_bytes:
  "drop i v = b # bytes_of n w @ post \<Longrightarrow> width n \<Longrightarrow> fits n w \<Longrightarrow>
     read_unsigned n v i = Inr (JUint w, i + Suc n)"
  by (simp add: read_unsigned_def get_from_vector_bytes fits_def)

lemma to_signed_range:
  assumes "- (2 ^ (8 * n - 1)) \<le> sint w" "sint w < 2 ^ (8 * n - 1)" "width n"
  shows "to_signed n (take_bit (8 * n) w) = w"
proof -
  have "8 * n - 1 < 8 * n" "8 * n - 1 < 64" using assms(3) by (auto simp: width_def)
  then have "to_signed n (take_bit (8 * n) w) = signed_take_bit (8 * n - 1) w"
    by (simp add: to_signed_def signed_take_bit_take_bit)
  also have "\<dots> = word_of_int (signed_take_bit (8 * n - 1) (sint w))"
    using \<open>8 * n - 1 < 64\<close>
    by (cases "8 * n - 1 = 63"; intro bit_word_eqI) (auto simp: bit_simps min_def)
  also have "\<dots> = w"
    using assms(1,2) by (simp add: signed_take_bit_int_eq_self)
  finally show ?thesis .
qed

lemma read_signed_bytes:
  "drop i v = b # bytes_of n w @ post \<Longrightarrow> width n \<Longrightarrow>
     - (2 ^ (8 * n - 1)) \<le> sint w \<Longrightarrow> sint w < 2 ^ (8 * n - 1) \<Longrightarrow>
     read_signed n v i = Inr (JInt w, i + Suc n)"
  by (simp add: read_signed_def get_from_vector_bytes to_signed_range)

text \<open>A vector that exists is smaller than half of the address space.\<close>

lemma check_length_ok: "len + offset \<le> sz \<Longrightarrow> sz < 2 ^ 63 \<Longrightarrow> check_length sz len offset = Inr ()"
  by (simp add: check_length_def)

lemma read_chars_text:
  assumes "drop offset v = map byte_of s @ post" "length v < 2 ^ 63" "offset \<le> length v"
  shows "read_chars v (length s) offset = Inr (JString s, offset + length s)"
proof -
  have "length s + offset \<le> length v"
    using arg_cong [OF assms(1), of length] assms(3) by simp
  then show ?thesis using assms by (simp add: read_chars_def check_length_ok comp_def)
qed

lemma read_string_text:
  assumes "drop i v = b # bytes_of n (word_of_nat (length s)) @ map byte_of s @ post" "width n"
    "length s < 2 ^ (8 * n)" "length v < 2 ^ 63"
  shows "read_string n v i = Inr (JString s, i + Suc n + length s)"
proof -
  have le: "length s < 2 ^ 64"
    using assms(2,3) by (auto simp: width_def)
  then have "unat (word_of_nat (length s) :: u64) = length s"
    by (simp add: unat_of_nat take_bit_nat_eq_self)
  moreover from this have "fits n (word_of_nat (length s))"
    using assms(3) by (intro fits_less) simp
  moreover note behind_number [OF assms(1,2)]
  ultimately show ?thesis
    using get_from_vector_bytes [OF assms(1,2)] read_chars_text [of "i + n + 1" v s post] assms(4)
    by (simp add: read_string_def fits_def)
qed

lemma read_bytes_drop: "drop i v = bs @ post \<Longrightarrow> read_bytes (length bs) v i = Inr bs"
proof (induction bs arbitrary: i)
  case (Cons b bs)
  then show ?case using drop_less [of i v b "bs @ post"] by (simp add: vector_at_def)
qed simp

lemma write_double_bytes: "write_double fb v d = v @ bytes_of 8 (d_bits fb d)"
  by (simp add: write_double_def bytes_of_map width_def upt_rec [of _ "numeral _"])

lemma read_double_bytes:
  assumes "drop i v = b # bytes_of 8 (d_bits fb d) @ post" "d_of_bits fb (d_bits fb d) = d"
  shows "read_double fb v i = Inr d"
proof -
  have "drop (i + 1) v = bytes_of 8 (d_bits fb d) @ post" using drop_less [OF assms(1)] by simp
  from read_bytes_drop [OF this] show ?thesis
    using assms(2) by (simp add: read_double_def length_bytes_of width_def big_endian_bytes_of take_bit_word_eq_self)
qed

lemma u64_le: "(n :: u64) \<le> 0xffffffffffffffff"
proof -
  have "unat n < 2 ^ 64" using unsigned_less [of n] by simp
  then show ?thesis by (simp add: word_le_nat_alt)
qed

lemma fits_le:
  "n \<le> 0xff \<Longrightarrow> fits 1 n" "n \<le> 0xffff \<Longrightarrow> fits 2 n" "n \<le> 0xffffffff \<Longrightarrow> fits 4 n" "fits 8 n"
  using unsigned_less [of n] by (auto intro!: fits_less simp: word_le_nat_alt)

text \<open>Values that have an encoding: lengths that fit 32 bits, sorted objects, nothing discarded.\<close>

function packable :: "'d json \<Rightarrow> bool" where
  "packable JNull = True"
| "packable (JObject m) =
     (length m < 2 ^ 32 \<and> map_sorted m \<and> (\<forall>e\<in>set m. length (fst e) < 2 ^ 32 \<and> packable (snd e)))"
| "packable (JArray xs) = (length xs < 2 ^ 32 \<and> (\<forall>x\<in>set xs. packable x))"
| "packable (JString s) = (length s < 2 ^ 32)"
| "packable (JBool b) = True"
| "packable (JInt i) = True"
| "packable (JUint u) = True"
| "packable (JFloat d) = True"
| "packable JDiscarded = False"
  by pat_completeness auto
termination
  by (relation "measure size") (auto dest!: json_size simp del: json.size)

text \<open>
  What becomes of a value that is written and read: numbers that are not negative are unsigned, and
  doubles that are not finite are null.
\<close>

function settled :: "'d dbl_bits \<Rightarrow> 'd json \<Rightarrow> 'd json" where
  "settled fb JNull = JNull"
| "settled fb (JObject m) = JObject (map (\<lambda>e. (fst e, settled fb (snd e))) m)"
| "settled fb (JArray xs) = JArray (map (settled fb) xs)"
| "settled fb (JString s) = JString s"
| "settled fb (JBool b) = JBool b"
| "settled fb (JInt i) = (if 0 \<le> sint i then JUint i else JInt i)"
| "settled fb (JUint u) = JUint u"
| "settled fb (JFloat d) = (if d_finite fb d then JFloat d else JNull)"
| "settled fb JDiscarded = JDiscarded"
  by pat_completeness auto
termination
  by (relation "measure (\<lambda>x. size (snd x))") (auto dest!: json_size simp del: json.size)

section \<open>The loops of a reader\<close>

text \<open>
  Both formats read an array and an object element by element. What these loops do follows from what
  the reader of a value does.
\<close>

locale byte_reader =
  fixes get :: "byte list \<Rightarrow> nat \<Rightarrow> ('d json \<times> nat) res"
    and elements :: "byte list \<Rightarrow> nat \<Rightarrow> nat \<Rightarrow> 'd json \<Rightarrow> ('d json \<times> nat) res"
    and members :: "byte list \<Rightarrow> nat \<Rightarrow> nat \<Rightarrow> 'd json \<Rightarrow> ('d json \<times> nat) res"
  assumes elements_loop: "elements v len idx result =
      (if len = 0 then Inr (result, idx)
       else res_bind (get v idx) (\<lambda>(x, idx).
            res_bind (json_push_back result x) (\<lambda>result.
            elements v (len - 1) idx result)))"
    and members_loop: "members v len idx result =
      (if len = 0 then Inr (result, idx)
       else res_bind (get v idx) (\<lambda>(k, idx).
            res_bind (get_string k) (\<lambda>key.
            res_bind (get v idx) (\<lambda>(x, idx).
            res_bind (json_put result key x) (\<lambda>result.
            members v (len - 1) idx result)))))"
begin

text \<open>The bytes are read as a value, wherever they are, and what follows is not touched.\<close>

definition reads_as :: "byte list \<Rightarrow> 'd json \<Rightarrow> bool" where
  "reads_as bs j \<longleftrightarrow>
     (\<forall>v i post. length v < 2 ^ 63 \<longrightarrow> drop i v = bs @ post \<longrightarrow> get v i = Inr (j, i + length bs))"

lemma reads_asD: "reads_as bs j \<Longrightarrow> length v < 2 ^ 63 \<Longrightarrow> drop i v = bs @ post \<Longrightarrow> get v i = Inr (j, i + length bs)"
  by (simp add: reads_as_def)

lemma drop_behind: "drop i v = bs @ post \<Longrightarrow> drop (i + length bs) v = post"
  by (metis add.commute append_eq_conv_conj drop_drop)

lemma elements_back:
  "list_all2 reads_as bss xs \<Longrightarrow> length v < 2 ^ 63 \<Longrightarrow> drop i v = concat bss @ post \<Longrightarrow>
     elements v (length xs) i (JArray acc) = Inr (JArray (acc @ xs), i + length (concat bss))"
proof (induction bss xs arbitrary: i acc rule: list_all2_induct)
  case Nil
  then show ?case by (simp add: elements_loop)
next
  case (Cons bs bss x xs)
  have "get v i = Inr (x, i + length bs)" "drop (i + length bs) v = concat bss @ post"
    using Cons.hyps(1) Cons.prems by (auto intro!: reads_asD drop_behind)
  then show ?case
    using Cons.IH [of "i + length bs" "acc @ [x]"] Cons.prems
    by (subst elements_loop) (simp add: json_push_back_def is_null_def is_array_def)
qed

lemma members_back:
  "list_all2 (\<lambda>b e. reads_as (fst b) (JString (fst e)) \<and> reads_as (snd b) (snd e)) bss m \<Longrightarrow>
     length v < 2 ^ 63 \<Longrightarrow> drop i v = concat (map (\<lambda>b. fst b @ snd b) bss) @ post \<Longrightarrow> map_sorted (acc @ m) \<Longrightarrow>
     members v (length m) i (JObject acc) = Inr (JObject (acc @ m), i + length (concat (map (\<lambda>b. fst b @ snd b) bss)))"
proof (induction bss m arbitrary: i acc rule: list_all2_induct)
  case Nil
  then show ?case by (simp add: members_loop)
next
  case (Cons b bss e m)
  let ?k = "i + length (fst b)"
  have get: "get v i = Inr (JString (fst e), ?k)" "get v ?k = Inr (snd e, ?k + length (snd b))"
    and rest: "drop (?k + length (snd b)) v = concat (map (\<lambda>b. fst b @ snd b) bss) @ post"
    using Cons.hyps(1) Cons.prems(1,2) by (auto intro!: reads_asD drop_behind)
  have sorted: "map_sorted ((acc @ [e]) @ m)" "\<forall>k\<in>fst ` set acc. k < fst e"
    using Cons.prems(3) by (auto simp: map_sorted_def sorted_wrt_append)
  have "json_put (JObject acc) (fst e) (snd e) = Inr (JObject (acc @ [e]))"
    using map_assign_last [OF sorted(2), of "snd e"] by (simp add: json_put_cases)
  then show ?case
    using Cons.IH [OF Cons.prems(1) rest sorted(1)] get
    by (subst members_loop) (simp add: is_string_def get_string_def algebra_simps)
qed

end

end
