(* ===== verification/Cbor.thy ===== *)
theory Cbor
  imports JsonBytes
begin

text \<open>
  \<open>include/json.h\<close>, CBOR: \<open>to_cbor_internal\<close> and \<open>from_cbor_internal\<close> with their branches in the order of
  the source.
\<close>

section \<open>Writing\<close>

text \<open>A number that is not negative, the number behind a negative one, and a length, with the major type.\<close>

definition cbor_unsigned :: "u64 \<Rightarrow> byte list \<Rightarrow> byte list" where
  "cbor_unsigned n v =
     (if n \<le> 0x17 then add_to_vector v 1 n
      else if n \<le> 0xff then add_to_vector (v @ [0x18]) 1 n
      else if n \<le> 0xffff then add_to_vector (v @ [0x19]) 2 n
      else if n \<le> 0xffffffff then add_to_vector (v @ [0x1a]) 4 n
      else add_to_vector (v @ [0x1b]) 8 n)"

definition cbor_negative :: "u64 \<Rightarrow> byte list \<Rightarrow> byte list" where
  "cbor_negative n v =
     (let positive_number = - 1 - n
      in if - 24 \<le> sint n then v @ [ucast (0x20 + positive_number)]
         else if sint positive_number \<le> 0xff then add_to_vector (v @ [0x38]) 1 positive_number
         else if sint positive_number \<le> 0xffff then add_to_vector (v @ [0x39]) 2 positive_number
         else if sint positive_number \<le> 0xffffffff then add_to_vector (v @ [0x3a]) 4 positive_number
         else add_to_vector (v @ [0x3b]) 8 positive_number)"

text \<open>
  The heads of strings, arrays and objects differ in the first byte only: \<open>first\<close> is 0x60, 0x80 or
  0xa0.
\<close>

definition cbor_head :: "byte \<Rightarrow> nat \<Rightarrow> byte list \<Rightarrow> byte list" where
  "cbor_head first N v =
     (if N \<le> 0x17 then v @ [first + word_of_nat N]
      else if N \<le> 0xff then add_to_vector (v @ [first + 0x18]) 1 (word_of_nat N)
      else if N \<le> 0xffff then add_to_vector (v @ [first + 0x19]) 2 (word_of_nat N)
      else if N \<le> 0xffffffff then add_to_vector (v @ [first + 0x1a]) 4 (word_of_nat N)
      else if N \<le> 0xffffffffffffffff then add_to_vector (v @ [first + 0x1b]) 8 (word_of_nat N)
      else v)"

definition cbor_string :: "string \<Rightarrow> byte list \<Rightarrow> byte list" where
  "cbor_string s v = write_chars (cbor_head 0x60 (length s) v) s"

fun to_cbor_internal :: "'d dbl_bits \<Rightarrow> 'd json \<Rightarrow> byte list \<Rightarrow> byte list"
  and to_cbor_elements :: "'d dbl_bits \<Rightarrow> 'd json list \<Rightarrow> byte list \<Rightarrow> byte list"
  and to_cbor_members :: "'d dbl_bits \<Rightarrow> (string \<times> 'd json) list \<Rightarrow> byte list \<Rightarrow> byte list" where
  "to_cbor_internal fb JNull v = v @ [0xf6]"
| "to_cbor_internal fb (JBool b) v = v @ [if b then 0xf5 else 0xf4]"
| "to_cbor_internal fb (JInt n) v = (if 0 \<le> sint n then cbor_unsigned n v else cbor_negative n v)"
| "to_cbor_internal fb (JUint n) v = cbor_unsigned n v"
| "to_cbor_internal fb (JFloat d) v = write_double fb (v @ [0xfb]) d"
| "to_cbor_internal fb (JString s) v = cbor_string s v"
| "to_cbor_internal fb (JArray xs) v = to_cbor_elements fb xs (cbor_head 0x80 (length xs) v)"
| "to_cbor_internal fb (JObject m) v = to_cbor_members fb m (cbor_head 0xa0 (length m) v)"
| "to_cbor_internal fb JDiscarded v = v"
| "to_cbor_elements fb [] v = v"
| "to_cbor_elements fb (x # xs) v = to_cbor_elements fb xs (to_cbor_internal fb x v)"
| "to_cbor_members fb [] v = v"
| "to_cbor_members fb ((key, x) # m) v =
     to_cbor_members fb m (to_cbor_internal fb x (cbor_string key v))"

definition to_cbor :: "'d dbl_bits \<Rightarrow> 'd json \<Rightarrow> byte list" where
  "to_cbor fb j = to_cbor_internal fb j []"

section \<open>Reading\<close>

text \<open>A negative number of \<open>n\<close> bytes, and the conversion of a half-precision number (RFC 7049, appendix D).\<close>

definition cbor_read_negative :: "nat \<Rightarrow> byte list \<Rightarrow> nat \<Rightarrow> ('d json \<times> nat) res" where
  "cbor_read_negative n v current_idx =
     res_bind (get_from_vector n v current_idx) (\<lambda>w. Inr (JInt (- 1 - w), current_idx + n + 1))"

definition half_value :: "'d dbl_bits \<Rightarrow> nat \<Rightarrow> 'd" where
  "half_value fb half =
     (let exp = drop_bit 10 half AND 0x1f; mant = half AND 0x3ff;
          val = (if exp = 0 then d_ldexp fb (int mant) (- 24)
                 else if exp \<noteq> 31 then d_ldexp fb (int (mant + 1024)) (int exp - 25)
                 else if mant = 0 then d_infinity fb else d_nan fb)
      in if half AND 0x8000 \<noteq> 0 then d_neg fb val else val)"

definition read_half :: "'d dbl_bits \<Rightarrow> byte list \<Rightarrow> nat \<Rightarrow> 'd res" where
  "read_half fb v current_idx =
     res_bind (vector_at v (current_idx + 1)) (\<lambda>high.
     res_bind (vector_at v (current_idx + 2)) (\<lambda>low.
     Inr (half_value fb (push_bit 8 (unat high) + unat low))))"

text \<open>
  The other five functions are the loops: over elements and members, with a length and up to the break
  byte, and over the chunks of a string.
\<close>

function from_cbor_internal :: "'d dbl_bits \<Rightarrow> byte list \<Rightarrow> nat \<Rightarrow> ('d json \<times> nat) res"
  and cbor_elements :: "'d dbl_bits \<Rightarrow> byte list \<Rightarrow> nat \<Rightarrow> nat \<Rightarrow> 'd json \<Rightarrow> ('d json \<times> nat) res"
  and cbor_members :: "'d dbl_bits \<Rightarrow> byte list \<Rightarrow> nat \<Rightarrow> nat \<Rightarrow> 'd json \<Rightarrow> ('d json \<times> nat) res"
  and cbor_chunks :: "'d dbl_bits \<Rightarrow> byte list \<Rightarrow> nat \<Rightarrow> string \<Rightarrow> ('d json \<times> nat) res"
  and cbor_open_elements :: "'d dbl_bits \<Rightarrow> byte list \<Rightarrow> nat \<Rightarrow> 'd json \<Rightarrow> ('d json \<times> nat) res"
  and cbor_open_members :: "'d dbl_bits \<Rightarrow> byte list \<Rightarrow> nat \<Rightarrow> 'd json \<Rightarrow> ('d json \<times> nat) res" where
  "from_cbor_internal fb v idx =
     (let current_idx = idx; idx = idx + 1 in
     res_bind (vector_at v current_idx) (\<lambda>b.
     if b \<le> 0x17 then Inr (JUint (ucast b), idx)
     else if b = 0x18 then read_unsigned 1 v current_idx
     else if b = 0x19 then read_unsigned 2 v current_idx
     else if b = 0x1a then read_unsigned 4 v current_idx
     else if b = 0x1b then read_unsigned 8 v current_idx
     else if 0x20 \<le> b \<and> b \<le> 0x37 then Inr (JInt (scast (0x20 - 1 - b)), idx)
     else if b = 0x38 then cbor_read_negative 1 v current_idx
     else if b = 0x39 then cbor_read_negative 2 v current_idx
     else if b = 0x3a then cbor_read_negative 4 v current_idx
     else if b = 0x3b then cbor_read_negative 8 v current_idx
     else if 0x60 \<le> b \<and> b \<le> 0x77 then read_chars v (unat (b - 0x60)) (current_idx + 1)
     else if b = 0x78 then read_string 1 v current_idx
     else if b = 0x79 then read_string 2 v current_idx
     else if b = 0x7a then read_string 4 v current_idx
     else if b = 0x7b then read_string 8 v current_idx
     else if b = 0x7f then cbor_chunks fb v idx []
     else if 0x80 \<le> b \<and> b \<le> 0x97 then cbor_elements fb v (unat (b - 0x80)) idx (JArray [])
     else if b = 0x98 then
       res_bind (get_from_vector 1 v current_idx) (\<lambda>len. cbor_elements fb v (unat len) (idx + 1) (JArray []))
     else if b = 0x99 then
       res_bind (get_from_vector 2 v current_idx) (\<lambda>len. cbor_elements fb v (unat len) (idx + 2) (JArray []))
     else if b = 0x9a then
       res_bind (get_from_vector 4 v current_idx) (\<lambda>len. cbor_elements fb v (unat len) (idx + 4) (JArray []))
     else if b = 0x9b then
       res_bind (get_from_vector 8 v current_idx) (\<lambda>len. cbor_elements fb v (unat len) (idx + 8) (JArray []))
     else if b = 0x9f then cbor_open_elements fb v idx (JArray [])
     else if 0xa0 \<le> b \<and> b \<le> 0xb7 then cbor_members fb v (unat (b - 0xa0)) idx (JObject [])
     else if b = 0xb8 then
       res_bind (get_from_vector 1 v current_idx) (\<lambda>len. cbor_members fb v (unat len) (idx + 1) (JObject []))
     else if b = 0xb9 then
       res_bind (get_from_vector 2 v current_idx) (\<lambda>len. cbor_members fb v (unat len) (idx + 2) (JObject []))
     else if b = 0xba then
       res_bind (get_from_vector 4 v current_idx) (\<lambda>len. cbor_members fb v (unat len) (idx + 4) (JObject []))
     else if b = 0xbb then
       res_bind (get_from_vector 8 v current_idx) (\<lambda>len. cbor_members fb v (unat len) (idx + 8) (JObject []))
     else if b = 0xbf then cbor_open_members fb v idx (JObject [])
     else if b = 0xf4 then Inr (JBool False, idx)
     else if b = 0xf5 then Inr (JBool True, idx)
     else if b = 0xf6 then Inr (JNull, idx)
     else if b = 0xf9 then res_bind (read_half fb v current_idx) (\<lambda>d. Inr (stored_double fb d, idx + 2))
     else if b = 0xfa then res_bind (read_float fb v current_idx) (\<lambda>d. Inr (stored_double fb d, idx + 4))
     else if b = 0xfb then res_bind (read_double fb v current_idx) (\<lambda>d. Inr (stored_double fb d, idx + 8))
     else Inl (Invalid_argument (''error parsing a CBOR @ '' @ string_of_nat current_idx @ '': '' @
            string_of_nat (unat b)))))"
| "cbor_elements fb v len idx result =
     (if len = 0 then Inr (result, idx)
      else res_bind (from_cbor_internal fb v idx) (\<lambda>(x, idx).
           res_bind (json_push_back result x) (\<lambda>result.
           cbor_elements fb v (len - 1) idx result)))"
| "cbor_members fb v len idx result =
     (if len = 0 then Inr (result, idx)
      else res_bind (from_cbor_internal fb v idx) (\<lambda>(k, idx).
           res_bind (get_string k) (\<lambda>key.
           res_bind (from_cbor_internal fb v idx) (\<lambda>(x, idx).
           res_bind (json_put result key x) (\<lambda>result.
           cbor_members fb v (len - 1) idx result)))))"
| "cbor_chunks fb v idx result =
     res_bind (vector_at v idx) (\<lambda>b.
     if b = 0xff then Inr (JString result, idx + 1)
     else res_bind (from_cbor_internal fb v idx) (\<lambda>(x, idx).
          res_bind (get_string x) (\<lambda>s.
          cbor_chunks fb v idx (result @ s))))"
| "cbor_open_elements fb v idx result =
     res_bind (vector_at v idx) (\<lambda>b.
     if b = 0xff then Inr (result, idx + 1)
     else res_bind (from_cbor_internal fb v idx) (\<lambda>(x, idx).
          res_bind (json_push_back result x) (\<lambda>result.
          cbor_open_elements fb v idx result)))"
| "cbor_open_members fb v idx result =
     res_bind (vector_at v idx) (\<lambda>b.
     if b = 0xff then Inr (result, idx + 1)
     else res_bind (from_cbor_internal fb v idx) (\<lambda>(k, idx).
          res_bind (get_string k) (\<lambda>key.
          res_bind (from_cbor_internal fb v idx) (\<lambda>(x, idx).
          res_bind (json_put result key x) (\<lambda>result.
          cbor_open_members fb v idx result)))))"
  by pat_completeness auto

abbreviation "cbor_dom \<equiv> from_cbor_internal_cbor_elements_cbor_members_cbor_chunks_cbor_open_elements_cbor_open_members_dom"

lemma vector_at_Inr: "vector_at v i = Inr b \<Longrightarrow> i < length v"
  by (auto simp: vector_at_def split: if_splits)

lemma cbor_within:
  "cbor_dom (Inl (Inl (fb, v, idx))) \<Longrightarrow> within v (Suc idx) (from_cbor_internal fb v idx)"
  "cbor_dom (Inl (Inr (Inl (fb, v, len, idx, result)))) \<Longrightarrow>
     idx \<le> length v \<longrightarrow> within v idx (cbor_elements fb v len idx result)"
  "cbor_dom (Inl (Inr (Inr (fb, v, len, idx, result)))) \<Longrightarrow>
     idx \<le> length v \<longrightarrow> within v idx (cbor_members fb v len idx result)"
  "cbor_dom (Inr (Inl (fb, v, idx, str))) \<Longrightarrow> within v idx (cbor_chunks fb v idx str)"
  "cbor_dom (Inr (Inr (Inl (fb, v, idx, result)))) \<Longrightarrow> within v idx (cbor_open_elements fb v idx result)"
  "cbor_dom (Inr (Inr (Inr (fb, v, idx, result)))) \<Longrightarrow> within v idx (cbor_open_members fb v idx result)"
proof (induction fb v idx and fb v len idx result and fb v len idx result and fb v idx str and
    fb v idx result and fb v idx result
    rule: from_cbor_internal_cbor_elements_cbor_members_cbor_chunks_cbor_open_elements_cbor_open_members.pinduct)
  case (1 fb v idx)
  note loops = "1.IH"(2-6,8-12) [OF refl refl, THEN mp, THEN within_mono]
    "1.IH"(1,7,13) [OF refl refl, THEN within_mono]
  show ?case
    unfolding from_cbor_internal.psimps [OF "1.hyps"] Let_def
    by (intro within_bind within_if)
      ((rule loops; (assumption | force dest!: vector_at_Inr get_from_vector_Inr)) |
       (auto intro!: within_reads simp: read_float_def read_double_def read_half_def cbor_read_negative_def
         intro!: within_bind dest!: vector_at_Inr get_from_vector_Inr read_bytes_Inr simp: res_bind_eq_Inr; fail))+
next
  case (2 fb v len idx result)
  show ?case
    unfolding cbor_elements.psimps [OF "2.hyps"]
    using "2.IH" by (fastforce intro!: within_bind dest: withinD intro: within_mono)
next
  case (3 fb v len idx result)
  show ?case
    unfolding cbor_members.psimps [OF "3.hyps"]
    using "3.IH" by (fastforce intro!: within_bind dest: withinD intro: within_mono)
next
  case (4 fb v idx str)
  show ?case
    unfolding cbor_chunks.psimps [OF "4.hyps"]
    using "4.IH" by (fastforce intro!: within_bind dest: withinD vector_at_Inr intro: within_mono)
next
  case (5 fb v idx result)
  show ?case
    unfolding cbor_open_elements.psimps [OF "5.hyps"]
    using "5.IH" by (fastforce intro!: within_bind dest: withinD vector_at_Inr intro: within_mono)
next
  case (6 fb v idx result)
  show ?case
    unfolding cbor_open_members.psimps [OF "6.hyps"]
    using "6.IH" by (fastforce intro!: within_bind dest: withinD vector_at_Inr intro: within_mono)
qed

lemma cbor_total: "\<forall>x. cbor_dom x"
  by (relation "measure
    (\<lambda>x. case x of Inl (Inl (fb, v, idx)) \<Rightarrow> 2 * (length v - idx)
       | Inl (Inr (Inl (fb, v, len, idx, result))) \<Rightarrow> 2 * (length v - idx) + 1
       | Inl (Inr (Inr (fb, v, len, idx, result))) \<Rightarrow> 2 * (length v - idx) + 1
       | Inr (Inl (fb, v, idx, str)) \<Rightarrow> 2 * (length v - idx) + 1
       | Inr (Inr (Inl (fb, v, idx, result))) \<Rightarrow> 2 * (length v - idx) + 1
       | Inr (Inr (Inr (fb, v, idx, result))) \<Rightarrow> 2 * (length v - idx) + 1)")
    (auto dest!: vector_at_Inr get_from_vector_Inr withinD [OF cbor_within(1)])

termination from_cbor_internal
  by (rule cbor_total)

declare from_cbor_internal.simps [simp del] cbor_elements.simps [simp del] cbor_members.simps [simp del]
  cbor_chunks.simps [simp del] cbor_open_elements.simps [simp del] cbor_open_members.simps [simp del]

definition from_cbor :: "'d dbl_bits \<Rightarrow> byte list \<Rightarrow> 'd json res" where
  "from_cbor fb v = res_bind (from_cbor_internal fb v 0) (\<lambda>(j, i). Inr j)"

end
