(* ===== verification/MsgPack.thy ===== *)
theory MsgPack
  imports JsonBytes
begin

text \<open>
  \<open>include/json.h\<close>, MessagePack: \<open>to_msgpack_internal\<close> and \<open>from_msgpack_internal\<close> with their branches in
  the order of the source.
\<close>

section \<open>Writing\<close>

text \<open>The branches for unsigned numbers, which the signed ones that are not negative share.\<close>

definition msgpack_unsigned :: "u64 \<Rightarrow> byte list \<Rightarrow> byte list" where
  "msgpack_unsigned n v =
     (if n < 128 then add_to_vector v 1 n
      else if n \<le> 0xff then add_to_vector (v @ [0xcc]) 1 n
      else if n \<le> 0xffff then add_to_vector (v @ [0xcd]) 2 n
      else if n \<le> 0xffffffff then add_to_vector (v @ [0xce]) 4 n
      else if n \<le> 0xffffffffffffffff then add_to_vector (v @ [0xcf]) 8 n
      else v)"

definition msgpack_negative :: "u64 \<Rightarrow> byte list \<Rightarrow> byte list" where
  "msgpack_negative n v =
     (if - 32 \<le> sint n then add_to_vector v 1 n
      else if - (2 ^ 7) \<le> sint n \<and> sint n < 2 ^ 7 then add_to_vector (v @ [0xd0]) 1 n
      else if - (2 ^ 15) \<le> sint n \<and> sint n < 2 ^ 15 then add_to_vector (v @ [0xd1]) 2 n
      else if - (2 ^ 31) \<le> sint n \<and> sint n < 2 ^ 31 then add_to_vector (v @ [0xd2]) 4 n
      else if - (2 ^ 63) \<le> sint n \<and> sint n < 2 ^ 63 then add_to_vector (v @ [0xd3]) 8 n
      else v)"

text \<open>The heads of strings, arrays and objects; a length that does not fit gets none.\<close>

definition msgpack_string :: "string \<Rightarrow> byte list \<Rightarrow> byte list" where
  "msgpack_string s v =
     (let N = length s;
          v = (if N \<le> 31 then v @ [0xa0 OR word_of_nat N]
               else if N \<le> 255 then add_to_vector (v @ [0xd9]) 1 (word_of_nat N)
               else if N \<le> 65535 then add_to_vector (v @ [0xda]) 2 (word_of_nat N)
               else if N \<le> 4294967295 then add_to_vector (v @ [0xdb]) 4 (word_of_nat N)
               else v)
      in write_chars v s)"

definition msgpack_array_head :: "nat \<Rightarrow> byte list \<Rightarrow> byte list" where
  "msgpack_array_head N v =
     (if N \<le> 15 then v @ [0x90 OR word_of_nat N]
      else if N \<le> 0xffff then add_to_vector (v @ [0xdc]) 2 (word_of_nat N)
      else if N \<le> 0xffffffff then add_to_vector (v @ [0xdd]) 4 (word_of_nat N)
      else v)"

definition msgpack_object_head :: "nat \<Rightarrow> byte list \<Rightarrow> byte list" where
  "msgpack_object_head N v =
     (if N \<le> 15 then v @ [0x80 OR (word_of_nat N AND 0xf)]
      else if N \<le> 65535 then add_to_vector (v @ [0xde]) 2 (word_of_nat N)
      else if N \<le> 4294967295 then add_to_vector (v @ [0xdf]) 4 (word_of_nat N)
      else v)"

text \<open>A key is written as the string value it is converted to.\<close>

fun to_msgpack_internal :: "'d dbl_bits \<Rightarrow> 'd json \<Rightarrow> byte list \<Rightarrow> byte list"
  and to_msgpack_elements :: "'d dbl_bits \<Rightarrow> 'd json list \<Rightarrow> byte list \<Rightarrow> byte list"
  and to_msgpack_members :: "'d dbl_bits \<Rightarrow> (string \<times> 'd json) list \<Rightarrow> byte list \<Rightarrow> byte list" where
  "to_msgpack_internal fb JNull v = v @ [0xc0]"
| "to_msgpack_internal fb (JBool b) v = v @ [if b then 0xc3 else 0xc2]"
| "to_msgpack_internal fb (JInt n) v = (if 0 \<le> sint n then msgpack_unsigned n v else msgpack_negative n v)"
| "to_msgpack_internal fb (JUint n) v = msgpack_unsigned n v"
| "to_msgpack_internal fb (JFloat d) v = write_double fb (v @ [0xcb]) d"
| "to_msgpack_internal fb (JString s) v = msgpack_string s v"
| "to_msgpack_internal fb (JArray xs) v = to_msgpack_elements fb xs (msgpack_array_head (length xs) v)"
| "to_msgpack_internal fb (JObject m) v = to_msgpack_members fb m (msgpack_object_head (length m) v)"
| "to_msgpack_internal fb JDiscarded v = v"
| "to_msgpack_elements fb [] v = v"
| "to_msgpack_elements fb (x # xs) v = to_msgpack_elements fb xs (to_msgpack_internal fb x v)"
| "to_msgpack_members fb [] v = v"
| "to_msgpack_members fb ((key, x) # m) v =
     to_msgpack_members fb m (to_msgpack_internal fb x (msgpack_string key v))"

definition to_msgpack :: "'d dbl_bits \<Rightarrow> 'd json \<Rightarrow> byte list" where
  "to_msgpack fb j = to_msgpack_internal fb j []"

section \<open>Reading\<close>

text \<open>
  \<open>from_msgpack_internal\<close> returns the value and the position behind it; the other two functions are the
  loops over the elements of an array and over the members of an object.
\<close>

function from_msgpack_internal :: "'d dbl_bits \<Rightarrow> byte list \<Rightarrow> nat \<Rightarrow> ('d json \<times> nat) res"
  and msgpack_elements :: "'d dbl_bits \<Rightarrow> byte list \<Rightarrow> nat \<Rightarrow> nat \<Rightarrow> 'd json \<Rightarrow> ('d json \<times> nat) res"
  and msgpack_members :: "'d dbl_bits \<Rightarrow> byte list \<Rightarrow> nat \<Rightarrow> nat \<Rightarrow> 'd json \<Rightarrow> ('d json \<times> nat) res" where
  "from_msgpack_internal fb v idx =
     res_bind (check_length (length v) 1 idx) (\<lambda>_.
     let current_idx = idx; idx = idx + 1; b = v ! current_idx in
     if b \<le> 0xbf then
       if b \<le> 0x7f then Inr (JUint (ucast b), idx)
       else if b \<le> 0x8f then msgpack_members fb v (unat (b AND 0x0f)) idx (JObject [])
       else if b \<le> 0x9f then msgpack_elements fb v (unat (b AND 0x0f)) idx (JArray [])
       else read_chars v (unat (b AND 0x1f)) (current_idx + 1)
     else if 0xe0 \<le> b then Inr (JInt (scast b), idx)
     else if b = 0xc0 then Inr (JNull, idx)
     else if b = 0xc2 then Inr (JBool False, idx)
     else if b = 0xc3 then Inr (JBool True, idx)
     else if b = 0xca then res_bind (read_float fb v current_idx) (\<lambda>d. Inr (stored_double fb d, idx + 4))
     else if b = 0xcb then res_bind (read_double fb v current_idx) (\<lambda>d. Inr (stored_double fb d, idx + 8))
     else if b = 0xcc then read_unsigned 1 v current_idx
     else if b = 0xcd then read_unsigned 2 v current_idx
     else if b = 0xce then read_unsigned 4 v current_idx
     else if b = 0xcf then read_unsigned 8 v current_idx
     else if b = 0xd0 then read_signed 1 v current_idx
     else if b = 0xd1 then read_signed 2 v current_idx
     else if b = 0xd2 then read_signed 4 v current_idx
     else if b = 0xd3 then read_signed 8 v current_idx
     else if b = 0xd9 then read_string 1 v current_idx
     else if b = 0xda then read_string 2 v current_idx
     else if b = 0xdb then read_string 4 v current_idx
     else if b = 0xdc then
       res_bind (get_from_vector 2 v current_idx) (\<lambda>len. msgpack_elements fb v (unat len) (idx + 2) (JArray []))
     else if b = 0xdd then
       res_bind (get_from_vector 4 v current_idx) (\<lambda>len. msgpack_elements fb v (unat len) (idx + 4) (JArray []))
     else if b = 0xde then
       res_bind (get_from_vector 2 v current_idx) (\<lambda>len. msgpack_members fb v (unat len) (idx + 2) (JObject []))
     else if b = 0xdf then
       res_bind (get_from_vector 4 v current_idx) (\<lambda>len. msgpack_members fb v (unat len) (idx + 4) (JObject []))
     else Inl (Invalid_argument (''error parsing a msgpack @ '' @ string_of_nat current_idx @ '': '' @
            string_of_nat (unat b))))"
| "msgpack_elements fb v len idx result =
     (if len = 0 then Inr (result, idx)
      else res_bind (from_msgpack_internal fb v idx) (\<lambda>(x, idx).
           res_bind (json_push_back result x) (\<lambda>result.
           msgpack_elements fb v (len - 1) idx result)))"
| "msgpack_members fb v len idx result =
     (if len = 0 then Inr (result, idx)
      else res_bind (from_msgpack_internal fb v idx) (\<lambda>(k, idx).
           res_bind (get_string k) (\<lambda>key.
           res_bind (from_msgpack_internal fb v idx) (\<lambda>(x, idx).
           res_bind (json_put result key x) (\<lambda>result.
           msgpack_members fb v (len - 1) idx result)))))"
  by pat_completeness auto

abbreviation "msgpack_dom \<equiv> from_msgpack_internal_msgpack_elements_msgpack_members_dom"

lemma msgpack_within:
  "msgpack_dom (Inl (fb, v, idx)) \<Longrightarrow> within v (Suc idx) (from_msgpack_internal fb v idx)"
  "msgpack_dom (Inr (Inl (fb, v, len, idx, result))) \<Longrightarrow>
     idx \<le> length v \<longrightarrow> within v idx (msgpack_elements fb v len idx result)"
  "msgpack_dom (Inr (Inr (fb, v, len, idx, result))) \<Longrightarrow>
     idx \<le> length v \<longrightarrow> within v idx (msgpack_members fb v len idx result)"
proof (induction fb v idx and fb v len idx result and fb v len idx result
    rule: from_msgpack_internal_msgpack_elements_msgpack_members.pinduct)
  case (1 fb v idx)
  note IH = "1.IH" [OF _ refl refl refl, THEN mp, THEN within_mono]
  show ?case
    unfolding from_msgpack_internal.psimps [OF "1.hyps"] Let_def
    by (intro within_bind within_if)
      ((rule IH; (assumption | force dest!: check_length_Inr get_from_vector_Inr)) |
       (auto intro!: within_reads simp: read_float_def read_double_def res_bind_eq_Inr
         dest!: check_length_Inr read_bytes_Inr; fail))+
next
  case (2 fb v len idx result)
  show ?case
    unfolding msgpack_elements.psimps [OF "2.hyps"]
    using "2.IH"
    by (fastforce intro!: within_bind dest: withinD intro: within_mono)
next
  case (3 fb v len idx result)
  show ?case
    unfolding msgpack_members.psimps [OF "3.hyps"]
    using "3.IH"
    by (fastforce intro!: within_bind dest: withinD intro: within_mono)
qed

lemma msgpack_total: "\<forall>x. msgpack_dom x"
  by (relation "measure
    (\<lambda>x. case x of Inl (fb, v, idx) \<Rightarrow> 2 * (length v - idx)
       | Inr (Inl (fb, v, len, idx, result)) \<Rightarrow> 2 * (length v - idx) + 1
       | Inr (Inr (fb, v, len, idx, result)) \<Rightarrow> 2 * (length v - idx) + 1)")
    (auto dest!: check_length_Inr get_from_vector_Inr withinD [OF msgpack_within(1)])

termination from_msgpack_internal
  by (rule msgpack_total)

declare from_msgpack_internal.simps [simp del] msgpack_elements.simps [simp del] msgpack_members.simps [simp del]

definition from_msgpack :: "'d dbl_bits \<Rightarrow> byte list \<Rightarrow> 'd json res" where
  "from_msgpack fb v = res_bind (from_msgpack_internal fb v 0) (\<lambda>(j, i). Inr j)"

end
