(* ===== verification/MsgPackLaws.thy ===== *)
theory MsgPackLaws
  imports MsgPack JsonRoundtrip
begin

text \<open>
  What \<open>to_msgpack\<close> writes is read back by \<open>from_msgpack\<close>, with the numbers typed as the parser types
  them.
\<close>

section \<open>Writing appends\<close>

lemma msgpack_behind:
  "msgpack_unsigned n (w @ v) = w @ msgpack_unsigned n v" "msgpack_negative n (w @ v) = w @ msgpack_negative n v"
  "msgpack_string s (w @ v) = w @ msgpack_string s v" "msgpack_array_head N (w @ v) = w @ msgpack_array_head N v"
  "msgpack_object_head N (w @ v) = w @ msgpack_object_head N v"
  by (simp_all add: msgpack_unsigned_def msgpack_negative_def msgpack_string_def msgpack_array_head_def
      msgpack_object_head_def write_chars_def add_to_vector_bytes Let_def)

lemma to_msgpack_behind:
  "to_msgpack_internal fb j (w @ v) = w @ to_msgpack_internal fb j v"
  "to_msgpack_elements fb xs (w @ v) = w @ to_msgpack_elements fb xs v"
  "to_msgpack_members fb m (w @ v) = w @ to_msgpack_members fb m v"
  by (induction fb j v and fb xs v and fb m v arbitrary: w and w and w
      rule: to_msgpack_internal_to_msgpack_elements_to_msgpack_members.induct)
    (simp_all add: msgpack_behind write_double_bytes)

lemma to_msgpack_append:
  "to_msgpack_internal fb j v = v @ to_msgpack fb j"
  "to_msgpack_elements fb xs v = v @ concat (map (to_msgpack fb) xs)"
  "to_msgpack_members fb m v = v @ concat (map (\<lambda>e. msgpack_string (fst e) [] @ to_msgpack fb (snd e)) m)"
proof -
  show j: "to_msgpack_internal fb j v = v @ to_msgpack fb j" for j v
    using to_msgpack_behind(1) [of fb j v "[]"] by (simp add: to_msgpack_def)
  show "to_msgpack_elements fb xs v = v @ concat (map (to_msgpack fb) xs)"
    by (induction xs arbitrary: v) (simp_all add: j)
  show "to_msgpack_members fb m v = v @ concat (map (\<lambda>e. msgpack_string (fst e) [] @ to_msgpack fb (snd e)) m)"
  proof (induction m arbitrary: v)
    case (Cons e m)
    show ?case using msgpack_behind(3) [of "fst e" v "[]"] Cons by (cases e) (simp add: j)
  qed simp
qed

lemma to_msgpack_simps:
  "to_msgpack fb (JArray xs) = msgpack_array_head (length xs) [] @ concat (map (to_msgpack fb) xs)"
  "to_msgpack fb (JObject m) = msgpack_object_head (length m) [] @
     concat (map (\<lambda>e. msgpack_string (fst e) [] @ to_msgpack fb (snd e)) m)"
  "to_msgpack fb (JFloat d) = 0xcb # bytes_of 8 (d_bits fb d)"
  by (simp_all add: to_msgpack_def [of fb "_ _"] to_msgpack_append(2,3) write_double_bytes)

section \<open>Every kind of value\<close>

interpretation msgpack: byte_reader "from_msgpack_internal fb" "msgpack_elements fb" "msgpack_members fb"
  by unfold_locales (rule msgpack_elements.simps msgpack_members.simps)+

lemma msgpack_first:
  "drop i v = b # bs \<Longrightarrow> length v < 2 ^ 63 \<Longrightarrow> check_length (length v) (Suc 0) i = Inr () \<and> v ! i = b"
  using drop_less [of i v b bs] by (auto intro: check_length_ok)

text \<open>The single bytes that hold a small number or a small length.\<close>

lemma small_unsigned:
  assumes "n < 128"
  shows "bytes_of 1 n = [ucast n]" "ucast n \<le> (0x7f :: byte)" "ucast n \<le> (0xbf :: byte)"
    "ucast (ucast n :: byte) = n"
proof -
  have n: "unat n < 128" using assms by (simp add: word_less_nat_alt)
  then have u: "unat (ucast n :: byte) = unat n" by (simp add: unsigned_ucast_eq unsigned_take_bit_eq take_bit_nat_eq_self)
  show "bytes_of 1 n = [ucast n]" by (simp add: bytes_of_map width_def)
  show "ucast n \<le> (0x7f :: byte)" "ucast n \<le> (0xbf :: byte)" using n u by (simp_all add: word_le_nat_alt)
  show "ucast (ucast n :: byte) = n" using n u by (simp add: word_unat_eq_iff unsigned_ucast_eq unsigned_take_bit_eq take_bit_nat_eq_self)
qed

lemma small_negative:
  assumes "- 32 \<le> sint n" "sint n < 0"
  shows "bytes_of 1 n = [ucast n]" "0xe0 \<le> (ucast n :: byte)" "\<not> ucast n \<le> (0xbf :: byte)"
    "scast (ucast n :: byte) = n"
proof -
  show "bytes_of 1 n = [ucast n]" by (simp add: bytes_of_map width_def)
  have word_of_int_sint: "word_of_int (sint n) = n" by simp
  have "\<forall>k\<in>set [-32..-1]. 0xe0 \<le> (ucast (word_of_int k :: u64) :: byte)
      \<and> \<not> ucast (word_of_int k :: u64) \<le> (0xbf :: byte) \<and> scast (ucast (word_of_int k :: u64) :: byte) = (word_of_int k :: u64)"
    by code_simp
  moreover have "sint n \<in> set [-32..-1]" using assms by simp
  ultimately show "0xe0 \<le> (ucast n :: byte)" "\<not> ucast n \<le> (0xbf :: byte)" "scast (ucast n :: byte) = n"
    by (metis word_of_int_sint)+
qed

lemma small_length:
  "N \<le> 31 \<Longrightarrow> (0xa0 OR word_of_nat N :: byte) \<le> 0xbf \<and>
     \<not> (0xa0 OR word_of_nat N :: byte) \<le> 0x7f \<and>
     \<not> (0xa0 OR word_of_nat N :: byte) \<le> 0x8f \<and>
     \<not> (0xa0 OR word_of_nat N :: byte) \<le> 0x9f \<and>
     unat ((0xa0 OR word_of_nat N :: byte) AND 0x1f) = N"
  "N \<le> 15 \<Longrightarrow> (0x90 OR word_of_nat N :: byte) \<le> 0x9f \<and>
     (0x90 OR word_of_nat N :: byte) \<le> 0xbf \<and>
     \<not> (0x90 OR word_of_nat N :: byte) \<le> 0x7f \<and>
     \<not> (0x90 OR word_of_nat N :: byte) \<le> 0x8f \<and>
     unat ((0x90 OR word_of_nat N :: byte) AND 0x0f) = N"
  "N \<le> 15 \<Longrightarrow> (0x80 OR (word_of_nat N AND 0xf) :: byte) \<le> 0x8f \<and>
     (0x80 OR (word_of_nat N AND 0xf) :: byte) \<le> 0xbf \<and>
     \<not> (0x80 OR (word_of_nat N AND 0xf) :: byte) \<le> 0x7f \<and>
     unat ((0x80 OR (word_of_nat N AND 0xf) :: byte) AND 0x0f) = N"
proof -
  have "\<forall>N\<in>set [0..<32]. (0xa0 OR word_of_nat N :: byte) \<le> 0xbf \<and>
     \<not> (0xa0 OR word_of_nat N :: byte) \<le> 0x7f \<and>
     \<not> (0xa0 OR word_of_nat N :: byte) \<le> 0x8f \<and>
     \<not> (0xa0 OR word_of_nat N :: byte) \<le> 0x9f \<and>
     unat ((0xa0 OR word_of_nat N :: byte) AND 0x1f) = N" by code_simp
  then show "N \<le> 31 \<Longrightarrow> (0xa0 OR word_of_nat N :: byte) \<le> 0xbf \<and>
     \<not> (0xa0 OR word_of_nat N :: byte) \<le> 0x7f \<and>
     \<not> (0xa0 OR word_of_nat N :: byte) \<le> 0x8f \<and>
     \<not> (0xa0 OR word_of_nat N :: byte) \<le> 0x9f \<and>
     unat ((0xa0 OR word_of_nat N :: byte) AND 0x1f) = N" by simp
  have "\<forall>N\<in>set [0..<16]. (0x90 OR word_of_nat N :: byte) \<le> 0x9f \<and>
     (0x90 OR word_of_nat N :: byte) \<le> 0xbf \<and>
     \<not> (0x90 OR word_of_nat N :: byte) \<le> 0x7f \<and>
     \<not> (0x90 OR word_of_nat N :: byte) \<le> 0x8f \<and>
     unat ((0x90 OR word_of_nat N :: byte) AND 0x0f) = N" by code_simp
  then show "N \<le> 15 \<Longrightarrow> (0x90 OR word_of_nat N :: byte) \<le> 0x9f \<and>
     (0x90 OR word_of_nat N :: byte) \<le> 0xbf \<and>
     \<not> (0x90 OR word_of_nat N :: byte) \<le> 0x7f \<and>
     \<not> (0x90 OR word_of_nat N :: byte) \<le> 0x8f \<and>
     unat ((0x90 OR word_of_nat N :: byte) AND 0x0f) = N" by simp
  have "\<forall>N\<in>set [0..<16]. (0x80 OR (word_of_nat N AND 0xf) :: byte) \<le> 0x8f \<and>
     (0x80 OR (word_of_nat N AND 0xf) :: byte) \<le> 0xbf \<and>
     \<not> (0x80 OR (word_of_nat N AND 0xf) :: byte) \<le> 0x7f \<and>
     unat ((0x80 OR (word_of_nat N AND 0xf) :: byte) AND 0x0f) = N" by code_simp
  then show "N \<le> 15 \<Longrightarrow> (0x80 OR (word_of_nat N AND 0xf) :: byte) \<le> 0x8f \<and>
     (0x80 OR (word_of_nat N AND 0xf) :: byte) \<le> 0xbf \<and>
     \<not> (0x80 OR (word_of_nat N AND 0xf) :: byte) \<le> 0x7f \<and>
     unat ((0x80 OR (word_of_nat N AND 0xf) :: byte) AND 0x0f) = N" by simp
qed

text \<open>The reader by the first byte.\<close>

lemma msgpack_unsigned_back: "msgpack.reads_as fb (msgpack_unsigned n []) (JUint n)"
  unfolding msgpack.reads_as_def
proof (intro allI impI)
  fix v :: "byte list" and i post
  assume v: "length v < 2 ^ 63" and d: "drop i v = msgpack_unsigned n [] @ post"
  note rules = from_msgpack_internal.simps [of fb v i] msgpack_unsigned_def add_to_vector_bytes
    length_bytes_of width_def u64_le
  consider "n < 128" | "\<not> n < 128" "n \<le> 0xff" | "\<not> n < 128" "\<not> n \<le> 0xff" "n \<le> 0xffff"
    | "\<not> n < 128" "\<not> n \<le> 0xff" "\<not> n \<le> 0xffff" "n \<le> 0xffffffff"
    | "\<not> n < 128" "\<not> n \<le> 0xff" "\<not> n \<le> 0xffff" "\<not> n \<le> 0xffffffff" by blast
  then show "from_msgpack_internal fb v i = Inr (JUint n, i + length (msgpack_unsigned n []))"
  proof cases
    case 1
    then show ?thesis
      using msgpack_first [of i v "ucast n" post] v d small_unsigned [OF 1] by (simp add: rules Let_def)
  next
    case 2
    then have "drop i v = 0xcc # bytes_of 1 n @ post" using d by (simp add: rules)
    from msgpack_first [OF this v] read_unsigned_bytes [where 'a = 'a, OF this] 2 fits_le(1) show ?thesis by (simp add: rules)
  next
    case 3
    then have "drop i v = 0xcd # bytes_of 2 n @ post" using d by (simp add: rules)
    from msgpack_first [OF this v] read_unsigned_bytes [where 'a = 'a, OF this] 3 fits_le(2) show ?thesis by (simp add: rules)
  next
    case 4
    then have "drop i v = 0xce # bytes_of 4 n @ post" using d by (simp add: rules)
    from msgpack_first [OF this v] read_unsigned_bytes [where 'a = 'a, OF this] 4 fits_le(3) show ?thesis by (simp add: rules)
  next
    case 5
    then have "drop i v = 0xcf # bytes_of 8 n @ post" using d by (simp add: rules)
    from msgpack_first [OF this v] read_unsigned_bytes [where 'a = 'a, OF this] 5 fits_le(4) show ?thesis by (simp add: rules)
  qed
qed

lemma msgpack_negative_back:
  assumes n: "sint n < 0"
  shows "msgpack.reads_as fb (msgpack_negative n []) (JInt n)"
  unfolding msgpack.reads_as_def
proof (intro allI impI)
  fix v :: "byte list" and i post
  assume v: "length v < 2 ^ 63" and d: "drop i v = msgpack_negative n [] @ post"
  note rules = from_msgpack_internal.simps [of fb v i] msgpack_negative_def add_to_vector_bytes
    length_bytes_of width_def n
  have min: "- (2 ^ 63) \<le> sint n" using sint_ge [of n] by simp
  let ?r = "\<lambda>k. - (2 ^ k) \<le> sint n"
  consider "- 32 \<le> sint n" | "\<not> - 32 \<le> sint n" "?r 7" | "\<not> - 32 \<le> sint n" "\<not> ?r 7" "?r 15"
    | "\<not> - 32 \<le> sint n" "\<not> ?r 7" "\<not> ?r 15" "?r 31" | "\<not> - 32 \<le> sint n" "\<not> ?r 7" "\<not> ?r 15" "\<not> ?r 31"
    by blast
  then show "from_msgpack_internal fb v i = Inr (JInt n, i + length (msgpack_negative n []))"
  proof cases
    case 1
    then show ?thesis
      using msgpack_first [of i v "ucast n" post] v d small_negative [OF 1 n] by (simp add: rules Let_def)
  next
    case 2
    then have "drop i v = 0xd0 # bytes_of 1 n @ post" using d n by (simp add: rules)
    from msgpack_first [OF this v] read_signed_bytes [where 'a = 'a, OF this] 2 show ?thesis by (simp add: rules)
  next
    case 3
    then have "drop i v = 0xd1 # bytes_of 2 n @ post" using d n by (simp add: rules)
    from msgpack_first [OF this v] read_signed_bytes [where 'a = 'a, OF this] 3 show ?thesis by (simp add: rules)
  next
    case 4
    then have "drop i v = 0xd2 # bytes_of 4 n @ post" using d n by (simp add: rules)
    from msgpack_first [OF this v] read_signed_bytes [where 'a = 'a, OF this] 4 show ?thesis by (simp add: rules)
  next
    case 5
    then have "drop i v = 0xd3 # bytes_of 8 n @ post" using d n min by (simp add: rules)
    from msgpack_first [OF this v] read_signed_bytes [where 'a = 'a, OF this] 5 min show ?thesis by (simp add: rules)
  qed
qed

lemma msgpack_string_back:
  assumes s: "length s < 2 ^ 32"
  shows "msgpack.reads_as fb (msgpack_string s []) (JString s)"
  unfolding msgpack.reads_as_def
proof (intro allI impI)
  fix v :: "byte list" and i post
  assume v: "length v < 2 ^ 63" and d: "drop i v = msgpack_string s [] @ post"
  let ?N = "length s"
  note rules = from_msgpack_internal.simps [of fb v i] msgpack_string_def add_to_vector_bytes write_chars_def
    length_bytes_of width_def
  consider "?N \<le> 31" | "\<not> ?N \<le> 31" "?N \<le> 255" | "\<not> ?N \<le> 31" "\<not> ?N \<le> 255" "?N \<le> 65535"
    | "\<not> ?N \<le> 31" "\<not> ?N \<le> 255" "\<not> ?N \<le> 65535" by blast
  then show "from_msgpack_internal fb v i = Inr (JString s, i + length (msgpack_string s []))"
  proof cases
    case 1
    then have d': "drop i v = (0xa0 OR word_of_nat ?N) # map byte_of s @ post" using d by (simp add: rules)
    have "read_chars v ?N (i + 1) = (Inr (JString s, i + 1 + ?N) :: ('a json \<times> nat) res)"
      using drop_less [OF d'] v by (intro read_chars_text) auto
    then show ?thesis
      using msgpack_first [OF d' v] small_length(1) [OF 1] 1 by (simp add: rules Let_def)
  next
    case 2
    then have "drop i v = 0xd9 # bytes_of 1 (word_of_nat ?N) @ map byte_of s @ post" using d by (simp add: rules)
    from msgpack_first [OF this v] read_string_text [where 'a = 'a, OF this _ _ v] 2 show ?thesis by (simp add: rules)
  next
    case 3
    then have "drop i v = 0xda # bytes_of 2 (word_of_nat ?N) @ map byte_of s @ post" using d by (simp add: rules)
    from msgpack_first [OF this v] read_string_text [where 'a = 'a, OF this _ _ v] 3 show ?thesis by (simp add: rules)
  next
    case 4
    then have "drop i v = 0xdb # bytes_of 4 (word_of_nat ?N) @ map byte_of s @ post" using d s by (simp add: rules)
    from msgpack_first [OF this v] read_string_text [where 'a = 'a, OF this _ _ v] 4 s show ?thesis by (simp add: rules)
  qed
qed

text \<open>Arrays and objects, if their parts are read back.\<close>

lemma msgpack_array_back:
  assumes "list_all2 (msgpack.reads_as fb) bss xs" "length xs < 2 ^ 32"
  shows "msgpack.reads_as fb (msgpack_array_head (length xs) [] @ concat bss) (JArray xs)"
  unfolding msgpack.reads_as_def
proof (intro allI impI)
  fix v :: "byte list" and i post
  let ?N = "length xs"
  assume v: "length v < 2 ^ 63" and d: "drop i v = (msgpack_array_head ?N [] @ concat bss) @ post"
  note rules = from_msgpack_internal.simps [of fb v i] msgpack_array_head_def add_to_vector_bytes
    length_bytes_of width_def
  have loop: "msgpack_elements fb v ?N k (JArray []) = Inr (JArray xs, k + length (concat bss))"
    if "drop k v = concat bss @ post" for k
    using msgpack.elements_back [OF assms(1) v that, of "[]"] by simp
  have N: "unat (word_of_nat ?N :: u64) = ?N" "fits 2 (word_of_nat ?N) \<or> \<not> ?N \<le> 0xffff" "fits 4 (word_of_nat ?N)"
    using assms(2) by (auto simp: unat_of_nat take_bit_nat_eq_self intro!: fits_less)
  consider "?N \<le> 15" | "\<not> ?N \<le> 15" "?N \<le> 0xffff" | "\<not> ?N \<le> 15" "\<not> ?N \<le> 0xffff" by blast
  then show "from_msgpack_internal fb v i =
      Inr (JArray xs, i + length (msgpack_array_head (length xs) [] @ concat bss))"
  proof cases
    case 1
    then have d': "drop i v = (0x90 OR word_of_nat ?N) # concat bss @ post" using d by (simp add: rules)
    then have "drop (i + 1) v = concat bss @ post" using drop_less [OF d'] by simp
    from loop [OF this] show ?thesis
      using msgpack_first [OF d' v] small_length(2) [OF 1] 1 by (simp add: rules Let_def)
  next
    case 2
    then have d': "drop i v = 0xdc # bytes_of 2 (word_of_nat ?N) @ concat bss @ post" using d by (simp add: rules)
    from loop [OF behind_number(1) [OF d']] show ?thesis
      using msgpack_first [OF d' v] get_from_vector_bytes [OF d'] N 2 by (simp add: rules fits_def)
  next
    case 3
    then have d': "drop i v = 0xdd # bytes_of 4 (word_of_nat ?N) @ concat bss @ post" using d assms(2) by (simp add: rules)
    from loop [OF behind_number(1) [OF d']] show ?thesis
      using msgpack_first [OF d' v] get_from_vector_bytes [OF d'] N 3 assms(2) by (simp add: rules fits_def)
  qed
qed

lemma msgpack_object_back:
  assumes "list_all2 (\<lambda>b e. msgpack.reads_as fb (fst b) (JString (fst e)) \<and> msgpack.reads_as fb (snd b) (snd e)) bss m"
    "length m < 2 ^ 32" "map_sorted m"
  shows "msgpack.reads_as fb (msgpack_object_head (length m) [] @ concat (map (\<lambda>b. fst b @ snd b) bss)) (JObject m)"
  unfolding msgpack.reads_as_def
proof (intro allI impI)
  fix v :: "byte list" and i post
  let ?N = "length m"
  assume v: "length v < 2 ^ 63" and d: "drop i v = (msgpack_object_head ?N [] @ concat (map (\<lambda>b. fst b @ snd b) bss)) @ post"
  note rules = from_msgpack_internal.simps [of fb v i] msgpack_object_head_def add_to_vector_bytes
    length_bytes_of width_def
  have loop: "msgpack_members fb v ?N k (JObject []) = Inr (JObject m, k + length (concat (map (\<lambda>b. fst b @ snd b) bss)))"
    if "drop k v = concat (map (\<lambda>b. fst b @ snd b) bss) @ post" for k
    using msgpack.members_back [OF assms(1) v that, of "[]"] assms(3) by simp
  have N: "unat (word_of_nat ?N :: u64) = ?N" "fits 2 (word_of_nat ?N) \<or> \<not> ?N \<le> 65535" "fits 4 (word_of_nat ?N)"
    using assms(2) by (auto simp: unat_of_nat take_bit_nat_eq_self intro!: fits_less)
  consider "?N \<le> 15" | "\<not> ?N \<le> 15" "?N \<le> 65535" | "\<not> ?N \<le> 15" "\<not> ?N \<le> 65535" by blast
  then show "from_msgpack_internal fb v i =
      Inr (JObject m, i + length (msgpack_object_head (length m) [] @ concat (map (\<lambda>b. fst b @ snd b) bss)))"
  proof cases
    case 1
    then have d': "drop i v = (0x80 OR (word_of_nat ?N AND 0xf)) # concat (map (\<lambda>b. fst b @ snd b) bss) @ post" using d by (simp add: rules)
    then have "drop (i + 1) v = concat (map (\<lambda>b. fst b @ snd b) bss) @ post" using drop_less [OF d'] by simp
    from loop [OF this] show ?thesis
      using msgpack_first [OF d' v] small_length(3) [OF 1] 1 by (simp add: rules Let_def)
  next
    case 2
    then have d': "drop i v = 0xde # bytes_of 2 (word_of_nat ?N) @ concat (map (\<lambda>b. fst b @ snd b) bss) @ post" using d by (simp add: rules)
    from loop [OF behind_number(1) [OF d']] show ?thesis
      using msgpack_first [OF d' v] get_from_vector_bytes [OF d'] N 2 by (simp add: rules fits_def)
  next
    case 3
    then have d': "drop i v = 0xdf # bytes_of 4 (word_of_nat ?N) @ concat (map (\<lambda>b. fst b @ snd b) bss) @ post" using d assms(2) by (simp add: rules)
    from loop [OF behind_number(1) [OF d']] show ?thesis
      using msgpack_first [OF d' v] get_from_vector_bytes [OF d'] N 3 assms(2) by (simp add: rules fits_def)
  qed
qed

lemma to_msgpack_back:
  assumes "\<forall>d. d_of_bits fb (d_bits fb d) = d"
  shows "packable j \<Longrightarrow> msgpack.reads_as fb (to_msgpack fb j) (settled fb j)"
proof (induction j rule: packable.induct)
  case 1
  show ?case unfolding msgpack.reads_as_def to_msgpack_def
    by (auto simp: from_msgpack_internal.simps dest!: msgpack_first)
next
  case (2 m)
  have "list_all2 (\<lambda>b e. msgpack.reads_as fb (fst b) (JString (fst e)) \<and> msgpack.reads_as fb (snd b) (snd e))
      (map (\<lambda>e. (msgpack_string (fst e) [], to_msgpack fb (snd e))) m) (map (\<lambda>e. (fst e, settled fb (snd e))) m)"
    using 2 by (auto simp: list.rel_map intro!: list.rel_refl_strong msgpack_string_back)
  from msgpack_object_back [OF this] show ?case
    using "2.prems" by (simp add: to_msgpack_simps comp_def map_sorted_def)
next
  case (3 xs)
  have "list_all2 (msgpack.reads_as fb) (map (to_msgpack fb) xs) (map (settled fb) xs)"
    using 3 by (auto simp: list.rel_map intro!: list.rel_refl_strong)
  from msgpack_array_back [OF this] show ?case using "3.prems" by (simp add: to_msgpack_simps)
next
  case (5 b)
  show ?case unfolding msgpack.reads_as_def to_msgpack_def
    by (cases b) (auto simp: from_msgpack_internal.simps dest!: msgpack_first)
next
  case (8 d)
  show ?case unfolding msgpack.reads_as_def
  proof (intro allI impI)
    fix v :: "byte list" and i post
    assume v: "length v < 2 ^ 63" and "drop i v = to_msgpack fb (JFloat d) @ post"
    then have d: "drop i v = 0xcb # bytes_of 8 (d_bits fb d) @ post" by (simp add: to_msgpack_simps)
    from msgpack_first [OF d v] read_double_bytes [OF d] assms
    show "from_msgpack_internal fb v i = Inr (settled fb (JFloat d), i + length (to_msgpack fb (JFloat d)))"
      by (simp add: from_msgpack_internal.simps to_msgpack_simps length_bytes_of width_def stored_double_def)
  qed
qed (auto simp: to_msgpack_def msgpack_string_back msgpack_unsigned_back msgpack_negative_back)

section \<open>Theorems\<close>

text \<open>
  Property C24: MessagePack: what \<open>to_msgpack\<close> writes is read back as the same value, with the numbers that are not
  negative as unsigned ones and null for infinities and NaN. Bytes that follow are not looked at. In the
  value every string, array and object has fewer than \<open>2 ^ 32\<close> parts, the keys of an object are in order, and
  nothing is discarded; the vector has fewer than \<open>2 ^ 63\<close> bytes, and the bits of a double determine it.
\<close>

theorem msgpack_roundtrip:
  assumes "packable j" "\<forall>d. d_of_bits fb (d_bits fb d) = d" "length (to_msgpack fb j @ post) < 2 ^ 63"
  shows "from_msgpack fb (to_msgpack fb j @ post) = Inr (settled fb j)"
  using msgpack.reads_asD [OF to_msgpack_back [OF assms(2,1)] assms(3), of 0 post] by (simp add: from_msgpack_def)

theorem msgpack_roundtrip_witness:
  "from_msgpack word_bits (to_msgpack word_bits
       (JObject [(''a'', JArray [JInt 1, JInt (- 100), JFloat 5]), (''b'', JFloat 0x7ff0000000000000)]) @ [7])
     = Inr (JObject [(''a'', JArray [JUint 1, JInt (- 100), JFloat 5]), (''b'', JNull)])"
proof -
  let ?j = "JObject [(''a'', JArray [JInt 1, JInt (- 100), JFloat 5]), (''b'', JFloat 0x7ff0000000000000)]"
  have "packable ?j" by (simp add: map_sorted_def)
  moreover have "\<forall>d. d_of_bits word_bits (d_bits word_bits d) = d" by (simp add: word_bits_def)
  moreover have "length (to_msgpack word_bits ?j @ [7]) < 2 ^ 63"
    by (simp add: to_msgpack_def write_double_bytes add_to_vector_bytes length_bytes_of width_def msgpack_unsigned_def
        msgpack_negative_def msgpack_string_def msgpack_array_head_def msgpack_object_head_def write_chars_def)
  ultimately have "from_msgpack word_bits (to_msgpack word_bits ?j @ [7]) = Inr (settled word_bits ?j)"
    by (rule msgpack_roundtrip)
  then show ?thesis by (simp add: word_bits_def)
qed

end
