(* ===== verification/CborLaws.thy ===== *)
theory CborLaws
  imports Cbor MsgPackLaws
begin

text \<open>
  What \<open>to_cbor\<close> writes is read back by \<open>from_cbor\<close>, with the numbers typed as the parser types them.
\<close>

section \<open>Writing appends\<close>

lemma cbor_behind:
  "cbor_unsigned n (w @ v) = w @ cbor_unsigned n v" "cbor_negative n (w @ v) = w @ cbor_negative n v"
  "cbor_head b N (w @ v) = w @ cbor_head b N v" "cbor_string s (w @ v) = w @ cbor_string s v"
  by (simp_all add: cbor_unsigned_def cbor_negative_def cbor_head_def cbor_string_def write_chars_def
      add_to_vector_bytes Let_def)

lemma to_cbor_behind:
  "to_cbor_internal fb j (w @ v) = w @ to_cbor_internal fb j v"
  "to_cbor_elements fb xs (w @ v) = w @ to_cbor_elements fb xs v"
  "to_cbor_members fb m (w @ v) = w @ to_cbor_members fb m v"
  by (induction fb j v and fb xs v and fb m v arbitrary: w and w and w
      rule: to_cbor_internal_to_cbor_elements_to_cbor_members.induct)
    (simp_all add: cbor_behind write_double_bytes)

lemma to_cbor_append:
  "to_cbor_internal fb j v = v @ to_cbor fb j"
  "to_cbor_elements fb xs v = v @ concat (map (to_cbor fb) xs)"
  "to_cbor_members fb m v = v @ concat (map (\<lambda>e. cbor_string (fst e) [] @ to_cbor fb (snd e)) m)"
proof -
  show j: "to_cbor_internal fb j v = v @ to_cbor fb j" for j v
    using to_cbor_behind(1) [of fb j v "[]"] by (simp add: to_cbor_def)
  show "to_cbor_elements fb xs v = v @ concat (map (to_cbor fb) xs)"
    by (induction xs arbitrary: v) (simp_all add: j)
  show "to_cbor_members fb m v = v @ concat (map (\<lambda>e. cbor_string (fst e) [] @ to_cbor fb (snd e)) m)"
  proof (induction m arbitrary: v)
    case (Cons e m)
    show ?case using cbor_behind(4) [of "fst e" v "[]"] Cons by (cases e) (simp add: j)
  qed simp
qed

lemma to_cbor_simps:
  "to_cbor fb (JArray xs) = cbor_head 0x80 (length xs) [] @ concat (map (to_cbor fb) xs)"
  "to_cbor fb (JObject m) = cbor_head 0xa0 (length m) [] @
     concat (map (\<lambda>e. cbor_string (fst e) [] @ to_cbor fb (snd e)) m)"
  "to_cbor fb (JFloat d) = 0xfb # bytes_of 8 (d_bits fb d)"
  "cbor_string s [] = cbor_head 0x60 (length s) [] @ map byte_of s"
  by (simp_all add: to_cbor_def [of fb "_ _"] to_cbor_append(2,3) write_double_bytes cbor_string_def write_chars_def)

section \<open>The reader by the first byte\<close>

interpretation cbor: byte_reader "from_cbor_internal fb" "cbor_elements fb" "cbor_members fb"
  by unfold_locales (rule cbor_elements.simps cbor_members.simps)+

lemma cbor_first: "drop i v = b # bs \<Longrightarrow> vector_at v i = Inr b"
  using drop_less [of i v b bs] by (simp add: vector_at_def)

lemmas byte_nat = word_le_nat_alt word_unat_eq_iff

lemma cbor_small_bytes:
  "vector_at v i = Inr b \<Longrightarrow> unat b \<le> 0x17 \<Longrightarrow> from_cbor_internal fb v i = Inr (JUint (ucast b), i + 1)"
  "vector_at v i = Inr b \<Longrightarrow> 0x20 \<le> unat b \<Longrightarrow> unat b \<le> 0x37 \<Longrightarrow>
     from_cbor_internal fb v i = Inr (JInt (scast (0x20 - 1 - b)), i + 1)"
  "vector_at v i = Inr b \<Longrightarrow> 0x60 \<le> unat b \<Longrightarrow> unat b \<le> 0x77 \<Longrightarrow>
     from_cbor_internal fb v i = read_chars v (unat b - 0x60) (i + 1)"
  "vector_at v i = Inr b \<Longrightarrow> 0x80 \<le> unat b \<Longrightarrow> unat b \<le> 0x97 \<Longrightarrow>
     from_cbor_internal fb v i = cbor_elements fb v (unat b - 0x80) (i + 1) (JArray [])"
  "vector_at v i = Inr b \<Longrightarrow> 0xa0 \<le> unat b \<Longrightarrow> unat b \<le> 0xb7 \<Longrightarrow>
     from_cbor_internal fb v i = cbor_members fb v (unat b - 0xa0) (i + 1) (JObject [])"
  by (simp_all add: from_cbor_internal.simps byte_nat unat_sub)

lemma cbor_counted_bytes:
  assumes "(n, k) \<in> {(1, 0x18), (2, 0x19), (4, 0x1a)}"
  shows "vector_at v i = Inr (0x60 + k) \<Longrightarrow> from_cbor_internal fb v i = read_string n v i"
    "vector_at v i = Inr (0x80 + k) \<Longrightarrow> from_cbor_internal fb v i =
      res_bind (get_from_vector n v i) (\<lambda>len. cbor_elements fb v (unat len) (i + n + 1) (JArray []))"
    "vector_at v i = Inr (0xa0 + k) \<Longrightarrow> from_cbor_internal fb v i =
      res_bind (get_from_vector n v i) (\<lambda>len. cbor_members fb v (unat len) (i + n + 1) (JObject []))"
  using assms by (elim insertE; simp add: from_cbor_internal.simps [of fb v i])+

lemma cbor_head_cases:
  assumes "drop i v = cbor_head b N [] @ body" "N < 2 ^ 32"
  obtains (small) "N \<le> 0x17" "vector_at v i = Inr (b + word_of_nat N)" "drop (i + 1) v = body" "i + 1 \<le> length v"
      "length (cbor_head b N []) = 1"
    | (counted) n k where "(n, k) \<in> {(1, 0x18), (2, 0x19), (4, 0x1a)}" "vector_at v i = Inr (b + k)"
      "get_from_vector n v i = Inr (word_of_nat N)" "unat (word_of_nat N :: u64) = N"
      "drop (i + n + 1) v = body" "i + n + 1 \<le> length v" "length (cbor_head b N []) = n + 1"
proof -
  let ?w = "word_of_nat N :: u64"
  have N: "unat ?w = N" using assms(2) by (simp add: unat_of_nat take_bit_nat_eq_self)
  have counted': thesis if "(n, k) \<in> {(1, 0x18), (2, 0x19), (4, 0x1a)}" "cbor_head b N [] = (b + k) # bytes_of n ?w"
    "unat ?w < 2 ^ (8 * n)" for n k
  proof -
    have w: "width n" using that(1) by (auto simp: width_def)
    have d: "drop i v = (b + k) # bytes_of n ?w @ body" using assms(1) that(2) by simp
    have "take_bit (8 * n) ?w = ?w" using fits_less [OF that(3)] by (simp add: fits_def)
    then show thesis
      using counted [OF that(1) cbor_first [OF d]] get_from_vector_bytes [OF d w] behind_number [OF d w] N
        length_bytes_of [OF w] that(2) by simp
  qed
  consider "N \<le> 0x17" | "\<not> N \<le> 0x17" "N \<le> 0xff" | "\<not> N \<le> 0x17" "\<not> N \<le> 0xff" "N \<le> 0xffff"
    | "\<not> N \<le> 0x17" "\<not> N \<le> 0xff" "\<not> N \<le> 0xffff" by blast
  then show thesis
  proof cases
    case 1
    then have d: "drop i v = (b + word_of_nat N) # body" using assms(1) by (simp add: cbor_head_def)
    show thesis using small [OF 1 cbor_first [OF d]] drop_less [OF d] 1 by (simp add: cbor_head_def)
  next
    case 2
    then show thesis using counted' [of 1 "0x18"] N by (simp add: cbor_head_def add_to_vector_bytes)
  next
    case 3
    then show thesis using counted' [of 2 "0x19"] N by (simp add: cbor_head_def add_to_vector_bytes)
  next
    case 4
    then show thesis using counted' [of 4 "0x1a"] N assms(2) by (simp add: cbor_head_def add_to_vector_bytes)
  qed
qed

lemma unat_head: "N \<le> 0x17 \<Longrightarrow> unat b \<le> 0xe8 \<Longrightarrow> unat (b + word_of_nat N :: byte) = unat b + N"
  by (simp add: unat_word_ariths unat_of_nat take_bit_nat_eq_self take_bit_eq_mod)

section \<open>Every kind of value\<close>

lemma cbor_string_back:
  assumes s: "length s < 2 ^ 32"
  shows "cbor.reads_as fb (cbor_string s []) (JString s)"
  unfolding cbor.reads_as_def
proof (intro allI impI)
  fix v :: "byte list" and i post
  assume v: "length v < 2 ^ 63" and "drop i v = cbor_string s [] @ post"
  then have d: "drop i v = cbor_head 0x60 (length s) [] @ map byte_of s @ post" by (simp add: to_cbor_simps)
  show "from_cbor_internal fb v i = Inr (JString s, i + length (cbor_string s []))"
    using d s
  proof (cases rule: cbor_head_cases)
    case small
    then show ?thesis
      using cbor_small_bytes(3) [OF small(2), of fb] read_chars_text [where 'a = 'a, OF small(3) v small(4)]
      by (simp add: unat_head to_cbor_simps)
  next
    case (counted n k)
    then show ?thesis
      using cbor_counted_bytes(1) [OF counted(1,2), of fb] read_chars_text [where 'a = 'a, OF counted(5) v counted(6)]
      by (simp add: read_string_def to_cbor_simps)
  qed
qed

lemma cbor_array_back:
  assumes "list_all2 (cbor.reads_as fb) bss xs" "length xs < 2 ^ 32"
  shows "cbor.reads_as fb (cbor_head 0x80 (length xs) [] @ concat bss) (JArray xs)"
  unfolding cbor.reads_as_def
proof (intro allI impI)
  fix v :: "byte list" and i post
  assume v: "length v < 2 ^ 63" and "drop i v = (cbor_head 0x80 (length xs) [] @ concat bss) @ post"
  then have d: "drop i v = cbor_head 0x80 (length xs) [] @ concat bss @ post" by simp
  show "from_cbor_internal fb v i = Inr (JArray xs, i + length (cbor_head 0x80 (length xs) [] @ concat bss))"
    using d assms(2)
  proof (cases rule: cbor_head_cases)
    case small
    then show ?thesis
      using cbor_small_bytes(4) [OF small(2), of fb] cbor.elements_back [OF assms(1) v small(3), of "[]"]
      by (simp add: unat_head)
  next
    case (counted n k)
    then show ?thesis
      using cbor_counted_bytes(2) [OF counted(1,2), of fb] cbor.elements_back [OF assms(1) v counted(5), of "[]"] by simp
  qed
qed

lemma cbor_object_back:
  assumes "list_all2 (\<lambda>b e. cbor.reads_as fb (fst b) (JString (fst e)) \<and> cbor.reads_as fb (snd b) (snd e)) bss m"
    "length m < 2 ^ 32" "map_sorted m"
  shows "cbor.reads_as fb (cbor_head 0xa0 (length m) [] @ concat (map (\<lambda>b. fst b @ snd b) bss)) (JObject m)"
  unfolding cbor.reads_as_def
proof (intro allI impI)
  fix v :: "byte list" and i post
  let ?bs = "concat (map (\<lambda>b. fst b @ snd b) bss)"
  assume v: "length v < 2 ^ 63" and "drop i v = (cbor_head 0xa0 (length m) [] @ ?bs) @ post"
  then have d: "drop i v = cbor_head 0xa0 (length m) [] @ ?bs @ post" by simp
  show "from_cbor_internal fb v i = Inr (JObject m, i + length (cbor_head 0xa0 (length m) [] @ ?bs))"
    using d assms(2)
  proof (cases rule: cbor_head_cases)
    case small
    then show ?thesis
      using cbor_small_bytes(5) [OF small(2), of fb] cbor.members_back [OF assms(1) v small(3), of "[]"] assms(3)
      by (simp add: unat_head)
  next
    case (counted n k)
    then show ?thesis
      using cbor_counted_bytes(3) [OF counted(1,2), of fb] cbor.members_back [OF assms(1) v counted(5), of "[]"] assms(3) by simp
  qed
qed

lemma cbor_unsigned_back: "cbor.reads_as fb (cbor_unsigned n []) (JUint n)"
  unfolding cbor.reads_as_def
proof (intro allI impI)
  fix v :: "byte list" and i post
  assume d: "drop i v = cbor_unsigned n [] @ post"
  note rules = from_cbor_internal.simps [of fb v i] cbor_unsigned_def add_to_vector_bytes length_bytes_of width_def
  consider "n \<le> 0x17" | "\<not> n \<le> 0x17" "n \<le> 0xff" | "\<not> n \<le> 0x17" "\<not> n \<le> 0xff" "n \<le> 0xffff"
    | "\<not> n \<le> 0x17" "\<not> n \<le> 0xff" "\<not> n \<le> 0xffff" "n \<le> 0xffffffff"
    | "\<not> n \<le> 0x17" "\<not> n \<le> 0xff" "\<not> n \<le> 0xffff" "\<not> n \<le> 0xffffffff" by blast
  then show "from_cbor_internal fb v i = Inr (JUint n, i + length (cbor_unsigned n []))"
  proof cases
    case 1
    then have n: "unat n \<le> 0x17" by (simp add: word_le_nat_alt)
    then have u: "unat (ucast n :: byte) = unat n" by (simp add: unsigned_ucast_eq unsigned_take_bit_eq take_bit_nat_eq_self)
    then have "ucast (ucast n :: byte) = n" using n
      by (simp add: word_unat_eq_iff unsigned_ucast_eq unsigned_take_bit_eq take_bit_nat_eq_self)
    moreover have b: "bytes_of 1 n = [ucast n]" by (simp add: bytes_of_map width_def)
    moreover from 1 b have d': "drop i v = ucast n # post" using d by (simp add: rules)
    ultimately show ?thesis
      using cbor_small_bytes(1) [OF cbor_first [OF d'], of fb] u n 1 by (simp add: cbor_unsigned_def add_to_vector_bytes)
  next
    case 2
    then have "drop i v = 0x18 # bytes_of 1 n @ post" using d by (simp add: rules)
    from cbor_first [OF this] read_unsigned_bytes [where 'a = 'a, OF this] 2 fits_le(1) show ?thesis by (simp add: rules)
  next
    case 3
    then have "drop i v = 0x19 # bytes_of 2 n @ post" using d by (simp add: rules)
    from cbor_first [OF this] read_unsigned_bytes [where 'a = 'a, OF this] 3 fits_le(2) show ?thesis by (simp add: rules)
  next
    case 4
    then have "drop i v = 0x1a # bytes_of 4 n @ post" using d by (simp add: rules)
    from cbor_first [OF this] read_unsigned_bytes [where 'a = 'a, OF this] 4 fits_le(3) show ?thesis by (simp add: rules)
  next
    case 5
    then have "drop i v = 0x1b # bytes_of 8 n @ post" using d by (simp add: rules)
    from cbor_first [OF this] read_unsigned_bytes [where 'a = 'a, OF this] 5 fits_le(4) show ?thesis by (simp add: rules)
  qed
qed

lemma positive_number:
  fixes n :: u64
  assumes "sint n < 0"
  shows "sint (- 1 - n) = - 1 - sint n" "uint (- 1 - n) = - 1 - sint n"
proof -
  have k: "- (2 ^ 63) \<le> - 1 - sint n" "- 1 - sint n < 2 ^ 63"
    using assms sint_ge [of n] by simp_all
  have w: "- 1 - n = word_of_int (- 1 - sint n)" by simp
  have "sint (- 1 - n) = signed_take_bit 63 (- 1 - sint n)"
    by (subst w) (simp only: sint_sbintrunc', simp)
  then show "sint (- 1 - n) = - 1 - sint n"
    using k by (simp add: signed_take_bit_int_eq_self)
  have "uint (- 1 - n) = take_bit 64 (- 1 - sint n)"
    by (subst w) (simp only: uint_word_of_int_eq, simp)
  then show "uint (- 1 - n) = - 1 - sint n"
    using k assms by (simp add: take_bit_int_eq_self)
qed

lemma small_positive:
  fixes n :: u64
  assumes "- 24 \<le> sint n" "sint n < 0"
  shows "0x20 \<le> unat (ucast (0x20 + (- 1 - n)) :: byte)" "unat (ucast (0x20 + (- 1 - n)) :: byte) \<le> 0x37"
    "scast (0x20 - 1 - ucast (0x20 + (- 1 - n)) :: byte) = n"
proof -
  have word_of_int_sint: "word_of_int (sint n) = n" by simp
  have "\<forall>k\<in>set [-24..-1]. 0x20 \<le> unat (ucast (0x20 + (- 1 - word_of_int k :: u64)) :: byte)
      \<and> unat (ucast (0x20 + (- 1 - word_of_int k :: u64)) :: byte) \<le> 0x37
      \<and> scast (0x20 - 1 - ucast (0x20 + (- 1 - word_of_int k :: u64)) :: byte) = (word_of_int k :: u64)"
    by code_simp
  moreover have "sint n \<in> set [-24..-1]" using assms by simp
  ultimately show "0x20 \<le> unat (ucast (0x20 + (- 1 - n)) :: byte)" "unat (ucast (0x20 + (- 1 - n)) :: byte) \<le> 0x37"
    "scast (0x20 - 1 - ucast (0x20 + (- 1 - n)) :: byte) = n"
    by (metis word_of_int_sint)+
qed

lemma read_negative_bytes:
  "drop i v = b # bytes_of k (- 1 - n) @ post \<Longrightarrow> width k \<Longrightarrow> fits k (- 1 - n) \<Longrightarrow>
     cbor_read_negative k v i = Inr (JInt n, i + Suc k)"
  by (simp add: cbor_read_negative_def get_from_vector_bytes fits_def)

lemma cbor_negative_back:
  assumes n: "sint n < 0"
  shows "cbor.reads_as fb (cbor_negative n []) (JInt n)"
  unfolding cbor.reads_as_def
proof (intro allI impI)
  fix v :: "byte list" and i post
  let ?p = "- 1 - n"
  assume d: "drop i v = cbor_negative n [] @ post"
  note rules = from_cbor_internal.simps [of fb v i] cbor_negative_def add_to_vector_bytes length_bytes_of width_def Let_def
  have le: "sint ?p \<le> k \<longleftrightarrow> uint ?p \<le> k" for k using positive_number [OF n] by simp
  consider "- 24 \<le> sint n" | "\<not> - 24 \<le> sint n" "sint ?p \<le> 0xff"
    | "\<not> - 24 \<le> sint n" "\<not> sint ?p \<le> 0xff" "sint ?p \<le> 0xffff"
    | "\<not> - 24 \<le> sint n" "\<not> sint ?p \<le> 0xff" "\<not> sint ?p \<le> 0xffff" "sint ?p \<le> 0xffffffff"
    | "\<not> - 24 \<le> sint n" "\<not> sint ?p \<le> 0xff" "\<not> sint ?p \<le> 0xffff" "\<not> sint ?p \<le> 0xffffffff" by blast
  then show "from_cbor_internal fb v i = Inr (JInt n, i + length (cbor_negative n []))"
  proof cases
    case 1
    then have d': "drop i v = ucast (0x20 + ?p) # post" using d by (simp add: rules)
    show ?thesis
      using cbor_small_bytes(2) [OF cbor_first [OF d'] small_positive(1,2) [OF 1 n], of fb] small_positive(3) [OF 1 n] 1
      by (simp add: cbor_negative_def)
  next
    case 2
    then have d': "drop i v = 0x38 # bytes_of 1 ?p @ post" using d by (simp only: rules) simp
    have "fits 1 ?p" using 2(2) by (intro fits_le) (simp add: le word_le_def)
    from read_negative_bytes [where 'a = 'a, OF d' _ this] cbor_first [OF d'] 2
    show ?thesis by (simp only: rules) (simp add: length_bytes_of width_def)
  next
    case 3
    then have d': "drop i v = 0x39 # bytes_of 2 ?p @ post" using d by (simp only: rules) simp
    have "fits 2 ?p" using 3(3) by (intro fits_le) (simp add: le word_le_def)
    from read_negative_bytes [where 'a = 'a, OF d' _ this] cbor_first [OF d'] 3
    show ?thesis by (simp only: rules) (simp add: length_bytes_of width_def)
  next
    case 4
    then have d': "drop i v = 0x3a # bytes_of 4 ?p @ post" using d by (simp only: rules) simp
    have "fits 4 ?p" using 4(4) by (intro fits_le) (simp add: le word_le_def)
    from read_negative_bytes [where 'a = 'a, OF d' _ this] cbor_first [OF d'] 4
    show ?thesis by (simp only: rules) (simp add: length_bytes_of width_def)
  next
    case 5
    then have d': "drop i v = 0x3b # bytes_of 8 ?p @ post" using d by (simp only: rules) simp
    from read_negative_bytes [where 'a = 'a, OF d' _ fits_le(4)] cbor_first [OF d'] 5
    show ?thesis by (simp only: rules) (simp add: length_bytes_of width_def)
  qed
qed

lemma to_cbor_back:
  assumes "\<forall>d. d_of_bits fb (d_bits fb d) = d"
  shows "packable j \<Longrightarrow> cbor.reads_as fb (to_cbor fb j) (settled fb j)"
proof (induction j rule: packable.induct)
  case 1
  show ?case unfolding cbor.reads_as_def to_cbor_def
    by (auto simp: from_cbor_internal.simps dest!: cbor_first)
next
  case (2 m)
  have "list_all2 (\<lambda>b e. cbor.reads_as fb (fst b) (JString (fst e)) \<and> cbor.reads_as fb (snd b) (snd e))
      (map (\<lambda>e. (cbor_string (fst e) [], to_cbor fb (snd e))) m) (map (\<lambda>e. (fst e, settled fb (snd e))) m)"
    using 2 by (auto simp: list.rel_map intro!: list.rel_refl_strong cbor_string_back)
  from cbor_object_back [OF this] show ?case
    using "2.prems" by (simp add: to_cbor_simps comp_def map_sorted_def)
next
  case (3 xs)
  have "list_all2 (cbor.reads_as fb) (map (to_cbor fb) xs) (map (settled fb) xs)"
    using 3 by (auto simp: list.rel_map intro!: list.rel_refl_strong)
  from cbor_array_back [OF this] show ?case using "3.prems" by (simp add: to_cbor_simps)
next
  case (5 b)
  show ?case unfolding cbor.reads_as_def to_cbor_def
    by (cases b) (auto simp: from_cbor_internal.simps dest!: cbor_first)
next
  case (8 d)
  show ?case unfolding cbor.reads_as_def
  proof (intro allI impI)
    fix v :: "byte list" and i post
    assume "drop i v = to_cbor fb (JFloat d) @ post"
    then have d: "drop i v = 0xfb # bytes_of 8 (d_bits fb d) @ post" by (simp add: to_cbor_simps)
    from cbor_first [OF d] read_double_bytes [OF d] assms
    show "from_cbor_internal fb v i = Inr (settled fb (JFloat d), i + length (to_cbor fb (JFloat d)))"
      by (simp add: from_cbor_internal.simps to_cbor_simps length_bytes_of width_def stored_double_def)
  qed
qed (auto simp: to_cbor_def cbor_string_back cbor_unsigned_back cbor_negative_back)

section \<open>Theorems\<close>

text \<open>
  Property C25: CBOR: what \<open>to_cbor\<close> writes is read back as the same value, with the numbers that are not
  negative as unsigned ones and null for infinities and NaN. Bytes that follow are not looked at. In the
  value every string, array and object has fewer than \<open>2 ^ 32\<close> parts, the keys of an object are in order, and
  nothing is discarded; the vector has fewer than \<open>2 ^ 63\<close> bytes, and the bits of a double determine it.
\<close>

theorem cbor_roundtrip:
  assumes "packable j" "\<forall>d. d_of_bits fb (d_bits fb d) = d" "length (to_cbor fb j @ post) < 2 ^ 63"
  shows "from_cbor fb (to_cbor fb j @ post) = Inr (settled fb j)"
  using cbor.reads_asD [OF to_cbor_back [OF assms(2,1)] assms(3), of 0 post] by (simp add: from_cbor_def)

theorem cbor_roundtrip_witness:
  "from_cbor word_bits (to_cbor word_bits
       (JObject [(''a'', JArray [JInt 1, JInt (- 100), JFloat 5]), (''b'', JFloat 0x7ff0000000000000)]) @ [7])
     = Inr (JObject [(''a'', JArray [JUint 1, JInt (- 100), JFloat 5]), (''b'', JNull)])"
proof -
  let ?j = "JObject [(''a'', JArray [JInt 1, JInt (- 100), JFloat 5]), (''b'', JFloat 0x7ff0000000000000)]"
  have "packable ?j" by (simp add: map_sorted_def)
  moreover have "\<forall>d. d_of_bits word_bits (d_bits word_bits d) = d" by (simp add: word_bits_def)
  moreover have "length (to_cbor word_bits ?j @ [7]) < 2 ^ 63"
    by (simp add: to_cbor_def write_double_bytes add_to_vector_bytes length_bytes_of width_def cbor_unsigned_def
        cbor_negative_def cbor_head_def cbor_string_def write_chars_def)
  ultimately have "from_cbor word_bits (to_cbor word_bits ?j @ [7]) = Inr (settled word_bits ?j)"
    by (rule cbor_roundtrip)
  then show ?thesis by (simp add: word_bits_def)
qed

text \<open>
  Property C26: the two readers return on every vector, from every position, with a value or an
  exception, whatever lengths the bytes claim; and a value that is returned was read from bytes that
  exist, at least one of them: the position afterwards is behind the first byte and not behind the
  end.
\<close>

theorem binary_readers_within:
  "((\<exists>e. from_msgpack_internal fb v i = Inl e) \<or>
      (\<exists>j k. from_msgpack_internal fb v i = Inr (j, k) \<and> i < k \<and> k \<le> length v))
   \<and> ((\<exists>e. from_cbor_internal fb v i = Inl e) \<or>
      (\<exists>j k. from_cbor_internal fb v i = Inr (j, k) \<and> i < k \<and> k \<le> length v))"
proof
  have "within v (Suc i) (from_msgpack_internal fb v i)"
    by (rule msgpack_within) (rule spec [OF msgpack_total])
  then show "(\<exists>e. from_msgpack_internal fb v i = Inl e) \<or>
      (\<exists>j k. from_msgpack_internal fb v i = Inr (j, k) \<and> i < k \<and> k \<le> length v)"
    by (cases "from_msgpack_internal fb v i") (auto simp: within_def)
  have "within v (Suc i) (from_cbor_internal fb v i)"
    by (rule cbor_within) (rule spec [OF cbor_total])
  then show "(\<exists>e. from_cbor_internal fb v i = Inl e) \<or>
      (\<exists>j k. from_cbor_internal fb v i = Inr (j, k) \<and> i < k \<and> k \<le> length v)"
    by (cases "from_cbor_internal fb v i") (auto simp: within_def)
qed

text \<open>
  A negative number below \<open>- 2 ^ 63\<close> is read as a positive one: the eight bytes of 0x3b are taken for a
  signed number.
\<close>

theorem cbor_large_negative:
  assumes "2 ^ 63 \<le> unat w"
  shows "from_cbor fb (0x3b # bytes_of 8 w) = Inr (JInt (- 1 - w))" "0 \<le> sint (- 1 - w)"
proof -
  have d: "drop 0 (0x3b # bytes_of 8 w) = 0x3b # bytes_of 8 (- 1 - (- 1 - w)) @ []" by simp
  show "from_cbor fb (0x3b # bytes_of 8 w) = Inr (JInt (- 1 - w))"
    using cbor_first [OF d] read_negative_bytes [where 'a = 'a, OF d _ fits_le(4)]
    by (simp add: from_cbor_def from_cbor_internal.simps width_def)
  show "0 \<le> sint (- 1 - w)"
  proof (rule ccontr)
    assume "\<not> 0 \<le> sint (- 1 - w)"
    then have "uint w = - 1 - sint (- 1 - w)" using positive_number(2) [of "- 1 - w"] by simp
    then have "uint w < 2 ^ 63" using sint_ge [of "- 1 - w"] by simp
    moreover have "(2 :: int) ^ 63 \<le> int (unat w)" using assms by (metis of_nat_le_iff of_nat_numeral of_nat_power)
    ultimately show False by simp
  qed
qed

end
