(* ===== verification/Params.thy ===== *)
theory Params
  imports JsonParser
begin

text \<open>
  \<open>include/Params.h\<close>, \<open>src/Params.cpp\<close>: the parameters of one request. The setters store the
  query, the body and the visitor's key; \<open>json\<close> parses the body and \<open>parse\<close> takes the offers, the
  request parameters and the informer out of the parsed document. Exceptions are caught and logged:
  every operation returns the entries it logs beside the new state. The regular expression and
  trimming functions of Boost are parameters, with what the code relies on as named predicates.
\<close>

section \<open>Boost\<close>

text \<open>\<open>u32regex_replace\<close> (text, pattern, replacement), which may throw, and \<open>boost::trim\<close>.\<close>

record boost_lib =
  u32regex_replace :: "string \<Rightarrow> string \<Rightarrow> string \<Rightarrow> string res"
  boost_trim :: "string \<Rightarrow> string"

definition strips_nondigits :: "boost_lib \<Rightarrow> bool" where
  "strips_nondigits bl \<longleftrightarrow>
     (\<forall>s t. u32regex_replace bl s ''[^0-9]'' [] = Inr t \<longrightarrow> t = filter c_isdigit s)"

definition trims_space_only :: "boost_lib \<Rightarrow> bool" where
  "trims_space_only bl \<longleftrightarrow>
     (\<forall>s. s = [] \<or> \<not> c_isspace (hd s) \<and> \<not> c_isspace (last s) \<longrightarrow> boost_trim bl s = s)"

section \<open>State\<close>

record 'd params =
  p_cookie_id :: string
  p_post :: string
  p_get :: string
  p_key_long :: u64
  p_time :: int
  p_offers :: "'d json"
  p_informer :: "'d json"
  p_params :: "'d json"
  p_json :: "'d json"
  p_test_mode :: bool

text \<open>An entry of the log: the place that writes it, and the exception it reports.\<close>

datatype log_site = While_parse_post | While_items | While_params | While_informer

type_synonym log_entry = "log_site \<times> exn"

text \<open>The constructor sets the time only; \<open>test_mode\<close> keeps the indeterminate value \<open>garbage\<close>.\<close>

definition Params_new :: "int \<Rightarrow> bool \<Rightarrow> 'd params" where
  "Params_new local_time garbage =
     \<lparr>p_cookie_id = [], p_post = [], p_get = [], p_key_long = 0, p_time = local_time,
      p_offers = JNull, p_informer = JNull, p_params = JNull, p_json = JNull,
      p_test_mode = garbage\<rparr>"

section \<open>Setters\<close>

definition time_t_to_string :: "int \<Rightarrow> string" where
  "time_t_to_string t = string_of_int t"

text \<open>An exception of the regular expression leaves \<open>cookie_id_\<close> assigned; it ends the request.\<close>

definition set_cookie_id :: "boost_lib \<Rightarrow> int \<Rightarrow> string \<Rightarrow> 'd params \<Rightarrow> 'd params res" where
  "set_cookie_id bl now cookie_id p =
     res_bind
       (if cookie_id = [] then Inr (p\<lparr>p_cookie_id := time_t_to_string now\<rparr>)
        else res_bind (u32regex_replace bl cookie_id ''[^0-9]'' [])
               (\<lambda>s. Inr (p\<lparr>p_cookie_id := s\<rparr>)))
       (\<lambda>p. let p = p\<lparr>p_cookie_id := boost_trim bl (p_cookie_id p)\<rparr> in
            Inr (p\<lparr>p_key_long := word_of_int (atol (p_cookie_id p))\<rparr>))"

definition set_json :: "'d dbl_lib \<Rightarrow> string \<Rightarrow> 'd params \<Rightarrow> 'd params \<times> log_entry list" where
  "set_json fl s p =
     (case json_parse fl s of
        Inr j \<Rightarrow> (p\<lparr>p_json := j\<rparr>, [])
      | Inl e \<Rightarrow> (p, [(While_parse_post, e)]))"

definition set_get :: "string \<Rightarrow> 'd params \<Rightarrow> 'd params" where
  "set_get s p = p\<lparr>p_get := s\<rparr>"

definition set_post :: "string \<Rightarrow> 'd params \<Rightarrow> 'd params" where
  "set_post s p = p\<lparr>p_post := s\<rparr>"

section \<open>Taking the document apart\<close>

text \<open>
  One \<open>try\<close> block: \<open>json_[key]\<close>, which adds a missing key, and the assignment of its value when the
  type is right.
\<close>

definition take_member ::
  "log_site \<Rightarrow> string \<Rightarrow> ('d json \<Rightarrow> bool) \<Rightarrow> ('d json \<Rightarrow> 'd params \<Rightarrow> 'd params)
   \<Rightarrow> 'd params \<times> log_entry list \<Rightarrow> 'd params \<times> log_entry list" where
  "take_member site key right_type assign st =
     (case json_index (p_json (fst st)) key of
        Inl e \<Rightarrow> (fst st, snd st @ [(site, e)])
      | Inr (j, v) \<Rightarrow>
          (let p = (fst st)\<lparr>p_json := j\<rparr> in
           ((if right_type v then assign v p else p), snd st)))"

definition parse_params :: "'d params \<Rightarrow> 'd params \<times> log_entry list" where
  "parse_params p =
     (let st = take_member While_items ''items'' is_array (\<lambda>v. p_offers_update (\<lambda>o'. v)) (p, []);
          st = take_member While_params ''params'' is_object (\<lambda>v. p_params_update (\<lambda>o'. v)) st;
          st = take_member While_informer ''informer'' is_object (\<lambda>v. p_informer_update (\<lambda>o'. v)) st;
          p = fst st
      in (if json_count (p_params p) ''test'' \<noteq> 0 then
            (case json_index (p_params p) ''test'' of
               Inl e \<Rightarrow> p
             | Inr (j, v) \<Rightarrow>
                 (case get_bool v of
                    Inl e \<Rightarrow> p\<lparr>p_params := j\<rparr>
                  | Inr b \<Rightarrow> p\<lparr>p_params := j, p_test_mode := b\<rparr>))
          else p,
          snd st))"

section \<open>Getters\<close>

definition getCookieId :: "'d params \<Rightarrow> string" where
  "getCookieId p = p_cookie_id p"

definition getUserKey :: "'d params \<Rightarrow> string" where
  "getUserKey p = p_cookie_id p"

definition getUserKeyLong :: "'d params \<Rightarrow> u64" where
  "getUserKeyLong p = p_key_long p"

definition getTime :: "'d params \<Rightarrow> int" where
  "getTime p = p_time p"

definition isTestMode :: "'d params \<Rightarrow> bool" where
  "isTestMode p = p_test_mode p"

section \<open>Lemmas\<close>

text \<open>The member of a document, as a caller that does not write sees it.\<close>

definition member :: "'d json \<Rightarrow> string \<Rightarrow> 'd json option" where
  "member j key = (case j of JObject m \<Rightarrow> map_of m key | _ \<Rightarrow> None)"

lemma json_index_member:
  "json_index j key = Inr (j', v) \<Longrightarrow>
     v = (case member j key of None \<Rightarrow> JNull | Some v \<Rightarrow> v)
     \<and> (\<forall>k. k \<noteq> key \<longrightarrow> member j' k = member j k) \<and> is_object j'"
  by (cases j) (auto simp: json_index_cases member_def is_object_def split: option.splits)

lemma json_index_fails: "json_index j key = Inl e \<longleftrightarrow>
    \<not> is_null j \<and> \<not> is_object j \<and> e = Domain_error (''cannot use operator[] with '' @ type_name j)"
  by (cases j) (auto simp: json_index_cases is_object_def is_null_def split: option.splits)

lemma json_index_ok: "is_null j \<or> is_object j \<Longrightarrow> \<exists>j' v. json_index j key = Inr (j', v)"
  by (cases j) (auto simp: json_index_cases is_object_def is_null_def split: option.splits)

text \<open>The value a block takes: the member when it has the right type, else the value before.\<close>

definition taken :: "'d json \<Rightarrow> string \<Rightarrow> ('d json \<Rightarrow> bool) \<Rightarrow> 'd json \<Rightarrow> 'd json" where
  "taken j key right_type old =
     (case member j key of Some v \<Rightarrow> if right_type v then v else old | None \<Rightarrow> old)"

lemma wrong_type_null [simp]: "\<not> is_array JNull" "\<not> is_object JNull"
  by (simp_all add: is_array_def is_object_def)

lemma take_member_ok:
  assumes "is_null (p_json p) \<or> is_object (p_json p)" "\<not> right_type JNull"
  shows "\<exists>j. (\<forall>k. k \<noteq> key \<longrightarrow> member j k = member (p_json p) k) \<and> is_object j
    \<and> take_member site key right_type assign (p, logs) =
      ((case member (p_json p) key of
          Some v \<Rightarrow> if right_type v then assign v (p\<lparr>p_json := j\<rparr>) else p\<lparr>p_json := j\<rparr>
        | None \<Rightarrow> p\<lparr>p_json := j\<rparr>), logs)"
proof -
  obtain j v where jv: "json_index (p_json p) key = Inr (j, v)" using json_index_ok [OF assms(1)] by blast
  then show ?thesis using json_index_member [OF jv] jv assms(2)
    by (intro exI [of _ j]) (auto simp: take_member_def split: option.splits)
qed

lemmas take_array = take_member_ok [where right_type = is_array, OF _ wrong_type_null(1)]

lemmas take_object = take_member_ok [where right_type = is_object, OF _ wrong_type_null(2)]

lemma take_member_fails:
  assumes "\<not> is_null (p_json p)" "\<not> is_object (p_json p)"
  shows "take_member site key right_type assign (p, logs) =
    (p, logs @ [(site, Domain_error (''cannot use operator[] with '' @ type_name (p_json p)))])"
proof -
  have "json_index (p_json p) key = Inl (Domain_error (''cannot use operator[] with '' @ type_name (p_json p)))"
    using assms by (simp add: json_index_fails)
  then show ?thesis by (simp add: take_member_def)
qed

lemma is_object_not_null: "is_object j \<Longrightarrow> is_null j \<or> is_object j"
  by simp

text \<open>
  Property C30: \<open>parse\<close> never fails. From an object (or nothing) it takes the offers exactly when
  \<open>items\<close> is an array, the parameters and the informer exactly when those members are objects, and
  logs nothing; from any other document it takes nothing and logs one error for each of the three.
\<close>

theorem parse_params_takes:
  "(is_null (p_json p) \<or> is_object (p_json p) \<longrightarrow>
      snd (parse_params p) = []
      \<and> p_offers (fst (parse_params p)) = taken (p_json p) ''items'' is_array (p_offers p)
      \<and> p_params (fst (parse_params p)) = taken (p_json p) ''params'' is_object (p_params p)
      \<and> p_informer (fst (parse_params p)) = taken (p_json p) ''informer'' is_object (p_informer p))
   \<and> (\<not> is_null (p_json p) \<and> \<not> is_object (p_json p) \<longrightarrow>
      map fst (snd (parse_params p)) = [While_items, While_params, While_informer]
      \<and> p_offers (fst (parse_params p)) = p_offers p
      \<and> p_params (fst (parse_params p)) = p_params p
      \<and> p_informer (fst (parse_params p)) = p_informer p)"
proof -
  text \<open>
  The test flag does not touch the offers and the informer, nor an existing member.\<close>
  define finish :: "'a params \<Rightarrow> 'a params" where "finish p = (if json_count (p_params p) ''test'' \<noteq> 0 then
      (case json_index (p_params p) ''test'' of
         Inl e \<Rightarrow> p
       | Inr (j, v) \<Rightarrow>
           (case get_bool v of Inl e \<Rightarrow> p\<lparr>p_params := j\<rparr> | Inr b \<Rightarrow> p\<lparr>p_params := j, p_test_mode := b\<rparr>))
      else p)" for p
  have fin: "p_offers (finish q) = p_offers q \<and> p_informer (finish q) = p_informer q
      \<and> p_params (finish q) = p_params q" for q
    by (cases "p_params q")
      (auto simp: finish_def json_count_def json_index_cases split: option.splits sum.splits)
  note parse = parse_params_def [of p, unfolded Let_def, folded finish_def]
  show ?thesis
  proof (intro conjI [OF impI impI])
    assume ok: "is_null (p_json p) \<or> is_object (p_json p)"
    let ?t1 = "take_member While_items ''items'' is_array (\<lambda>v. p_offers_update (\<lambda>o'. v)) (p, [])"
    let ?t2 = "take_member While_params ''params'' is_object (\<lambda>v. p_params_update (\<lambda>o'. v)) ?t1"
    let ?t3 = "take_member While_informer ''informer'' is_object (\<lambda>v. p_informer_update (\<lambda>o'. v)) ?t2"
    obtain p1 where p1: "?t1 = (p1, [])" "is_object (p_json p1)"
      "member (p_json p1) ''params'' = member (p_json p) ''params''"
      "member (p_json p1) ''informer'' = member (p_json p) ''informer''"
      "p_offers p1 = taken (p_json p) ''items'' is_array (p_offers p)"
      "p_params p1 = p_params p" "p_informer p1 = p_informer p"
      using take_array [OF ok, of "''items''" While_items
          "\<lambda>v. p_offers_update (\<lambda>o'. v)" "[]"]
      by (cases "member (p_json p) ''items''"; cases "is_array (the (member (p_json p) ''items''))")
        (auto simp: taken_def)
    obtain p2 where p2: "?t2 = (p2, [])" "is_object (p_json p2)"
      "member (p_json p2) ''informer'' = member (p_json p) ''informer''"
      "p_offers p2 = p_offers p1" "p_params p2 = taken (p_json p) ''params'' is_object (p_params p)"
      "p_informer p2 = p_informer p"
      using take_object [OF is_object_not_null [OF p1(2)], of "''params''" While_params
          "\<lambda>v. p_params_update (\<lambda>o'. v)" "[]"] p1
      by (cases "member (p_json p) ''params''"; cases "is_object (the (member (p_json p) ''params''))")
        (auto simp: taken_def)
    obtain p3 where "?t3 = (p3, [])" "p_offers p3 = p_offers p1" "p_params p3 = p_params p2"
      "p_informer p3 = taken (p_json p) ''informer'' is_object (p_informer p)"
      using take_object [OF is_object_not_null [OF p2(2)], of "''informer''" While_informer
          "\<lambda>v. p_informer_update (\<lambda>o'. v)" "[]"] p2
      by (cases "member (p_json p) ''informer''"; cases "is_object (the (member (p_json p) ''informer''))")
        (auto simp: taken_def)
    then show "snd (parse_params p) = []
      \<and> p_offers (fst (parse_params p)) = taken (p_json p) ''items'' is_array (p_offers p)
      \<and> p_params (fst (parse_params p)) = taken (p_json p) ''params'' is_object (p_params p)
      \<and> p_informer (fst (parse_params p)) = taken (p_json p) ''informer'' is_object (p_informer p)"
      using p1 p2 fin unfolding parse by simp
  next
    assume "\<not> is_null (p_json p) \<and> \<not> is_object (p_json p)"
    then show "map fst (snd (parse_params p)) = [While_items, While_params, While_informer]
      \<and> p_offers (fst (parse_params p)) = p_offers p
      \<and> p_params (fst (parse_params p)) = p_params p
      \<and> p_informer (fst (parse_params p)) = p_informer p"
      using fin unfolding parse by (simp add: take_member_fails)
  qed
qed

theorem parse_params_takes_witness:
  "p_offers (fst (parse_params ((Params_new 0 False :: nat params)
      \<lparr>p_json := JObject [(''items'', JArray [JNull]), (''params'', JInt 1)]\<rparr>))) = JArray [JNull]"
  using parse_params_takes [of "(Params_new 0 False :: nat params)
      \<lparr>p_json := JObject [(''items'', JArray [JNull]), (''params'', JInt 1)]\<rparr>"]
  by (simp add: is_object_def taken_def member_def is_array_def)

lemma take_member_test_mode:
  "(\<And>v q. p_test_mode (assign v q) = p_test_mode q) \<Longrightarrow>
    p_test_mode (fst (take_member site key right_type assign st)) = p_test_mode (fst st)"
  by (auto simp: take_member_def Let_def split: sum.splits)

text \<open>
  The test mode is the boolean \<open>test\<close> of the parameters when there is one; in every
  other case \<open>parse\<close> leaves it as it was, which for a new object is indeterminate.
\<close>

theorem parse_params_test_mode:
  "p_test_mode (fst (parse_params p)) =
    (case member (p_params (fst (parse_params p))) ''test'' of
       Some (JBool b) \<Rightarrow> b
     | _ \<Rightarrow> p_test_mode p)"
proof -
  define q where "q = fst (take_member While_informer ''informer'' is_object (\<lambda>v. p_informer_update (\<lambda>o'. v))
    (take_member While_params ''params'' is_object (\<lambda>v. p_params_update (\<lambda>o'. v))
      (take_member While_items ''items'' is_array (\<lambda>v. p_offers_update (\<lambda>o'. v)) (p, []))))"
  have "p_test_mode q = p_test_mode p" by (simp add: q_def take_member_test_mode)
  moreover have "fst (parse_params p) = (if json_count (p_params q) ''test'' \<noteq> 0 then
      (case json_index (p_params q) ''test'' of
         Inl e \<Rightarrow> q
       | Inr (j, v) \<Rightarrow>
           (case get_bool v of Inl e \<Rightarrow> q\<lparr>p_params := j\<rparr> | Inr b \<Rightarrow> q\<lparr>p_params := j, p_test_mode := b\<rparr>))
      else q)"
    by (simp only: parse_params_def Let_def q_def fst_conv)
  ultimately show ?thesis
    by (cases "p_params q")
      (auto simp: json_count_def json_index_cases member_def get_bool_def
        split: option.splits sum.splits json.splits)
qed

lemma visitor_key:
  assumes "strips_nondigits bl" "trims_space_only bl" "0 \<le> now"
    and "set_cookie_id bl now c p = Inr q"
  shows "q = p\<lparr>p_cookie_id := (if c = [] then string_of_nat (nat now) else filter c_isdigit c),
    p_key_long := word_of_int (min long_max (int (nat_of_digits
      (if c = [] then string_of_nat (nat now) else filter c_isdigit c))))\<rparr>"
proof -
  define ds where "ds = (if c = [] then string_of_nat (nat now) else filter c_isdigit c)"
  have dig: "\<forall>x\<in>set ds. c_isdigit x"
    using string_of_nat_digits by (auto simp: ds_def)
  then have "ds = [] \<or> \<not> c_isspace (hd ds) \<and> \<not> c_isspace (last ds)"
    using c_isdigit_not_sign(3) by (meson hd_in_set last_in_set)
  then have trim: "boost_trim bl ds = ds" using assms(2) unfolding trims_space_only_def by blast
  have "atol ds = min long_max (int (nat_of_digits ds))"
  proof (cases "ds = []")
    case True
    then show ?thesis
      by (simp add: atol_def cstr_def strtol10_def nat_of_digits_def long_max_def)
  next
    case False
    then show ?thesis by (rule atol_digits [OF _ dig])
  qed
  moreover have "q = p\<lparr>p_cookie_id := ds, p_key_long := word_of_int (atol ds)\<rparr>"
    using assms(1,3,4) trim
    by (auto simp: set_cookie_id_def ds_def time_t_to_string_def string_of_int_def strips_nondigits_def
        res_simps Let_def split: if_splits)
  ultimately show ?thesis by (simp add: ds_def)
qed

text \<open>
  The visitor's key. Whatever the cookie holds, \<open>cookie_id\<close> stores digits only: the
  digits of the cookie, or the current time for a visitor without one; and the numeric key is the
  number they write, at most the largest \<open>long\<close>, 0 where there is no digit.
\<close>

theorem cookie_id_digits:
  assumes "strips_nondigits bl" "trims_space_only bl" "0 \<le> now"
    and "set_cookie_id bl now c p = Inr q"
  shows "q = p\<lparr>p_cookie_id := (if c = [] then string_of_nat (nat now) else filter c_isdigit c),
    p_key_long := word_of_int (min long_max (int (nat_of_digits
      (if c = [] then string_of_nat (nat now) else filter c_isdigit c))))\<rparr>"
  using assms by (rule visitor_key)

definition plain_boost :: boost_lib where
  "plain_boost = \<lparr>u32regex_replace = (\<lambda>s pat r. Inr (filter c_isdigit s)),
     boost_trim = (\<lambda>s. rev (dropWhile c_isspace (rev (dropWhile c_isspace s))))\<rparr>"

lemma plain_boost_laws: "strips_nondigits plain_boost" "trims_space_only plain_boost"
proof -
  show "strips_nondigits plain_boost" by (simp add: strips_nondigits_def plain_boost_def)
  have "dropWhile c_isspace t = t" if "t = [] \<or> \<not> c_isspace (hd t)" for t
    using that by (cases t) auto
  then show "trims_space_only plain_boost"
    by (auto simp: trims_space_only_def plain_boost_def hd_rev)
qed

theorem cookie_id_digits_witness:
  "set_cookie_id plain_boost 1500000000 ''id=42;x'' (Params_new 0 False :: nat params)
     = Inr ((Params_new 0 False)\<lparr>p_cookie_id := ''42'', p_key_long := 42\<rparr>)"
proof -
  let ?p = "Params_new 0 False :: nat params"
  obtain q where q: "set_cookie_id plain_boost 1500000000 ''id=42;x'' ?p = Inr q"
    by (simp add: set_cookie_id_def plain_boost_def Let_def)
  show ?thesis
    using cookie_id_digits [OF plain_boost_laws _ q] q
    by (simp add: c_isdigit_def in_range_def nat_of_digits_def digit_val_def long_max_def)
qed

end
