(* ===== verification/BoostHelpers.thy ===== *)
theory BoostHelpers
  imports Prelude
begin

unbundle bit_operations_syntax

text \<open>
  \<open>src/BoostHelpers.cpp\<close>: \<open>getConfigDir\<close>, \<open>fileExists\<close>, \<open>checkPath\<close> and \<open>getSeconds\<close> over a file
  system whose state is explicit. The path algebra and \<open>create_directories\<close> of Boost, \<open>open\<close> and the
  match of the time expression are parameters. The messages written to \<open>std::clog\<close> are left out.
\<close>

section \<open>The file system\<close>

datatype file_kind = Regular | Directory | Other_file

record inode =
  ino_kind :: file_kind
  st_uid :: nat
  st_gid :: nat
  st_mode :: "32 word"

type_synonym fs = "string \<Rightarrow> inode option"

definition S_IRUSR :: "32 word" where "S_IRUSR = 0x100"
definition S_IWUSR :: "32 word" where "S_IWUSR = 0x80"
definition S_IXUSR :: "32 word" where "S_IXUSR = 0x40"
definition S_IRGRP :: "32 word" where "S_IRGRP = 0x20"
definition S_IWGRP :: "32 word" where "S_IWGRP = 0x10"
definition S_IXGRP :: "32 word" where "S_IXGRP = 0x8"
definition S_IROTH :: "32 word" where "S_IROTH = 0x4"
definition S_IWOTH :: "32 word" where "S_IWOTH = 0x2"
definition S_IXOTH :: "32 word" where "S_IXOTH = 0x1"

lemmas mode_bits = S_IRUSR_def S_IWUSR_def S_IXUSR_def S_IRGRP_def S_IWGRP_def S_IXGRP_def
  S_IROTH_def S_IWOTH_def S_IXOTH_def

text \<open>
  What the process and the libraries provide: the user and group, the elements of a path and their
  concatenation, the parent of a path, the exception with which \<open>exists\<close> and \<open>is_regular_file\<close> fail on a
  path whose status cannot be had, whether \<open>open (name, O_RDWR|O_CREAT, 0640)\<close> succeeds, and
  \<open>create_directories\<close>, which throws or says whether it created anything. \<open>time_match\<close> gives the text
  from the second group of \<open>(\d+):(\d+):(\d+)\<close> on, when the whole text matches.
\<close>

record os_lib =
  os_uid :: nat
  os_gid :: nat
  path_elements :: "string \<Rightarrow> string list"
  path_append :: "string \<Rightarrow> string \<Rightarrow> string"
  parent_path :: "string \<Rightarrow> string"
  status_error :: "fs \<Rightarrow> string \<Rightarrow> exn option"
  open_create :: "fs \<Rightarrow> string \<Rightarrow> bool"
  create_directories :: "fs \<Rightarrow> string \<Rightarrow> exn + bool \<times> fs"
  time_match :: "string \<Rightarrow> string option"

definition matches_times :: "os_lib \<Rightarrow> bool" where
  "matches_times os \<longleftrightarrow>
     (\<forall>h m s. h \<noteq> [] \<and> m \<noteq> [] \<and> s \<noteq> [] \<and> list_all c_isdigit (h @ m @ s) \<longrightarrow>
        time_match os (h @ CHR '':'' # m @ CHR '':'' # s) = Some (m @ CHR '':'' # s))"

definition creates_directory :: "os_lib \<Rightarrow> bool" where
  "creates_directory os \<longleftrightarrow>
     (\<forall>f p f'. create_directories os f p = Inr (True, f') \<longrightarrow>
        (\<exists>i. f' p = Some i \<and> ino_kind i = Directory) \<and> (\<forall>q i. f q = Some i \<longrightarrow> f' q = Some i))"

section \<open>Operations\<close>

definition getConfigDir :: "os_lib \<Rightarrow> fs \<Rightarrow> string \<Rightarrow> string" where
  "getConfigDir os f filePath =
     (case f filePath of
        None \<Rightarrow> []
      | Some i \<Rightarrow>
          if status_error os f filePath \<noteq> None then []
          else if ino_kind i \<noteq> Regular then []
          else if parent_path os filePath \<noteq> [] then parent_path os filePath @ ''/''
          else ''./'')"

definition fileExists :: "os_lib \<Rightarrow> fs \<Rightarrow> string \<Rightarrow> bool res" where
  "fileExists os f p = (case status_error os f p of Some e \<Rightarrow> Inl e | None \<Rightarrow> Inr (f p \<noteq> None))"

text \<open>The permission bits that are looked at: any one of them is enough.\<close>

definition access_mask :: "os_lib \<Rightarrow> inode \<Rightarrow> 32 word" where
  "access_mask os i =
     (let second = (\<lambda>w x. if ino_kind i = Regular then w else x) in
      if st_uid i \<noteq> os_uid os \<and> st_gid i \<noteq> os_gid os then S_IROTH OR second S_IWOTH S_IXOTH
      else if st_uid i = os_uid os \<and> st_gid i \<noteq> os_gid os then S_IRUSR OR second S_IWUSR S_IXUSR
      else if st_uid i \<noteq> os_uid os \<and> st_gid i = os_gid os then S_IRGRP OR second S_IWGRP S_IXGRP
      else S_IRUSR OR second S_IWUSR S_IXUSR)"

definition may_access :: "os_lib \<Rightarrow> inode \<Rightarrow> bool" where
  "may_access os i \<longleftrightarrow> st_mode i AND access_mask os i \<noteq> 0"

text \<open>
  How a check ends without an answer: the exception of \<open>exists\<close>, which nobody catches, or the decrement of
  the iterator at the end of an empty path, which is undefined.
\<close>

datatype path_stop = Path_throws exn | Path_undefined

text \<open>The loop over the elements of the path; \<open>test\<close> is the path so far.\<close>

definition make_path :: "os_lib \<Rightarrow> fs \<Rightarrow> string \<Rightarrow> bool \<times> fs" where
  "make_path os f p = (case create_directories os f p of Inl e \<Rightarrow> (False, f) | Inr r \<Rightarrow> r)"

fun check_elements :: "os_lib \<Rightarrow> bool \<Rightarrow> string \<Rightarrow> string list \<Rightarrow> fs \<Rightarrow> path_stop + bool \<times> fs" where
  "check_elements os checkWrite test [] f = Inr (True, f)"
| "check_elements os checkWrite test (e # es) f =
     (let test = path_append os test e in
      if test = [] \<or> test = ''/'' then check_elements os checkWrite test es f
      else case status_error os f test of
        Some ex \<Rightarrow> Inl (Path_throws ex)
      | None \<Rightarrow>
      (case f test of
        Some i \<Rightarrow>
          (if ino_kind i = Regular \<or> ino_kind i = Directory then
             (if may_access os i then check_elements os checkWrite test es f else Inr (False, f))
           else if checkWrite then
             (let (made, f) = make_path os f test in
              if made then check_elements os checkWrite test es f else Inr (False, f))
           else Inr (False, f))
      | None \<Rightarrow>
          (if checkWrite then
             (let (made, f) = make_path os f test in
              if made then check_elements os checkWrite test es f else Inr (False, f))
           else Inr (False, f))))"

text \<open>
  A file name with a writing check: a file \<open>path_ + "test"\<close> is opened and, if that succeeds,
  unlinked again; if it fails the result is still true.
\<close>

definition probe_file :: "os_lib \<Rightarrow> string \<Rightarrow> fs \<Rightarrow> fs" where
  "probe_file os path f =
     (if open_create os f (path @ ''test'') then f(path @ ''test'' := None) else f)"

definition checkPath :: "os_lib \<Rightarrow> string \<Rightarrow> bool \<Rightarrow> bool \<Rightarrow> fs \<Rightarrow> path_stop + bool \<times> fs" where
  "checkPath os path checkWrite isFile f =
     (if isFile \<and> path_elements os path = [] then Inl Path_undefined
      else
        let elements = (if isFile then butlast (path_elements os path) else path_elements os path)
        in case check_elements os checkWrite [] elements f of
             Inl stop \<Rightarrow> Inl stop
           | Inr (ok, f) \<Rightarrow>
               Inr (if \<not> ok then (False, f)
                    else if isFile \<and> checkWrite then (True, probe_file os path f)
                    else (True, f)))"

definition getSeconds :: "os_lib \<Rightarrow> string \<Rightarrow> int" where
  "getSeconds os s = (case time_match os (cstr s) of Some t \<Rightarrow> atoi t | None \<Rightarrow> - 1)"

section \<open>Properties\<close>

text \<open>
  The reference: the permissions of Unix, where the owner's, the group's and the others' three bits (read,
  write and execute, from the highest) lie at 6, 3 and 0.
\<close>

definition perm_class :: "os_lib \<Rightarrow> inode \<Rightarrow> nat" where
  "perm_class os i = (if st_uid i = os_uid os then 2 else if st_gid i = os_gid os then 1 else 0)"

definition granted :: "os_lib \<Rightarrow> inode \<Rightarrow> bool" where
  "granted os i \<longleftrightarrow> bit (st_mode i) (3 * perm_class os i + 2)
     \<or> bit (st_mode i) (3 * perm_class os i + (if ino_kind i = Regular then 1 else 0))"

text \<open>The path after \<open>k\<close> elements, and what a check asks of it.\<close>

definition way :: "os_lib \<Rightarrow> string \<Rightarrow> nat \<Rightarrow> string" where
  "way os path k = foldl (path_append os) [] (take k (path_elements os path))"

definition passes :: "os_lib \<Rightarrow> fs \<Rightarrow> string \<Rightarrow> bool" where
  "passes os f p \<longleftrightarrow> p = [] \<or> p = ''/''
     \<or> status_error os f p = None \<and> (\<exists>i. f p = Some i \<and> ino_kind i \<noteq> Other_file \<and> granted os i)"

lemma and_two_bits:
  fixes m :: "32 word"
  assumes "a < 32" "b < 32"
  shows "m AND (push_bit a 1 OR push_bit b 1) \<noteq> 0 \<longleftrightarrow> bit m a \<or> bit m b"
proof -
  have "bit (push_bit a 1 OR push_bit b 1 :: 32 word) n \<longleftrightarrow> n = a \<or> n = b" for n
    using assms by (auto simp: bit_simps)
  then have "(\<exists>n. bit (m AND (push_bit a 1 OR push_bit b 1)) n) \<longleftrightarrow> bit m a \<or> bit m b"
    by (auto simp: bit_and_iff)
  moreover have "x \<noteq> 0 \<longleftrightarrow> (\<exists>n. bit x n)" for x :: "32 word"
    using bit_word_eqI [of x 0] by auto
  ultimately show ?thesis by simp
qed

lemma mode_masks:
  "m AND (S_IRUSR OR S_IWUSR) \<noteq> 0 \<longleftrightarrow> bit m 8 \<or> bit m 7" "m AND (S_IRUSR OR S_IXUSR) \<noteq> 0 \<longleftrightarrow> bit m 8 \<or> bit m 6"
  "m AND (S_IRGRP OR S_IWGRP) \<noteq> 0 \<longleftrightarrow> bit m 5 \<or> bit m 4" "m AND (S_IRGRP OR S_IXGRP) \<noteq> 0 \<longleftrightarrow> bit m 5 \<or> bit m 3"
  "m AND (S_IROTH OR S_IWOTH) \<noteq> 0 \<longleftrightarrow> bit m 2 \<or> bit m 1" "m AND (S_IROTH OR S_IXOTH) \<noteq> 0 \<longleftrightarrow> bit m 2 \<or> bit m 0"
  using and_two_bits [of 8 7 m] and_two_bits [of 8 6 m] and_two_bits [of 5 4 m] and_two_bits [of 5 3 m]
    and_two_bits [of 2 1 m] and_two_bits [of 2 0 m]
  by (simp_all add: mode_bits)

lemma access_granted: "may_access os i \<longleftrightarrow> granted os i"
  by (simp add: may_access_def access_mask_def granted_def perm_class_def mode_masks numeral_2_eq_2
      flip: numeral_2_eq_2)

lemma all_steps: "(\<forall>k\<le>Suc n. P k) \<longleftrightarrow> P 0 \<and> (\<forall>k\<le>n. P (Suc k))"
  by (metis Suc_le_mono le0 not0_implies_Suc)

lemma check_elements_step:
  "check_elements os False test (e # es) f =
     (let t = path_append os test e in
      if t = [] \<or> t = ''/'' then check_elements os False t es f
      else case status_error os f t of
         Some ex \<Rightarrow> Inl (Path_throws ex)
       | None \<Rightarrow> if passes os f t then check_elements os False t es f else Inr (False, f))"
  by (auto simp: Let_def passes_def access_granted split: option.splits) (metis file_kind.exhaust)+

lemma check_elements_same:
  "check_elements os False test es f = Inr (b, f') \<Longrightarrow> f' = f"
  by (induction es arbitrary: test)
    (auto simp: check_elements_step Let_def simp del: check_elements.simps(2) split: if_splits option.splits)

lemma check_elements_true:
  "passes os f test \<Longrightarrow> check_elements os False test es f = Inr (True, f) \<longleftrightarrow>
     (\<forall>k\<le>length es. passes os f (foldl (path_append os) test (take k es)))"
proof (induction es arbitrary: test)
  case (Cons e es)
  define t where "t = path_append os test e"
  have "passes os f t" if "\<forall>k\<le>length es. passes os f (foldl (path_append os) t (take k es))"
    using that [rule_format, of 0] by simp
  moreover have "status_error os f t = None" if "passes os f t" "t \<noteq> []" "t \<noteq> ''/''"
    using that by (auto simp: passes_def)
  moreover have "passes os f t" if "t = [] \<or> t = ''/''"
    using that by (auto simp: passes_def)
  ultimately show ?case
    unfolding check_elements_step Let_def t_def [symmetric] length_Cons all_steps
    using Cons.IH [of t] Cons.prems t_def by (auto split: option.splits)
qed simp

lemma check_elements_throws:
  "check_elements os False test es f = Inl stop \<Longrightarrow>
     \<exists>k\<le>length es. \<exists>e. stop = Path_throws e \<and> status_error os f (foldl (path_append os) test (take k es)) = Some e"
proof (induction es arbitrary: test)
  case (Cons e es)
  define t where "t = path_append os test e"
  show ?case
  proof (cases "check_elements os False t es f = Inl stop")
    case True
    then obtain k e' where "k \<le> length es" "stop = Path_throws e'"
      "status_error os f (foldl (path_append os) t (take k es)) = Some e'" using Cons.IH by blast
    then show ?thesis by (intro exI [of _ "Suc k"]) (simp add: t_def)
  next
    case False
    then obtain ex where "status_error os f t = Some ex" "stop = Path_throws ex"
      using Cons.prems unfolding check_elements_step Let_def t_def [symmetric] by (auto split: if_splits option.splits)
    then show ?thesis by (intro exI [of _ "Suc 0"]) (simp add: t_def)
  qed
qed simp

text \<open>
  Property C38: a check without writing changes nothing and says exactly whether every directory on the
  way exists, as a file or a directory, and grants the process's class (the owner's, the group's, or that
  of the others) the reading or, as the case may be, the writing of the file or the search of the
  directory: a readable directory that may not be searched passes. It ends without an answer only by the
  exception of a part of the way whose status cannot be had, and for a file with an empty name.
\<close>

theorem checkPath_read_only:
  "(checkPath os path False isFile f = Inr (True, f') \<longleftrightarrow>
      f' = f \<and> \<not> (isFile \<and> path_elements os path = [])
      \<and> (\<forall>k. k + of_bool isFile \<le> length (path_elements os path) \<longrightarrow> passes os f (way os path k)))
   \<and> (checkPath os path False isFile f = Inr (b, f') \<longrightarrow> f' = f)
   \<and> (checkPath os path False isFile f = Inl (Path_throws e) \<longrightarrow>
      (\<exists>k. k + of_bool isFile \<le> length (path_elements os path) \<and> status_error os f (way os path k) = Some e))
   \<and> (checkPath os path False isFile f = Inl Path_undefined \<longleftrightarrow> isFile \<and> path_elements os path = [])"
proof -
  define es where "es = (if isFile then butlast (path_elements os path) else path_elements os path)"
  show ?thesis
  proof (cases "isFile \<and> path_elements os path = []")
    case True
    then show ?thesis by (simp add: checkPath_def)
  next
    case False
    have k: "k + of_bool isFile \<le> length (path_elements os path) \<longleftrightarrow> k \<le> length es" for k
      using False by (cases "path_elements os path") (auto simp: es_def)
    have w: "way os path k = foldl (path_append os) [] (take k es)" if "k \<le> length es" for k
    proof -
      have "length es = length (path_elements os path) - of_bool isFile" by (simp add: es_def)
      then have "isFile \<longrightarrow> k < length (path_elements os path)" using that False
        by (cases "path_elements os path") auto
      then show ?thesis by (auto simp: way_def es_def take_butlast)
    qed
    have c: "checkPath os path False isFile f = check_elements os False [] es f"
      using False by (auto simp: checkPath_def es_def [symmetric] split: sum.split prod.split)
    have "passes os f []" by (simp add: passes_def)
    from check_elements_true [OF this, of es]
    have "check_elements os False [] es f = Inr (True, f') \<longleftrightarrow>
        f' = f \<and> (\<forall>k\<le>length es. passes os f (way os path k))"
      using check_elements_same [of os "[]" es f True f'] w by auto
    then show ?thesis unfolding c k
      using False check_elements_same [of os "[]" es f b f'] check_elements_throws [of os "[]" es f] w by fastforce
  qed
qed

lemma make_path_law:
  "creates_directory os \<Longrightarrow> make_path os f p = (True, f') \<Longrightarrow>
    (\<exists>i. f' p = Some i \<and> ino_kind i = Directory) \<and> (\<forall>q i. f q = Some i \<longrightarrow> f' q = Some i)"
  unfolding creates_directory_def make_path_def by (auto split: sum.splits)

text \<open>The prefixes of a path that the loop looks at.\<close>

fun prefixes_from :: "os_lib \<Rightarrow> string \<Rightarrow> string list \<Rightarrow> string list" where
  "prefixes_from os test [] = []"
| "prefixes_from os test (e # es) =
     (let test = path_append os test e in
      if test = [] \<or> test = ''/'' then prefixes_from os test es else test # prefixes_from os test es)"

lemma check_elements_write:
  assumes "creates_directory os" "check_elements os True test es f = Inr (True, f')"
  shows "(\<forall>q i. f q = Some i \<longrightarrow> f' q = Some i)
    \<and> (\<forall>p\<in>set (prefixes_from os test es). \<exists>i. f' p = Some i \<and> ino_kind i \<noteq> Other_file)"
  using assms(2)
proof (induction es arbitrary: test f)
  case (Cons e es)
  let ?t = "path_append os test e"
  show ?case
  proof (cases "?t = [] \<or> ?t = ''/''")
    case True
    with Cons show ?thesis by (auto simp: Let_def)
  next
    case False
    have "\<exists>g i. check_elements os True ?t es g = Inr (True, f') \<and> (\<forall>q i. f q = Some i \<longrightarrow> g q = Some i)
      \<and> g ?t = Some i \<and> ino_kind i \<noteq> Other_file"
    proof (cases "\<exists>i. f ?t = Some i \<and> ino_kind i \<noteq> Other_file")
      case True
      then obtain i where i: "f ?t = Some i" "ino_kind i = Regular \<or> ino_kind i = Directory"
        by (metis file_kind.exhaust)
      have "check_elements os True ?t es f = Inr (True, f')"
        using Cons.prems False i by (simp add: Let_def split: if_splits option.splits)
      then show ?thesis using i by (intro exI [of _ f] exI [of _ i]) auto
    next
      case None: False
      obtain made g where mk: "make_path os f ?t = (made, g)" by fastforce
      have "made \<and> check_elements os True ?t es g = Inr (True, f')"
        using Cons.prems False None mk by (auto simp: Let_def split: option.splits if_splits)
      then show ?thesis using make_path_law [OF assms(1), of f ?t g] mk by fastforce
    qed
    then show ?thesis using Cons.IH False by (auto simp: Let_def)
  qed
qed simp

text \<open>
  A successful check with writing leaves every directory on the way in existence (it
  creates the missing ones) and every file that was there as it was, except for the probe file
  \<open>path_ + "test"\<close>, which is gone afterwards even if it was there before.
\<close>

theorem checkPath_writing:
  assumes "creates_directory os" "checkPath os path True isFile f = Inr (True, f')"
  shows "(\<forall>q i. f q = Some i \<longrightarrow> f' q = Some i \<or> q = path @ ''test'' \<and> f' q = None)
    \<and> (\<forall>p\<in>set (prefixes_from os [] (if isFile then butlast (path_elements os path) else path_elements os path)).
        p = path @ ''test'' \<or> (\<exists>i. f' p = Some i \<and> ino_kind i \<noteq> Other_file))"
proof -
  define es where "es = (if isFile then butlast (path_elements os path) else path_elements os path)"
  obtain g where g: "check_elements os True [] es f = Inr (True, g)" "f' = g \<or> f' = g(path @ ''test'' := None)"
    using assms(2)
    by (auto simp: checkPath_def probe_file_def es_def [symmetric] split: if_splits sum.splits prod.splits)
  then show ?thesis
    using check_elements_write [OF assms(1) g(1)] by (auto simp: es_def [symmetric] split: if_splits)
qed

definition one_file_os :: os_lib where
  "one_file_os = \<lparr>os_uid = 0, os_gid = 0, path_elements = (\<lambda>p. [p, []]), path_append = (@), parent_path = (\<lambda>p. []),
     status_error = (\<lambda>f p. None), open_create = (\<lambda>f p. True),
     create_directories = (\<lambda>f p. if f p = None
       then Inr (True, f(p := Some \<lparr>ino_kind = Directory, st_uid = 0, st_gid = 0, st_mode = 0x1FF\<rparr>))
       else Inr (False, f)),
     time_match = (\<lambda>t. let r = dropWhile c_isdigit t in
       if r = [] then None else Some (tl r))\<rparr>"

text \<open>A directory of another user that the others may read passes, although they may not search it.\<close>

theorem checkPath_read_only_witness:
  "checkPath one_file_os ''run'' False True [''run'' \<mapsto> \<lparr>ino_kind = Directory, st_uid = 5, st_gid = 5, st_mode = 4\<rparr>]
     = Inr (True, [''run'' \<mapsto> \<lparr>ino_kind = Directory, st_uid = 5, st_gid = 5, st_mode = 4\<rparr>])"
proof -
  let ?f = "[''run'' \<mapsto> \<lparr>ino_kind = Directory, st_uid = 5, st_gid = 5, st_mode = 4\<rparr>] :: fs"
  have "passes one_file_os ?f (way one_file_os ''run'' k)" if "k + of_bool True \<le> length (path_elements one_file_os ''run'')" for k
  proof -
    have "k = 0 \<or> k = 1" using that by (auto simp: one_file_os_def)
    then show ?thesis
      by (auto simp: way_def one_file_os_def passes_def granted_def perm_class_def bit_numeral_rec)
  qed
  then show ?thesis using checkPath_read_only [of one_file_os "''run''" True ?f ?f]
    by (simp add: one_file_os_def)
qed

theorem checkPath_writing_witness:
  "(\<exists>f' i. checkPath one_file_os ''run'' True True (\<lambda>p. None) = Inr (True, f') \<and> f' ''run'' = Some i)"
proof -
  have c: "creates_directory one_file_os"
    by (auto simp: creates_directory_def one_file_os_def split: if_splits)
  have "checkPath one_file_os ''run'' True True (\<lambda>p. None)
    = Inr (True, (\<lambda>p. None)(''run'' := Some \<lparr>ino_kind = Directory, st_uid = 0, st_gid = 0, st_mode = 0x1FF\<rparr>,
        ''runtest'' := None))"
    by (simp add: checkPath_def probe_file_def one_file_os_def make_path_def Let_def)
  from checkPath_writing [OF c this] this show ?thesis
    by (simp add: one_file_os_def Let_def)
qed

text \<open>
  The file name check does not depend on whether the file can be created: where the
  directories are in order it answers yes, also when opening the file fails.
\<close>

theorem checkPath_ignores_open:
  "map_sum id fst (checkPath os path True True f) =
    map_sum id fst (checkPath (os\<lparr>open_create := (\<lambda>f p. b)\<rparr>) path True True f)"
proof -
  have "check_elements (os\<lparr>open_create := (\<lambda>f p. b)\<rparr>) w test es g = check_elements os w test es g"
    for w test es g
    by (induction es arbitrary: test g)
      (auto simp: Let_def may_access_def access_mask_def make_path_def split: option.splits prod.splits)
  then show ?thesis by (simp add: checkPath_def probe_file_def Let_def split: prod.splits sum.splits)
qed

text \<open>
  For a time of day \<open>getSeconds\<close> returns the number in its second field, the minutes.
\<close>

theorem getSeconds_is_minutes:
  assumes "matches_times os" "h \<noteq> []" "m \<noteq> []" "s \<noteq> []" "list_all c_isdigit (h @ m @ s)"
    and "nat_of_digits m < 2 ^ 31"
  shows "getSeconds os (h @ CHR '':'' # m @ CHR '':'' # s) = int (nat_of_digits m)"
proof -
  have dig: "\<forall>c\<in>set m. c_isdigit c" using assms(5) by (simp add: list_all_iff)
  have nul: "NUL \<notin> set (h @ CHR '':'' # m @ CHR '':'' # s)"
  proof -
    have "\<forall>c\<in>set (h @ m @ s). c \<noteq> NUL" using assms(5) c_isdigit_not_sign(4) by (auto simp: list_all_iff)
    then show ?thesis by (auto simp: NUL_def)
  qed
  have "cstr (h @ CHR '':'' # m @ CHR '':'' # s) = h @ CHR '':'' # m @ CHR '':'' # s"
    using nul by (rule cstr_no_NUL)
  then have "getSeconds os (h @ CHR '':'' # m @ CHR '':'' # s) = atoi (m @ CHR '':'' # s)"
    using assms(1-5) by (simp add: getSeconds_def matches_times_def)
  also have "\<dots> = int (nat_of_digits m)"
    using assms(3,6) dig nul by (intro atoi_digits_then) (auto simp: c_isdigit_def in_range_def)
  finally show ?thesis .
qed

theorem getSeconds_is_minutes_witness:
  "getSeconds one_file_os ''01:02:03'' = 2"
proof -
  have "dropWhile c_isdigit (h @ CHR '':'' # r) = CHR '':'' # r"
    if "list_all c_isdigit h" for h r
    using that by (induction h) (auto simp: c_isdigit_def in_range_def)
  moreover have "\<not> c_isdigit CHR '':''" by (simp add: c_isdigit_def in_range_def)
  ultimately have "matches_times one_file_os"
    by (simp add: matches_times_def one_file_os_def Let_def)
  from getSeconds_is_minutes [OF this, of "''01''" "''02''" "''03''"] show ?thesis
    by (simp add: c_isdigit_def in_range_def nat_of_digits_def digit_val_def)
qed

end
