(* ===== verification/Config.thy ===== *)
theory Config
  imports BoostHelpers
begin

text \<open>
  \<open>src/Config.cpp\<close>, \<open>include/Config.h\<close>: the singleton with the settings, \<open>Load\<close>, which reads them from
  an XML file, and the global request counters it resets. Reading the XML (TinyXML) and the system
  are parameters; an exit of the process and the use of a null pointer are results of their own.
\<close>

section \<open>Counters\<close>

text \<open>The global counters, \<open>unsigned long\<close> variables of 64 bits.\<close>

record counters =
  request_processed :: u64
  last_time_request :: u64
  offer_processed :: u64
  social_processed :: u64
  retargeting_processed :: u64

definition zero_counters :: counters where
  "zero_counters = \<lparr>request_processed = 0, last_time_request = 0, offer_processed = 0,
     social_processed = 0, retargeting_processed = 0\<rparr>"

section \<open>Settings\<close>

record config =
  mongo_log_db :: string
  mongo_log_url :: string
  mongo_log_collection_impression :: string
  mongo_log_collection_block :: string
  server_ip :: string
  geocity_path :: string
  geocountry_path :: string
  server_socket_path :: string
  server_children :: int
  cookie_name :: string
  cookie_domain :: string
  cookie_path :: string
  instanceId :: int
  lock_file :: string
  pid_file :: string
  user_name :: string
  group_name :: string
  time_update :: int
  logCoreTime :: bool
  logOutPutSize :: bool
  logIP :: bool
  logCountry :: bool
  logRegion :: bool
  logCookie :: bool
  logContext :: bool
  logSearch :: bool
  logInformerId :: bool
  logLocation :: bool
  logMonitor :: bool
  mIsInited :: bool
  mFileName :: string
  cfgFilePath :: string

definition toLog :: "config \<Rightarrow> bool" where
  "toLog c \<longleftrightarrow> logCoreTime c \<or> logOutPutSize c \<or> logIP c \<or> logCountry c \<or> logRegion c \<or> logCookie c
     \<or> logContext c \<or> logSearch c \<or> logInformerId c \<or> logLocation c"

definition to_bool :: "string \<Rightarrow> bool" where
  "to_bool s \<longleftrightarrow> s \<noteq> ''false''"

definition to_int :: "string \<Rightarrow> int" where
  "to_int s = atoi s"

text \<open>\<open>Instance\<close>: the object is created at the first use.\<close>

definition Config_Instance :: "config \<Rightarrow> config option \<Rightarrow> config" where
  "Config_Instance garbage mInstance =
     (case mInstance of Some c \<Rightarrow> c | None \<Rightarrow> garbage\<lparr>mIsInited := False\<rparr>)"

section \<open>The XML library\<close>

record 'e xml_lib =
  FirstChildElement :: "'e \<Rightarrow> string \<Rightarrow> 'e option"
  GetText :: "'e \<Rightarrow> string option"
  Attribute :: "'e \<Rightarrow> string \<Rightarrow> string option"
  LoadFile :: "string \<Rightarrow> (string \<times> int \<times> int) + 'e"

text \<open>
  How \<open>Load\<close> ends without returning: \<open>exit (1)\<close> with a message, a null pointer read, or as the check of a
  path does.
\<close>

datatype load_end = Exit_1 string | Null_pointer | Path_ended path_stop

type_synonym 'a load = "load_end + 'a"

text \<open>\<open>if ((m = e->FirstChildElement (name)) && m->GetText ())\<close>\<close>

definition child_text :: "'e xml_lib \<Rightarrow> 'e \<Rightarrow> string \<Rightarrow> string option" where
  "child_text x e name = (case FirstChildElement x e name of None \<Rightarrow> None | Some c \<Rightarrow> GetText x c)"

definition set_text :: "'e xml_lib \<Rightarrow> 'e \<Rightarrow> string \<Rightarrow> (string \<Rightarrow> config \<Rightarrow> config) \<Rightarrow> config \<Rightarrow> config" where
  "set_text x e name assign c = (case child_text x e name of None \<Rightarrow> c | Some t \<Rightarrow> assign t c)"

section \<open>Load\<close>

definition load_mongo :: "'e xml_lib \<Rightarrow> 'e \<Rightarrow> config \<Rightarrow> config load" where
  "load_mongo x root c =
     (case FirstChildElement x root ''mongo'' of
        None \<Rightarrow> Inl (Exit_1 ''no mongo section in config file. exit'')
      | Some mels \<Rightarrow>
          (case FirstChildElement x mels ''log'' of
             None \<Rightarrow> Inl (Exit_1 ''no log section in mongo in config file. exit'')
           | Some mel \<Rightarrow> Inr
               (set_text x mel ''collection_block'' (\<lambda>t. mongo_log_collection_block_update (\<lambda>o'. t))
               (set_text x mel ''collection_impression'' (\<lambda>t. mongo_log_collection_impression_update (\<lambda>o'. t))
               (set_text x mel ''url'' (\<lambda>t. mongo_log_url_update (\<lambda>o'. t))
               (set_text x mel ''db'' (\<lambda>t. mongo_log_db_update (\<lambda>o'. t)) c))))))"

text \<open>A path setting whose check ends the process: the path that is checked is given apart.\<close>

definition load_path ::
  "os_lib \<Rightarrow> 'e xml_lib \<Rightarrow> 'e \<Rightarrow> string \<Rightarrow> bool \<Rightarrow> (string \<Rightarrow> config \<Rightarrow> config) \<Rightarrow> (config \<Rightarrow> string)
   \<Rightarrow> config \<times> fs \<Rightarrow> (config \<times> fs) load" where
  "load_path os x e name checkWrite assign checked st =
     (case child_text x e name of
        None \<Rightarrow> Inr st
      | Some t \<Rightarrow>
          (let c = assign t (fst st) in
           case checkPath os (checked c) checkWrite True (snd st) of
             Inl stop \<Rightarrow> Inl (Path_ended stop)
           | Inr (ok, f) \<Rightarrow> if ok then Inr (c, f) else Inl (Exit_1 [])))"

text \<open>The socket: where its directories can be prepared, an old socket file is unlinked.\<close>

definition load_socket :: "os_lib \<Rightarrow> 'e xml_lib \<Rightarrow> 'e \<Rightarrow> config \<times> fs \<Rightarrow> (config \<times> fs) load" where
  "load_socket os x e st =
     (case child_text x e ''socket_path'' of
        None \<Rightarrow> Inr st
      | Some t \<Rightarrow>
          (let c = (fst st)\<lparr>server_socket_path := t\<rparr> in
           case checkPath os t True True (snd st) of
             Inl stop \<Rightarrow> Inl (Path_ended stop)
           | Inr (ok, f) \<Rightarrow> Inr (c, if ok then f(t := None) else f)))"

definition load_cookie :: "'e xml_lib \<Rightarrow> 'e \<Rightarrow> config \<Rightarrow> config load" where
  "load_cookie x e c =
     (case FirstChildElement x e ''cookie'' of
        None \<Rightarrow> Inr c
      | Some mel \<Rightarrow>
          (case child_text x mel ''name'' of
             None \<Rightarrow> Inl (Exit_1 ''element cookie_name is not inited'')
           | Some n \<Rightarrow>
          (case child_text x mel ''domain'' of
             None \<Rightarrow> Inl (Exit_1 ''element cookie_domain is not inited'')
           | Some d \<Rightarrow>
          (case child_text x mel ''path'' of
             None \<Rightarrow> Inl (Exit_1 ''element cookie_path is not inited'')
           | Some p \<Rightarrow> Inr (c\<lparr>cookie_name := n, cookie_domain := d, cookie_path := p\<rparr>)))))"

definition load_time_update :: "os_lib \<Rightarrow> 'e xml_lib \<Rightarrow> 'e \<Rightarrow> config \<Rightarrow> config load" where
  "load_time_update os x e c =
     (case child_text x e ''time_update'' of
        None \<Rightarrow> Inr c
      | Some t \<Rightarrow>
          (let c = c\<lparr>time_update := getSeconds os t\<rparr> in
           if time_update c = - 1
           then Inl (Exit_1 ''Config::Load: no time match in config.xml element: time_update'')
           else Inr c))"

definition load_server :: "os_lib \<Rightarrow> 'e xml_lib \<Rightarrow> 'e \<Rightarrow> config \<times> fs \<Rightarrow> (config \<times> fs) load" where
  "load_server os x root st =
     (case FirstChildElement x root ''server'' of
        None \<Rightarrow> Inl (Exit_1 ''no server section in config file. exit'')
      | Some e \<Rightarrow>
          (let st = (set_text x e ''ip'' (\<lambda>t. server_ip_update (\<lambda>o'. t)) (fst st), snd st) in
           res_bind (load_path os x e ''geocity_path'' False (\<lambda>t. geocity_path_update (\<lambda>o'. t)) geocity_path st)
           (\<lambda>st. res_bind
             (load_path os x e ''geocountry_path'' False (\<lambda>t. geocountry_path_update (\<lambda>o'. t)) geocity_path st)
           (\<lambda>st. res_bind (load_socket os x e st)
           (\<lambda>st.
             let st = (set_text x e ''children'' (\<lambda>t. server_children_update (\<lambda>o'. atoi t)) (fst st), snd st) in
             res_bind (load_path os x e ''lock_file'' True (\<lambda>t. lock_file_update (\<lambda>o'. t)) lock_file st)
           (\<lambda>st. res_bind (load_path os x e ''pid_file'' True (\<lambda>t. pid_file_update (\<lambda>o'. t)) pid_file st)
           (\<lambda>st.
             let c = set_text x e ''group'' (\<lambda>t. group_name_update (\<lambda>o'. t))
                   (set_text x e ''user'' (\<lambda>t. user_name_update (\<lambda>o'. t)) (fst st)) in
             res_bind (load_time_update os x e c)
           (\<lambda>c. res_bind (load_cookie x e c)
           (\<lambda>c. Inr (c, snd st))))))))))"

text \<open>
  \<open>strncmp (text, "1", 1) >= 0\<close>: the first character, compared as an unsigned one with the digit 1;
  an empty text compares as the NUL character.
\<close>

definition log_flag :: "string \<Rightarrow> bool" where
  "log_flag t = (case cstr t of [] \<Rightarrow> False | c # cs \<Rightarrow> (of_char CHR ''1'' :: nat) \<le> of_char c)"

definition load_log :: "'e xml_lib \<Rightarrow> 'e \<Rightarrow> config \<Rightarrow> config" where
  "load_log x root c =
     (case FirstChildElement x root ''log'' of
        None \<Rightarrow> c\<lparr>logCoreTime := False, logOutPutSize := False, logIP := False, logLocation := False,
            logInformerId := False, logSearch := False, logContext := False, logCookie := False,
            logCountry := False, logRegion := False, logMonitor := False\<rparr>
      | Some e \<Rightarrow>
          set_text x e ''commands'' (\<lambda>t. logMonitor_update (\<lambda>o'. log_flag t))
         (set_text x e ''monitor'' (\<lambda>t. logMonitor_update (\<lambda>o'. log_flag t))
         (set_text x e ''location'' (\<lambda>t. logLocation_update (\<lambda>o'. log_flag t))
         (set_text x e ''informerId'' (\<lambda>t. logInformerId_update (\<lambda>o'. log_flag t))
         (set_text x e ''search'' (\<lambda>t. logSearch_update (\<lambda>o'. log_flag t))
         (set_text x e ''context'' (\<lambda>t. logContext_update (\<lambda>o'. log_flag t))
         (set_text x e ''cookie'' (\<lambda>t. logCookie_update (\<lambda>o'. log_flag t))
         (set_text x e ''region'' (\<lambda>t. logRegion_update (\<lambda>o'. log_flag t))
         (set_text x e ''country'' (\<lambda>t. logCountry_update (\<lambda>o'. log_flag t))
         (set_text x e ''ip'' (\<lambda>t. logIP_update (\<lambda>o'. log_flag t))
         (set_text x e ''outsize'' (\<lambda>t. logOutPutSize_update (\<lambda>o'. log_flag t))
         (set_text x e ''coretime'' (\<lambda>t. logCoreTime_update (\<lambda>o'. log_flag t)) c))))))))))))"

text \<open>
  \<open>Load\<close>: the result is what it returns, with the settings, the file system and the counters
  afterwards.
\<close>

definition Config_Load ::
  "os_lib \<Rightarrow> 'e xml_lib \<Rightarrow> config \<times> fs \<times> counters \<Rightarrow> (bool \<times> config \<times> fs \<times> counters) load" where
  "Config_Load os x st =
     (let c = (fst st)\<lparr>mIsInited := False\<rparr>; f = fst (snd st); n = snd (snd st);
          c = c\<lparr>cfgFilePath := getConfigDir os f (mFileName c)\<rparr> in
      if cfgFilePath c = [] then Inr (False, c, f, n)
      else case LoadFile x (mFileName c) of
        Inl (desc, row, col) \<Rightarrow>
          Inl (Exit_1 (''load file: '' @ mFileName c @ '' error: '' @ desc @ '' row: '' @ string_of_int row
                 @ '' col: '' @ string_of_int col))
      | Inr doc \<Rightarrow>
          (case FirstChildElement x doc ''root'' of
             None \<Rightarrow> Inl (Exit_1 (''does not found root section in file: '' @ mFileName c))
           | Some root \<Rightarrow>
               (case Attribute x root ''id'' of
                  None \<Rightarrow> Inl Null_pointer
                | Some i \<Rightarrow>
                    res_bind (load_mongo x root (c\<lparr>instanceId := atoi i\<rparr>)) (\<lambda>c.
                    res_bind (load_server os x root (c, f)) (\<lambda>(c, f).
                    Inr (True, (load_log x root c)\<lparr>mIsInited := True\<rparr>, f, zero_counters))))))"

definition LoadConfig ::
  "os_lib \<Rightarrow> 'e xml_lib \<Rightarrow> string \<Rightarrow> config \<times> fs \<times> counters \<Rightarrow> (bool \<times> config \<times> fs \<times> counters) load" where
  "LoadConfig os x fName st = Config_Load os x ((fst st)\<lparr>mFileName := fName\<rparr>, snd st)"

section \<open>Properties\<close>

text \<open>The value of a switch after its element was read.\<close>

definition switch :: "'e xml_lib \<Rightarrow> 'e \<Rightarrow> string \<Rightarrow> bool \<Rightarrow> bool" where
  "switch x e name old = (case child_text x e name of Some t \<Rightarrow> log_flag t | None \<Rightarrow> old)"

lemma set_text_switch:
  "set_text x e name (\<lambda>t. logCoreTime_update (\<lambda>o'. log_flag t)) c = c\<lparr>logCoreTime := switch x e name (logCoreTime c)\<rparr>"
  "set_text x e name (\<lambda>t. logOutPutSize_update (\<lambda>o'. log_flag t)) c = c\<lparr>logOutPutSize := switch x e name (logOutPutSize c)\<rparr>"
  "set_text x e name (\<lambda>t. logIP_update (\<lambda>o'. log_flag t)) c = c\<lparr>logIP := switch x e name (logIP c)\<rparr>"
  "set_text x e name (\<lambda>t. logCountry_update (\<lambda>o'. log_flag t)) c = c\<lparr>logCountry := switch x e name (logCountry c)\<rparr>"
  "set_text x e name (\<lambda>t. logRegion_update (\<lambda>o'. log_flag t)) c = c\<lparr>logRegion := switch x e name (logRegion c)\<rparr>"
  "set_text x e name (\<lambda>t. logCookie_update (\<lambda>o'. log_flag t)) c = c\<lparr>logCookie := switch x e name (logCookie c)\<rparr>"
  "set_text x e name (\<lambda>t. logContext_update (\<lambda>o'. log_flag t)) c = c\<lparr>logContext := switch x e name (logContext c)\<rparr>"
  "set_text x e name (\<lambda>t. logSearch_update (\<lambda>o'. log_flag t)) c = c\<lparr>logSearch := switch x e name (logSearch c)\<rparr>"
  "set_text x e name (\<lambda>t. logInformerId_update (\<lambda>o'. log_flag t)) c = c\<lparr>logInformerId := switch x e name (logInformerId c)\<rparr>"
  "set_text x e name (\<lambda>t. logLocation_update (\<lambda>o'. log_flag t)) c = c\<lparr>logLocation := switch x e name (logLocation c)\<rparr>"
  "set_text x e name (\<lambda>t. logMonitor_update (\<lambda>o'. log_flag t)) c = c\<lparr>logMonitor := switch x e name (logMonitor c)\<rparr>"
  by (simp_all add: set_text_def switch_def split: option.split)

lemma load_log_eq:
  "load_log x root c =
    (case FirstChildElement x root ''log'' of
       None \<Rightarrow> c\<lparr>logCoreTime := False, logOutPutSize := False, logIP := False, logCountry := False,
         logRegion := False, logCookie := False, logContext := False, logSearch := False,
         logInformerId := False, logLocation := False, logMonitor := False\<rparr>
     | Some e \<Rightarrow> c\<lparr>logCoreTime := switch x e ''coretime'' (logCoreTime c),
         logOutPutSize := switch x e ''outsize'' (logOutPutSize c), logIP := switch x e ''ip'' (logIP c),
         logCountry := switch x e ''country'' (logCountry c), logRegion := switch x e ''region'' (logRegion c),
         logCookie := switch x e ''cookie'' (logCookie c), logContext := switch x e ''context'' (logContext c),
         logSearch := switch x e ''search'' (logSearch c),
         logInformerId := switch x e ''informerId'' (logInformerId c),
         logLocation := switch x e ''location'' (logLocation c),
         logMonitor := switch x e ''commands'' (switch x e ''monitor'' (logMonitor c))\<rparr>)"
  by (cases "FirstChildElement x root ''log''") (simp_all add: load_log_def set_text_switch)

lemma load_path_cases:
  "load_path os x e name w assign checked st = Inr st' \<longleftrightarrow>
     (case child_text x e name of
        None \<Rightarrow> st' = st
      | Some t \<Rightarrow> \<exists>f. checkPath os (checked (assign t (fst st))) w True (snd st) = Inr (True, f)
          \<and> st' = (assign t (fst st), f))"
  by (auto simp: load_path_def Let_def split: option.splits prod.splits sum.splits if_splits)

text \<open>A small document and system for the concrete instances below.\<close>

definition bare_xml :: "string xml_lib" where
  "bare_xml = \<lparr>FirstChildElement = (\<lambda>e name.
       if name \<in> {''root'', ''mongo'', ''log'', ''server'', ''geocity_path''} then Some name else None),
     GetText = (\<lambda>e. if e = ''geocity_path'' then Some ''geo.dat'' else None),
     Attribute = (\<lambda>e name. Some ''7''), LoadFile = (\<lambda>name. Inr ''doc'')\<rparr>"

definition plain_os :: os_lib where
  "plain_os = one_file_os\<lparr>path_elements := (\<lambda>p. [p])\<rparr>"

definition blank_config :: config where
  "blank_config = \<lparr>mongo_log_db = [], mongo_log_url = [], mongo_log_collection_impression = [],
     mongo_log_collection_block = [], server_ip = [], geocity_path = [], geocountry_path = [],
     server_socket_path = [], server_children = 0, cookie_name = [], cookie_domain = [], cookie_path = [],
     instanceId = 0, lock_file = [], pid_file = [], user_name = [], group_name = [], time_update = 0,
     logCoreTime = False, logOutPutSize = False, logIP = False, logCountry = False, logRegion = False,
     logCookie = False, logContext = False, logSearch = False, logInformerId = False, logLocation = False,
     logMonitor = False, mIsInited = False, mFileName = ''config.xml'', cfgFilePath = []\<rparr>"

definition config_fs :: fs where
  "config_fs = (\<lambda>p. if p = ''config.xml''
     then Some \<lparr>ino_kind = Regular, st_uid = 0, st_gid = 0, st_mode = 0x1A4\<rparr> else None)"

text \<open>
  Property C39: a load that returns true has found every required part: the root element and its
  identifier, the log section of \<open>mongo\<close>, the server section with, if it has a cookie element, its
  name, domain and path, and, if it has a time of update, a text that \<open>getSeconds\<close> does not refuse and whose
  result is the setting; and it has reset all counters.
\<close>

theorem Config_Load_complete:
  assumes "Config_Load os x st = Inr (True, c, f, n)"
  shows "n = zero_counters \<and> mIsInited c \<and>
    (\<exists>doc root i mongo server. LoadFile x (mFileName (fst st)) = Inr doc
      \<and> FirstChildElement x doc ''root'' = Some root \<and> Attribute x root ''id'' = Some i
      \<and> FirstChildElement x root ''mongo'' = Some mongo \<and> FirstChildElement x mongo ''log'' \<noteq> None
      \<and> FirstChildElement x root ''server'' = Some server
      \<and> (\<forall>e. FirstChildElement x server ''cookie'' = Some e \<longrightarrow>
          child_text x e ''name'' = Some (cookie_name c) \<and> child_text x e ''domain'' = Some (cookie_domain c)
          \<and> child_text x e ''path'' = Some (cookie_path c))
      \<and> (\<forall>t. child_text x server ''time_update'' = Some t \<longrightarrow>
          time_update c = getSeconds os t \<and> getSeconds os t \<noteq> - 1))"
proof -
  from assms obtain doc root i c1 c2 st2 c3 where
    l: "LoadFile x (mFileName (fst st)) = Inr doc" "FirstChildElement x doc ''root'' = Some root"
      "Attribute x root ''id'' = Some i"
    and m: "load_mongo x root c1 = Inr c2"
    and s: "load_server os x root st2 = Inr (c3, f)"
    and c: "c = (load_log x root c3)\<lparr>mIsInited := True\<rparr>"
    and n: "n = zero_counters"
    by (auto simp: Config_Load_def Let_def res_simps split: if_splits sum.splits option.splits)
  from m obtain mongo where mongo: "FirstChildElement x root ''mongo'' = Some mongo"
    "FirstChildElement x mongo ''log'' \<noteq> None"
    by (auto simp: load_mongo_def split: option.splits)
  from s obtain server c4 c5 where server: "FirstChildElement x root ''server'' = Some server"
    and u: "load_time_update os x server c5 = Inr c4" and k: "load_cookie x server c4 = Inr c3"
    by (auto simp: load_server_def Let_def res_simps split: option.splits)
  have "time_update c = time_update c4"
    using k by (auto simp: c load_log_eq load_cookie_def split: option.splits)
  then have t: "\<forall>t. child_text x server ''time_update'' = Some t \<longrightarrow>
      time_update c = getSeconds os t \<and> getSeconds os t \<noteq> - 1"
    using u by (auto simp: load_time_update_def Let_def split: if_splits)
  have "cookie_name c = cookie_name c3" "cookie_domain c = cookie_domain c3" "cookie_path c = cookie_path c3"
    by (auto simp: c load_log_eq split: option.splits)
  then have "\<forall>e. FirstChildElement x server ''cookie'' = Some e \<longrightarrow>
      child_text x e ''name'' = Some (cookie_name c) \<and> child_text x e ''domain'' = Some (cookie_domain c)
      \<and> child_text x e ''path'' = Some (cookie_path c)"
    using k by (auto simp: load_cookie_def split: option.splits)
  then show ?thesis using l mongo server n t by (auto simp: c)
qed

theorem Config_Load_complete_witness:
  "\<exists>c f n. Config_Load plain_os bare_xml (blank_config, config_fs, zero_counters\<lparr>request_processed := 5\<rparr>)
      = Inr (True, c, f, n) \<and> n = zero_counters \<and> mIsInited c"
proof -
  obtain c f n where l:
    "Config_Load plain_os bare_xml (blank_config, config_fs, zero_counters\<lparr>request_processed := 5\<rparr>)
      = Inr (True, c, f, n)"
    by (simp add: Config_Load_def plain_os_def one_file_os_def bare_xml_def blank_config_def config_fs_def
        getConfigDir_def load_mongo_def load_server_def load_path_def load_socket_def load_cookie_def
        load_time_update_def child_text_def set_text_def checkPath_def probe_file_def Let_def)
  from Config_Load_complete [OF l] l show ?thesis by blast
qed

text \<open>
  The only way to return false is a configuration file that is not a regular file, and
  then the settings stay as they were (but marked as not loaded) and the counters go on.
\<close>

theorem Config_Load_false:
  "Config_Load os x st = Inr (False, c, f, n) \<longleftrightarrow>
    getConfigDir os (fst (snd st)) (mFileName (fst st)) = []
    \<and> c = (fst st)\<lparr>mIsInited := False, cfgFilePath := []\<rparr> \<and> f = fst (snd st) \<and> n = snd (snd st)"
  by (auto simp: Config_Load_def Let_def res_simps split: if_splits sum.splits option.splits)

text \<open>
  A switch of the log section is on exactly when its text starts with a character from
  \<open>1\<close> upwards, letters included: \<open>false\<close>, \<open>no\<close> and \<open>off\<close> switch it on, \<open>0\<close> and an empty text off.
\<close>

theorem log_flag_rule:
  "(log_flag t \<longleftrightarrow> cstr t \<noteq> [] \<and> 49 \<le> (of_char (hd (cstr t)) :: nat))
   \<and> log_flag ''false'' \<and> log_flag ''no'' \<and> log_flag ''off'' \<and> log_flag ''1'' \<and> \<not> log_flag ''0''
   \<and> \<not> log_flag []"
  by (simp add: log_flag_def cstr_def NUL_def split: list.splits)

text \<open>
  The element \<open>commands\<close> of the log section has no switch of its own: it overrides that
  of \<open>monitor\<close>. Every other switch is that of its own element, and without a log section all are off.
\<close>

theorem load_log_switches:
  "load_log x root c =
    (case FirstChildElement x root ''log'' of
       None \<Rightarrow> c\<lparr>logCoreTime := False, logOutPutSize := False, logIP := False, logCountry := False,
         logRegion := False, logCookie := False, logContext := False, logSearch := False,
         logInformerId := False, logLocation := False, logMonitor := False\<rparr>
     | Some e \<Rightarrow> c\<lparr>logCoreTime := switch x e ''coretime'' (logCoreTime c),
         logOutPutSize := switch x e ''outsize'' (logOutPutSize c), logIP := switch x e ''ip'' (logIP c),
         logCountry := switch x e ''country'' (logCountry c), logRegion := switch x e ''region'' (logRegion c),
         logCookie := switch x e ''cookie'' (logCookie c), logContext := switch x e ''context'' (logContext c),
         logSearch := switch x e ''search'' (logSearch c),
         logInformerId := switch x e ''informerId'' (logInformerId c),
         logLocation := switch x e ''location'' (logLocation c),
         logMonitor := switch x e ''commands'' (switch x e ''monitor'' (logMonitor c))\<rparr>)"
  by (rule load_log_eq)

text \<open>
  The database of countries is not checked: where the check of the city database has
  passed, the check that follows the element \<open>geocountry_path\<close> passes whatever that element names,
  since it looks at the path of the cities again.
\<close>

theorem geocountry_unchecked:
  assumes "child_text x e ''geocity_path'' = Some city"
    and "load_path os x e ''geocity_path'' False (\<lambda>t. geocity_path_update (\<lambda>o'. t)) geocity_path st = Inr st'"
  shows "load_path os x e ''geocountry_path'' False (\<lambda>t. geocountry_path_update (\<lambda>o'. t)) geocity_path st' =
    Inr (set_text x e ''geocountry_path'' (\<lambda>t. geocountry_path_update (\<lambda>o'. t)) (fst st'), snd st')"
proof -
  obtain f where f: "checkPath os city False True (snd st) = Inr (True, f)"
    "st' = (geocity_path_update (\<lambda>o'. city) (fst st), f)"
    using assms by (auto simp: load_path_cases)
  then have "f = snd st"
    by (auto simp: checkPath_def Let_def dest: check_elements_same split: if_splits sum.splits prod.splits)
  then show ?thesis using f
    by (auto simp: load_path_def set_text_def Let_def split: option.splits)
qed

theorem geocountry_unchecked_witness:
  "\<exists>st. load_path plain_os (bare_xml\<lparr>GetText := (\<lambda>e. Some ''missing.dat'')\<rparr>) ''server'' ''geocountry_path'' False
      (\<lambda>t. geocountry_path_update (\<lambda>o'. t)) geocity_path (blank_config\<lparr>geocity_path := ''missing.dat''\<rparr>, config_fs) = Inr st"
proof -
  let ?x = "bare_xml\<lparr>GetText := (\<lambda>e. Some ''missing.dat'')\<rparr>"
  have "child_text ?x ''server'' ''geocity_path'' = Some ''missing.dat''"
    by (simp add: child_text_def bare_xml_def)
  moreover from this have "load_path plain_os ?x ''server'' ''geocity_path'' False
      (\<lambda>t. geocity_path_update (\<lambda>o'. t)) geocity_path (blank_config, config_fs) =
      Inr (blank_config\<lparr>geocity_path := ''missing.dat''\<rparr>, config_fs)"
    by (simp add: load_path_def plain_os_def one_file_os_def checkPath_def probe_file_def Let_def)
  ultimately show ?thesis using geocountry_unchecked by fastforce
qed

end
