(* ===== verification/ConfigTime.thy ===== *)
theory ConfigTime
  imports Prelude
begin

text \<open>
  \<open>src/Config.cpp\<close>: \<open>Config::getTime\<close>, \<open>Config::getFileContents\<close> and \<open>Config::minifyhtml\<close>. The time is read by \<open>strptime\<close> with
  the format \<open>%H:%M:%S\<close> into a structure that is not initialised: the fields that \<open>strptime\<close> does not
  reach keep what the memory holds, which is an argument of the model.
\<close>

section \<open>Reading a time\<close>

record clock_tm =
  tm_hour :: nat
  tm_min :: nat
  tm_sec :: nat

text \<open>
  A number of at most two digits up to a bound: white space is skipped, the second digit is read if a
  number that starts with the first can be within the bound. The result has the rest of the text.
\<close>

definition read_number :: "nat \<Rightarrow> string \<Rightarrow> (nat \<times> string) option" where
  "read_number to p =
     (case dropWhile c_isspace p of
        [] \<Rightarrow> None
      | c # q \<Rightarrow>
          if \<not> c_isdigit c then None
          else
            let (v, q) = (case q of
                 d # r \<Rightarrow> if digit_val c * 10 \<le> to \<and> c_isdigit d then (digit_val c * 10 + digit_val d, r)
                          else (digit_val c, q)
               | [] \<Rightarrow> (digit_val c, q))
            in if to < v then None else Some (v, q))"

definition read_colon :: "string \<Rightarrow> string option" where
  "read_colon p = (case p of c # q \<Rightarrow> if c = CHR '':'' then Some q else None | [] \<Rightarrow> None)"

text \<open>\<open>strptime(p, "%H:%M:%S", &t)\<close>: the fields are stored one by one until one cannot be read.\<close>

definition strptime_hms :: "string \<Rightarrow> clock_tm \<Rightarrow> clock_tm" where
  "strptime_hms p t =
     (case read_number 23 p of
        None \<Rightarrow> t
      | Some (h, p) \<Rightarrow>
          let t = t\<lparr>tm_hour := h\<rparr> in
          (case read_colon p of
             None \<Rightarrow> t
           | Some p \<Rightarrow>
               (case read_number 59 p of
                  None \<Rightarrow> t
                | Some (m, p) \<Rightarrow>
                    let t = t\<lparr>tm_min := m\<rparr> in
                    (case read_colon p of
                       None \<Rightarrow> t
                     | Some p \<Rightarrow>
                         (case read_number 61 p of
                            None \<Rightarrow> t
                          | Some (s, p) \<Rightarrow> t\<lparr>tm_sec := s\<rparr>)))))"

definition Config_getTime :: "string \<Rightarrow> clock_tm \<Rightarrow> nat" where
  "Config_getTime p t0 =
     (let t = strptime_hms p t0; ret = tm_hour t * 3600; ret = ret + tm_min t * 60 in ret + tm_sec t)"

text \<open>The contents of a file; a file that cannot be opened is an empty text.\<close>

definition getFileContents :: "(string \<rightharpoonup> string) \<Rightarrow> string \<Rightarrow> string" where
  "getFileContents files fileName = (case files fileName of Some cnt \<Rightarrow> cnt | None \<Rightarrow> [])"

section \<open>Text of pages\<close>

text \<open>
  \<open>minifyhtml\<close> removes what matches two expressions, one after the other: white space other than a single
  blank that is not within a \<open>textarea\<close> or \<open>pre\<close>, and line ends. \<open>regex_replace\<close> (text, expression,
  replacement) is Boost's.
\<close>

definition nowhitespace :: string where
  "nowhitespace =
     ''(?ix)(?>[^'' @
     [CHR 0x5C] @ ''S ]'' @
     [CHR 0x5C] @ ''s*| '' @
     [CHR 0x5C] @ ''s{2,})(?=[^<]*+(?:<(?!/?(?:textarea|pre)'' @
     [CHR 0x5C] @ ''b)[^<]*+)*+(?:<(?>textarea|pre)'' @
     [CHR 0x5C] @ ''b| '' @
     [CHR 0x5C] @ ''z))''"

definition in_line :: string where
  "in_line = [CHR 0x0D] @ ''?'' @ [CHR 0x0A] @ ''|'' @ [CHR 0x0D] @ ''|'' @ [CHR 0x0A]"

definition minifyhtml :: "(string \<Rightarrow> string \<Rightarrow> string \<Rightarrow> string) \<Rightarrow> string \<Rightarrow> string" where
  "minifyhtml regex_replace s =
     (let s = regex_replace s nowhitespace []; s = regex_replace s in_line [] in s)"

section \<open>Properties\<close>

text \<open>Two digits of a number below 100, as they are printed with a leading zero.\<close>

definition two_digits :: "nat \<Rightarrow> string" where
  "two_digits n = [char_of (48 + n div 10), char_of (48 + n mod 10)]"

lemma time_digit:
  assumes "d < 10"
  shows "c_isdigit (char_of (48 + d))" "digit_val (char_of (48 + d)) = d" "\<not> c_isspace (char_of (48 + d))"
proof -
  have "take_bit 8 (48 + d) = 48 + d" using assms by (intro take_bit_nat_eq_self) simp
  then show "c_isdigit (char_of (48 + d))" "digit_val (char_of (48 + d)) = d" "\<not> c_isspace (char_of (48 + d))"
    using assms by (auto simp: c_isdigit_def in_range_def digit_val_def c_isspace_def char_of_eq_iff)
qed

lemma read_two_digits:
  assumes "n \<le> to" "to < 100"
  shows "read_number to (two_digits n @ r) = Some (n, r)"
proof -
  have "n div 10 < 10" "n mod 10 < 10" "n div 10 * 10 \<le> to" using assms by auto
  then show ?thesis
    using assms(1) by (simp add: read_number_def two_digits_def time_digit Let_def)
qed

text \<open>
  A time with two digits per part is read as its seconds, whatever the memory held and whatever
  follows.
\<close>

theorem getTime_reads:
  assumes "h \<le> 23" "m \<le> 59" "s \<le> 61"
  shows "Config_getTime (two_digits h @ CHR '':'' # two_digits m @ CHR '':'' # two_digits s @ rest) t0
    = h * 3600 + m * 60 + s"
  using assms by (simp add: Config_getTime_def strptime_hms_def read_two_digits read_colon_def Let_def)

theorem getTime_reads_witness:
  "Config_getTime ''01:02:03'' \<lparr>tm_hour = 7, tm_min = 7, tm_sec = 7\<rparr> = 3723"
proof -
  have "two_digits 1 @ CHR '':'' # two_digits 2 @ CHR '':'' # two_digits 3 @ [] = ''01:02:03''"
    by (simp add: two_digits_def char_of_def bit_0)
  then show ?thesis
    using getTime_reads [of 1 2 3 "[]" "\<lparr>tm_hour = 7, tm_min = 7, tm_sec = 7\<rparr>"] by simp
qed

text \<open>A text that is no time, or ends before its seconds, gives what the memory held.\<close>

theorem getTime_indeterminate:
  "Config_getTime [] t0 = tm_hour t0 * 3600 + tm_min t0 * 60 + tm_sec t0"
  "Config_getTime ''12:30'' t0 = 12 * 3600 + 30 * 60 + tm_sec t0"
  by (simp_all add: Config_getTime_def strptime_hms_def read_number_def read_colon_def Let_def c_isspace_def
      c_isdigit_def in_range_def digit_val_def)

text \<open>
  If the second expression removes the line ends and the first one does not add characters, what is left
  is one line of characters of the page.
\<close>

theorem minified_one_line:
  assumes "\<And>s. regex_replace s in_line [] = filter (\<lambda>c. c \<noteq> CHR 0x0D \<and> c \<noteq> CHR 0x0A) s"
    and "\<And>s. set (regex_replace s nowhitespace []) \<subseteq> set s"
  shows "set (minifyhtml regex_replace s) \<subseteq> set s - {CHR 0x0D, CHR 0x0A}"
  using assms(2) [of s] by (auto simp: minifyhtml_def assms(1))

theorem minified_one_line_witness:
  "set (minifyhtml (\<lambda>s pat r. if pat = in_line then filter (\<lambda>c. c \<noteq> CHR 0x0D \<and> c \<noteq> CHR 0x0A) s
       else filter (\<lambda>c. c \<noteq> CHR 0x09) s) [CHR ''a'', CHR 0x0A, CHR 0x09, CHR ''b'']) \<subseteq> {CHR ''a'', CHR 0x09, CHR ''b''}"
  by (rule subset_trans [OF minified_one_line]) (auto simp: nowhitespace_def in_line_def)

end
