(* ===== verification/Core.thy ===== *)
theory Core
  imports Params Config JsonDump
begin

text \<open>
  \<open>src/Core.cpp\<close>: the answer of a request (\<open>Process\<close>) and the recording of its impressions
  (\<open>ProcessSaveResults\<close>): one BSON document for each offer, all inserted at once, and the global
  counters. The insertion into the MongoDB collection and the clock are parameters. The operands of
  the document stream are evaluated from left to right.
\<close>

section \<open>Documents\<close>

datatype bson =
    B_string string
  | B_int64 u64
  | B_bool bool
  | B_date int
  | B_document "(string \<times> bson) list"

type_synonym document = "(string \<times> bson) list"

text \<open>
  The collection is the list of its documents. \<open>insert_many\<close> gives the collection afterwards, and the
  exception if it throws, when it may have stored a part of the documents. \<open>now_ms\<close> is the system clock
  in milliseconds, the other two are Boost's local and universal time in seconds.
\<close>

type_synonym insert_many = "document list \<Rightarrow> document list \<Rightarrow> document list \<times> exn option"

record clock =
  local_seconds :: int
  universal_seconds :: int
  now_ms :: int

text \<open>\<open>time_duration::hours\<close> truncates toward zero.\<close>

definition duration_hours :: "int \<Rightarrow> int" where
  "duration_hours d = (if 0 \<le> d then d div 3600 else - ((- d) div 3600))"

definition local_date :: "clock \<Rightarrow> int" where
  "local_date t = now_ms t + 3600000 * duration_hours (local_seconds t - universal_seconds t)"

section \<open>The core object\<close>

record 'd core =
  retJson :: "'d json"

definition Core_new :: "'d core" where
  "Core_new = \<lparr>retJson = JNull\<rparr>"

definition core_Process :: "'d dbl_lib \<Rightarrow> 'd core \<Rightarrow> (string \<times> 'd core) res" where
  "core_Process fl core =
     res_bind (json_put (retJson core) ''status'' (JString ''OK''))
       (\<lambda>j. Inr (json_dump fl (- 1) j, core\<lparr>retJson := j\<rparr>))"

section \<open>Recording the impressions\<close>

text \<open>\<open>it[key].get<T>()\<close>: the value and the container, which may have got a new null member.\<close>

definition read_member :: "('d json \<Rightarrow> 'a res) \<Rightarrow> string \<Rightarrow> 'd json \<Rightarrow> ('a \<times> 'd json) res" where
  "read_member get key it =
     res_bind (json_index it key) (\<lambda>(it', v). res_bind (get v) (\<lambda>x. Inr (x, it')))"

text \<open>What the documents of one request share.\<close>

record request_data =
  rd_dt :: int
  rd_inf :: string
  rd_inf_int :: u64
  rd_ip :: string
  rd_cookie :: string
  rd_country :: string
  rd_region :: string
  rd_request :: string
  rd_test :: bool

definition request_data_of :: "'d dbl_lib \<Rightarrow> clock \<Rightarrow> 'd params \<Rightarrow> request_data res" where
  "request_data_of fl t p =
     res_bind (read_member get_string ''informer_id'' (p_params p)) (\<lambda>(inf, j).
     res_bind (read_member (get_long_long fl) ''informer_id_int'' j) (\<lambda>(inf_int, j).
     res_bind (read_member get_string ''ip'' j) (\<lambda>(ip, j).
     res_bind (read_member get_string ''cookie'' j) (\<lambda>(cookie, j).
     res_bind (read_member get_string ''country'' j) (\<lambda>(country, j).
     res_bind (read_member get_string ''region'' j) (\<lambda>(region, j).
     res_bind (read_member get_string ''request'' j) (\<lambda>(request, j).
     Inr \<lparr>rd_dt = local_date t, rd_inf = inf, rd_inf_int = inf_int, rd_ip = ip, rd_cookie = cookie,
          rd_country = country, rd_region = region, rd_request = request,
          rd_test = isTestMode p\<rparr>)))))))"

text \<open>The document of one offer, and the offer after its members were read.\<close>

definition offer_document :: "'d dbl_lib \<Rightarrow> request_data \<Rightarrow> 'd json \<Rightarrow> (document \<times> 'd json) res" where
  "offer_document fl rd it =
     res_bind (read_member get_string ''guid'' it) (\<lambda>(guid, it).
     res_bind (read_member (get_long fl) ''id'' it) (\<lambda>(id_int, it).
     res_bind (read_member get_string ''title'' it) (\<lambda>(title, it).
     res_bind (read_member get_bool ''campaign_social'' it) (\<lambda>(social, it).
     res_bind (read_member get_string ''token'' it) (\<lambda>(token, it).
     res_bind (read_member get_string ''campaign_guid'' it) (\<lambda>(campaign_guid, it).
     res_bind (read_member get_string ''campaign_account'' it) (\<lambda>(account, it).
     res_bind (read_member (get_long fl) ''campaign_id'' it) (\<lambda>(campaign_id, it).
     res_bind (read_member get_string ''campaign_title'' it) (\<lambda>(campaign_title, it).
     res_bind (read_member get_string ''campaign_project'' it) (\<lambda>(project, it).
     res_bind (read_member get_string ''retargeting'' it) (\<lambda>(retargeting, it).
     res_bind (read_member get_string ''branch'' it) (\<lambda>(branch, it).
     Inr ([(''dt'', B_date (rd_dt rd)),
           (''id'', B_string guid),
           (''id_int'', B_int64 id_int),
           (''title'', B_string title),
           (''inf'', B_string (rd_inf rd)),
           (''inf_int'', B_int64 (rd_inf_int rd)),
           (''ip'', B_string (rd_ip rd)),
           (''cookie'', B_string (rd_cookie rd)),
           (''social'', B_bool social),
           (''token'', B_string token),
           (''type'', B_string ''teaser''),
           (''isOnClick'', B_bool True),
           (''campaignId'', B_string campaign_guid),
           (''account_id'', B_string account),
           (''campaignId_int'', B_int64 campaign_id),
           (''campaignTitle'', B_string campaign_title),
           (''project'', B_string project),
           (''country'', B_string (rd_country rd)),
           (''region'', B_string (rd_region rd)),
           (''retargeting'', B_string retargeting),
           (''keywords'', B_document [(''search'', B_string []), (''context'', B_string [])]),
           (''branch'', B_string branch),
           (''conformity'', B_string ''place''),
           (''matching'', B_string []),
           (''test'', B_bool (rd_test rd)),
           (''request'', B_string (rd_request rd))], it)))))))))))))"

text \<open>The counting after a document: the tests convert the members to \<open>bool\<close>, which may throw.\<close>

definition count_offer :: "'d json \<Rightarrow> counters \<Rightarrow> counters \<times> exn option" where
  "count_offer it n =
     (case read_member get_bool ''retargeting'' it of
        Inl e \<Rightarrow> (n, Some e)
      | Inr (retargeting, it) \<Rightarrow>
          (let n = (if \<not> retargeting then n\<lparr>offer_processed := offer_processed n + 1\<rparr>
                    else n\<lparr>retargeting_processed := retargeting_processed n + 1\<rparr>) in
           case read_member get_bool ''campaign_social'' it of
             Inl e \<Rightarrow> (n, Some e)
           | Inr (social, it) \<Rightarrow>
               ((if social then n\<lparr>social_processed := social_processed n + 1\<rparr> else n), None)))"

fun process_offers ::
  "'d dbl_lib \<Rightarrow> request_data \<Rightarrow> 'd json list \<Rightarrow> counters \<Rightarrow> document list \<Rightarrow> counters \<times> (document list) res" where
  "process_offers fl rd [] n documents = (n, Inr documents)"
| "process_offers fl rd (it # its) n documents =
     (case offer_document fl rd it of
        Inl e \<Rightarrow> (n, Inl e)
      | Inr (doc_value, it) \<Rightarrow>
          (case count_offer it n of
             (n, Some e) \<Rightarrow> (n, Inl e)
           | (n, None) \<Rightarrow> process_offers fl rd its n (documents @ [doc_value])))"

text \<open>
  \<open>ProcessSaveResults\<close>: the counters and the collection afterwards, and the exception if there was
  one. \<open>client_ok\<close> is the validity of the database client.
\<close>

definition ProcessSaveResults ::
  "'d dbl_lib \<Rightarrow> insert_many \<Rightarrow> bool \<Rightarrow> clock \<Rightarrow> 'd params \<Rightarrow> counters \<Rightarrow> document list
   \<Rightarrow> counters \<times> document list \<times> exn option" where
  "ProcessSaveResults fl ins client_ok t p n coll =
     (let n = n\<lparr>request_processed := request_processed n + 1\<rparr> in
      case request_data_of fl t p of
        Inl e \<Rightarrow> (n, coll, Some e)
      | Inr rd \<Rightarrow>
          (case process_offers fl rd (json_range (p_offers p)) n [] of
             (n, Inl e) \<Rightarrow> (n, coll, Some e)
           | (n, Inr documents) \<Rightarrow>
               (if client_ok then (n, ins coll documents) else (n, coll, None))))"

section \<open>The answer\<close>

definition core_inv :: "'d core \<Rightarrow> bool" where
  "core_inv c \<longleftrightarrow> retJson c = JNull \<or> retJson c = JObject [(''status'', JString ''OK'')]"

definition core_step :: "'d core \<Rightarrow> 'd core \<Rightarrow> bool" where
  "core_step c c' \<longleftrightarrow> (\<exists>fl s. core_Process fl c = Inr (s, c'))"

definition ok_answer :: string where
  "ok_answer = [CHR ''{'', CHR 0x22] @ ''status'' @ [CHR 0x22, CHR '':'', CHR 0x22] @ ''OK'' @ [CHR 0x22, CHR ''}'']"

lemma core_Process_inv:
  "core_inv c \<Longrightarrow> core_Process fl c = Inr (ok_answer, c\<lparr>retJson := JObject [(''status'', JString ''OK'')]\<rparr>)"
  by (auto simp: core_inv_def core_Process_def json_put_cases json_dump_def ok_answer_def
      escape_string_eq esc_char_def in_range_def)

interpretation core_system: invariant_system "\<lambda>c. c = Core_new" core_step core_inv
proof
  show "core_inv t" if "core_inv s" "core_step s t" for s t :: "'d core"
  proof -
    have "\<exists>fl s'. core_Process fl s = Inr (s', t)" using that(2) by (simp add: core_step_def)
    then show ?thesis using core_Process_inv [OF that(1)] by (auto simp: core_inv_def)
  qed
qed (simp add: core_inv_def Core_new_def)

text \<open>
  However many requests a core has answered, the next answer is the text
  \<open>{"status":"OK"}\<close>: the document it keeps from one request to the next does not grow and its
  assignment never fails.
\<close>

theorem core_Process_answers:
  assumes "core_step\<^sup>*\<^sup>* Core_new c"
  shows "\<exists>c'. core_Process fl c = Inr (ok_answer, c')"
  using core_Process_inv [OF core_system.inv_reachable [OF refl assms]] by blast

theorem core_Process_answers_witness:
  "\<exists>c'. core_Process int_dbl (Core_new :: int core) = Inr (ok_answer, c')"
  using core_Process_answers [of Core_new int_dbl] by blast

section \<open>The recording\<close>

text \<open>The member that a reader gets: null where there is none.\<close>

definition field :: "'d json \<Rightarrow> string \<Rightarrow> 'd json" where
  "field j key = (case member j key of None \<Rightarrow> JNull | Some v \<Rightarrow> v)"

definition keyed :: "'d json \<Rightarrow> bool" where
  "keyed j \<longleftrightarrow> is_null j \<or> is_object j"

text \<open>A container with the same members (up to added null ones).\<close>

definition same_fields :: "'d json \<Rightarrow> 'd json \<Rightarrow> bool" where
  "same_fields j j' \<longleftrightarrow> field j' = field j \<and> keyed j'"

lemma same_fields_refl: "keyed j \<Longrightarrow> same_fields j j"
  by (simp add: same_fields_def)

lemma json_index_keyed:
  "keyed j \<Longrightarrow> \<exists>j'. json_index j key = Inr (j', field j key) \<and> same_fields j j'"
  by (cases j)
    (auto simp: json_index_cases field_def member_def keyed_def is_object_def is_null_def same_fields_def
      fun_eq_iff split: option.splits if_splits)

text \<open>
  What an operation on a container does, compared with a function of its members alone: the same
  exception or the same value, and a container that still has the same members.
\<close>

definition sim :: "'d json \<Rightarrow> ('a \<times> 'd json) res \<Rightarrow> 'a res \<Rightarrow> bool" where
  "sim j m m' \<longleftrightarrow>
     (case m' of Inl e \<Rightarrow> m = Inl e | Inr x \<Rightarrow> \<exists>j'. m = Inr (x, j') \<and> same_fields j j')"

lemma sim_return: "same_fields j0 j \<Longrightarrow> sim j0 (Inr (x, j)) (Inr x)"
  by (simp add: sim_def)

lemma sim_bind:
  assumes "same_fields j0 j" "\<And>x j'. same_fields j0 j' \<Longrightarrow> sim j0 (f (x, j')) (g x)"
  shows "sim j0 (res_bind (read_member get key j) f) (res_bind (get (field j0 key)) g)"
proof -
  obtain j' where j': "json_index j key = Inr (j', field j0 key)" "same_fields j0 j'"
    using json_index_keyed [of j key] assms(1) by (auto simp: same_fields_def)
  then show ?thesis
    using assms(2) [OF j'(2)] by (cases "get (field j0 key)") (auto simp: read_member_def sim_def)
qed

lemma sim_read: "keyed j \<Longrightarrow> sim j (read_member get key j) (get (field j key))"
  using json_index_keyed [of j key] by (cases "get (field j key)") (auto simp: sim_def read_member_def)

lemma not_keyed_fails: "\<not> keyed j \<Longrightarrow> \<exists>e. read_member get key j = Inl e"
proof -
  assume "\<not> keyed j"
  then obtain e where "json_index j key = Inl e" using json_index_fails [of j key] by (auto simp: keyed_def)
  then show ?thesis by (simp add: read_member_def)
qed

text \<open>The document of an offer as a function of its members.\<close>

definition document_of :: "'d dbl_lib \<Rightarrow> request_data \<Rightarrow> (string \<Rightarrow> 'd json) \<Rightarrow> document res" where
  "document_of fl rd F =
     res_bind (get_string (F ''guid'')) (\<lambda>guid.
     res_bind (get_long fl (F ''id'')) (\<lambda>id_int.
     res_bind (get_string (F ''title'')) (\<lambda>title.
     res_bind (get_bool (F ''campaign_social'')) (\<lambda>social.
     res_bind (get_string (F ''token'')) (\<lambda>token.
     res_bind (get_string (F ''campaign_guid'')) (\<lambda>campaign_guid.
     res_bind (get_string (F ''campaign_account'')) (\<lambda>account.
     res_bind (get_long fl (F ''campaign_id'')) (\<lambda>campaign_id.
     res_bind (get_string (F ''campaign_title'')) (\<lambda>campaign_title.
     res_bind (get_string (F ''campaign_project'')) (\<lambda>project.
     res_bind (get_string (F ''retargeting'')) (\<lambda>retargeting.
     res_bind (get_string (F ''branch'')) (\<lambda>branch.
     Inr [(''dt'', B_date (rd_dt rd)), (''id'', B_string guid), (''id_int'', B_int64 id_int),
          (''title'', B_string title), (''inf'', B_string (rd_inf rd)), (''inf_int'', B_int64 (rd_inf_int rd)),
          (''ip'', B_string (rd_ip rd)), (''cookie'', B_string (rd_cookie rd)), (''social'', B_bool social),
          (''token'', B_string token), (''type'', B_string ''teaser''), (''isOnClick'', B_bool True),
          (''campaignId'', B_string campaign_guid), (''account_id'', B_string account),
          (''campaignId_int'', B_int64 campaign_id), (''campaignTitle'', B_string campaign_title),
          (''project'', B_string project), (''country'', B_string (rd_country rd)),
          (''region'', B_string (rd_region rd)), (''retargeting'', B_string retargeting),
          (''keywords'', B_document [(''search'', B_string []), (''context'', B_string [])]),
          (''branch'', B_string branch), (''conformity'', B_string ''place''), (''matching'', B_string []),
          (''test'', B_bool (rd_test rd)), (''request'', B_string (rd_request rd))]))))))))))))"

lemma offer_document_sim: "keyed it \<Longrightarrow> sim it (offer_document fl rd it) (document_of fl rd (field it))"
  unfolding offer_document_def document_of_def
  by (intro sim_bind same_fields_refl; (simp only: prod.case)?; (intro sim_bind; (simp only: prod.case)?; assumption?)+)
    (rule sim_return, assumption)

text \<open>An offer that can be recorded.\<close>

definition readable_string :: "'d json \<Rightarrow> bool" where
  "readable_string j \<longleftrightarrow> is_string j \<or> is_null j \<or> is_boolean j"

definition readable_long :: "'d json \<Rightarrow> bool" where
  "readable_long j \<longleftrightarrow> is_number j \<or> is_null j"

definition recordable :: "'d json \<Rightarrow> bool" where
  "recordable it \<longleftrightarrow> keyed it
     \<and> list_all (\<lambda>k. readable_string (field it k))
         [''guid'', ''title'', ''token'', ''campaign_guid'', ''campaign_account'', ''campaign_title'',
          ''campaign_project'', ''branch'']
     \<and> list_all (\<lambda>k. readable_long (field it k)) [''id'', ''campaign_id'']
     \<and> is_boolean (field it ''campaign_social'') \<and> is_boolean (field it ''retargeting'')"

lemma get_string_Inr: "(\<exists>s. get_string j = Inr s) \<longleftrightarrow> readable_string j"
  by (cases j) (simp_all add: get_string_def readable_string_def is_string_def is_null_def is_boolean_def)

lemma get_long_Inr: "(\<exists>i. get_long fl j = Inr i) \<longleftrightarrow> readable_long j"
  by (cases j) (simp_all add: get_long_def readable_long_def is_number_def is_number_integer_def
      is_number_float_def is_null_def)

lemma get_bool_Inr: "(\<exists>b. get_bool j = Inr b) \<longleftrightarrow> is_boolean j"
  by (cases j) (simp_all add: get_bool_def is_boolean_def)

lemma boolean_readable: "is_boolean j \<Longrightarrow> readable_string j"
  by (simp add: readable_string_def)

lemma document_of_Inr:
  "(\<exists>d. document_of fl rd F = Inr d) \<longleftrightarrow>
    list_all (\<lambda>k. readable_string (F k))
      [''guid'', ''title'', ''token'', ''campaign_guid'', ''campaign_account'', ''campaign_title'',
       ''campaign_project'', ''retargeting'', ''branch'']
    \<and> list_all (\<lambda>k. readable_long (F k)) [''id'', ''campaign_id''] \<and> is_boolean (F ''campaign_social'')"
  by (auto simp: document_of_def res_simps simp flip: get_string_Inr get_long_Inr [of fl] get_bool_Inr)

definition is_true :: "'d json \<Rightarrow> bool" where
  "is_true j \<longleftrightarrow> get_bool j = Inr True"

text \<open>The counting of one offer, from its members.\<close>

definition count_fields :: "(string \<Rightarrow> 'd json) \<Rightarrow> counters \<Rightarrow> counters" where
  "count_fields F n =
     n\<lparr>offer_processed := offer_processed n + (if is_true (F ''retargeting'') then 0 else 1),
       retargeting_processed := retargeting_processed n + (if is_true (F ''retargeting'') then 1 else 0),
       social_processed := social_processed n + (if is_true (F ''campaign_social'') then 1 else 0)\<rparr>"

lemma count_offer_ok:
  assumes "keyed it" "is_boolean (field it ''retargeting'')" "is_boolean (field it ''campaign_social'')"
  shows "count_offer it n = (count_fields (field it) n, None)"
proof -
  obtain r s where rs: "get_bool (field it ''retargeting'') = Inr r"
    "get_bool (field it ''campaign_social'') = Inr s"
    using assms(2,3) get_bool_Inr by meson
  obtain it' where it': "read_member get_bool ''retargeting'' it = Inr (r, it')" "same_fields it it'"
    using sim_read [OF assms(1), of get_bool "''retargeting''"] rs by (auto simp: sim_def)
  then obtain it2 where "read_member get_bool ''campaign_social'' it' = Inr (s, it2)"
    using sim_read [of it' get_bool "''campaign_social''"] rs by (auto simp: sim_def same_fields_def)
  with it' rs show ?thesis
    by (simp add: count_offer_def count_fields_def is_true_def Let_def)
qed

lemma count_offer_fails:
  assumes "keyed it" "\<not> is_boolean (field it ''retargeting'')"
  shows "\<exists>e. count_offer it n = (n, Some e)"
proof -
  obtain e where "get_bool (field it ''retargeting'') = Inl e"
    using assms(2) get_bool_Inr [of "field it ''retargeting''"]
    by (cases "get_bool (field it ''retargeting'')") auto
  then show ?thesis
    using sim_read [OF assms(1), of get_bool "''retargeting''"] by (auto simp: sim_def count_offer_def)
qed

text \<open>One turn of the loop.\<close>

lemma offer_turn:
  assumes "recordable it"
  shows "\<exists>it'. offer_document fl rd it = Inr (projr (document_of fl rd (field it)), it')
    \<and> count_offer it' n = (count_fields (field it) n, None)"
proof -
  have k: "keyed it" using assms by (simp add: recordable_def)
  obtain d where d: "document_of fl rd (field it) = Inr d"
    using assms document_of_Inr [of fl rd "field it"] boolean_readable by (auto simp: recordable_def)
  then obtain it' where "offer_document fl rd it = Inr (d, it')" "same_fields it it'"
    using offer_document_sim [OF k, of fl rd] by (auto simp: sim_def)
  moreover from this have "count_offer it' n = (count_fields (field it) n, None)"
    using count_offer_ok [of it' n] assms by (simp add: same_fields_def recordable_def)
  ultimately show ?thesis using d by auto
qed

lemma process_offers_ok:
  "\<forall>it\<in>set its. recordable it \<Longrightarrow>
    process_offers fl rd its n docs =
      (fold (\<lambda>it. count_fields (field it)) its n,
       Inr (docs @ map (\<lambda>it. projr (document_of fl rd (field it))) its))"
proof (induction its arbitrary: n docs)
  case (Cons it its)
  then obtain it' where "offer_document fl rd it = Inr (projr (document_of fl rd (field it)), it')"
    "count_offer it' n = (count_fields (field it) n, None)"
    using offer_turn [of it fl rd n] by auto
  with Cons show ?case by simp
qed simp

lemma bad_offer_turn:
  assumes "\<not> recordable it"
  shows "(\<exists>e. offer_document fl rd it = Inl e)
    \<or> (\<exists>d it' n' e. offer_document fl rd it = Inr (d, it') \<and> count_offer it' n = (n', Some e))"
proof (cases "keyed it")
  case False
  then show ?thesis using not_keyed_fails [of it get_string "''guid''"] by (auto simp: offer_document_def)
next
  case k: True
  show ?thesis
  proof (cases "document_of fl rd (field it)")
    case (Inl e)
    then show ?thesis using offer_document_sim [OF k, of fl rd] by (simp add: sim_def)
  next
    case (Inr d)
    then obtain it' where it': "offer_document fl rd it = Inr (d, it')" "same_fields it it'"
      using offer_document_sim [OF k, of fl rd] by (auto simp: sim_def)
    have "\<not> is_boolean (field it ''retargeting'')"
      using assms k Inr document_of_Inr [of fl rd "field it"] by (auto simp: recordable_def)
    then show ?thesis using count_offer_fails [of it' n] it' by (fastforce simp: same_fields_def)
  qed
qed

lemma process_offers_bad:
  "\<exists>it\<in>set its. \<not> recordable it \<Longrightarrow> \<exists>n' e. process_offers fl rd its n docs = (n', Inl e)"
proof (induction its arbitrary: n docs)
  case (Cons it its)
  show ?case
  proof (cases "recordable it")
    case True
    then obtain it' where "offer_document fl rd it = Inr (projr (document_of fl rd (field it)), it')"
      "count_offer it' n = (count_fields (field it) n, None)"
      using offer_turn [of it fl rd n] by auto
    with Cons True show ?thesis by auto
  next
    case False
    then show ?thesis using bad_offer_turn [OF False, of fl rd n] by auto
  qed
qed simp

text \<open>
  Property C12: the document of an offer is a function of the offer's members alone: reading a
  missing member through \<open>operator[]\<close> adds it as null to the offer, but no later member, counter or
  error depends on that.
\<close>

theorem offer_document_pure:
  assumes "is_null it \<or> is_object it"
  shows "(case document_of fl rd (field it) of
      Inl e \<Rightarrow> offer_document fl rd it = Inl e
    | Inr d \<Rightarrow> \<exists>it'. offer_document fl rd it = Inr (d, it') \<and> field it' = field it \<and> is_object it')"
proof -
  have k: "keyed it" using assms by (simp add: keyed_def)
  have obj: "is_object it'" if r: "offer_document fl rd it = Inr (d, it')" for d it'
  proof -
    obtain j x where "read_member get_string ''branch'' j = Inr (x, it')"
      using r unfolding offer_document_def by (auto simp: res_simps)
    then obtain v where "json_index j ''branch'' = Inr (it', v)" by (auto simp: read_member_def res_simps)
    then show ?thesis using json_index_member by blast
  qed
  show ?thesis using offer_document_sim [OF k, of fl rd] obj
    by (auto simp: sim_def same_fields_def split: sum.splits)
qed

definition plain_request :: request_data where
  "plain_request = \<lparr>rd_dt = 0, rd_inf = [], rd_inf_int = 0, rd_ip = [], rd_cookie = [], rd_country = [],
     rd_region = [], rd_request = [], rd_test = False\<rparr>"

theorem offer_document_pure_witness:
  "offer_document int_dbl plain_request JNull
     = Inl (Domain_error ''type must be boolean, but is null'')"
  using offer_document_pure [of JNull int_dbl plain_request]
  by (simp add: is_null_def document_of_def field_def member_def get_string_def is_string_def get_long_def
      get_bool_def)

lemma fold_count_fields:
  "fold (\<lambda>it. count_fields (field it)) its n =
    n\<lparr>offer_processed := offer_processed n + word_of_nat (length (filter (\<lambda>it. \<not> is_true (field it ''retargeting'')) its)),
      retargeting_processed := retargeting_processed n + word_of_nat (length (filter (\<lambda>it. is_true (field it ''retargeting'')) its)),
      social_processed := social_processed n + word_of_nat (length (filter (\<lambda>it. is_true (field it ''campaign_social'')) its))\<rparr>"
  by (induction its arbitrary: n) (simp_all add: count_fields_def)

text \<open>
  Property C8: when every offer can be recorded, exactly one document for each offer, in their order, is
  handed to the one insertion, whose outcome (the collection and an exception) is that of the call; and the
  counters advance by the request, the offers and the retargeting ones among them, and the social ones.
\<close>

theorem save_results_records_all:
  assumes "request_data_of fl t p = Inr rd"
    and "json_range (p_offers p) = its" "\<forall>it\<in>set its. recordable it"
  shows "ProcessSaveResults fl ins True t p n coll =
    (n\<lparr>request_processed := request_processed n + 1,
       offer_processed := offer_processed n + word_of_nat (length (filter (\<lambda>it. \<not> is_true (field it ''retargeting'')) its)),
       retargeting_processed := retargeting_processed n + word_of_nat (length (filter (\<lambda>it. is_true (field it ''retargeting'')) its)),
       social_processed := social_processed n + word_of_nat (length (filter (\<lambda>it. is_true (field it ''campaign_social'')) its))\<rparr>,
     ins coll (map (\<lambda>it. projr (document_of fl rd (field it))) its))"
  using assms(1,2) process_offers_ok [OF assms(3), of fl rd "n\<lparr>request_processed := request_processed n + 1\<rparr>" "[]"]
  by (simp add: ProcessSaveResults_def Let_def fold_count_fields)

definition sample_offer :: "int json" where
  "sample_offer = JObject [(''campaign_social'', JBool True), (''guid'', JString ''g''), (''id'', JUint 7),
     (''retargeting'', JBool False)]"

definition sample_params :: "int params" where
  "sample_params = (Params_new 0 False)
     \<lparr>p_offers := JArray [sample_offer], p_params := JObject [(''informer_id_int'', JUint 3)]\<rparr>"

theorem save_results_records_all_witness:
  "\<exists>d. ProcessSaveResults int_dbl (\<lambda>c d. (c @ d, None)) True
      \<lparr>local_seconds = 0, universal_seconds = 0, now_ms = 0\<rparr> sample_params zero_counters []
    = (zero_counters\<lparr>request_processed := 1, offer_processed := 1, social_processed := 1\<rparr>, [d], None)"
proof -
  obtain rd where rd: "request_data_of int_dbl \<lparr>local_seconds = 0, universal_seconds = 0, now_ms = 0\<rparr>
      sample_params = Inr rd"
    by (simp add: request_data_of_def read_member_def sample_params_def json_index_cases get_string_def
        is_string_def is_null_def get_long_long_def)
  have its: "json_range (p_offers sample_params) = [sample_offer]"
    by (simp add: sample_params_def json_range_def)
  have rec: "\<forall>it\<in>set [sample_offer]. recordable it"
    by (simp add: recordable_def sample_offer_def keyed_def is_object_def field_def member_def
        readable_string_def readable_long_def is_string_def is_null_def is_number_def is_number_integer_def
        is_boolean_def)
  show ?thesis
    using save_results_records_all [OF rd its rec, of "\<lambda>c d. (c @ d, None)" zero_counters "[]"]
    by (simp add: sample_offer_def is_true_def field_def member_def get_bool_def zero_counters_def)
qed

lemma count_offer_bounds:
  "\<exists>k r s. fst (count_offer it n) = n\<lparr>offer_processed := offer_processed n + word_of_nat k,
      retargeting_processed := retargeting_processed n + word_of_nat r,
      social_processed := social_processed n + word_of_nat s\<rparr> \<and> s \<le> k + r \<and> k + r \<le> 1"
proof (cases "read_member get_bool ''retargeting'' it")
  case (Inl e)
  then show ?thesis by (intro exI [of _ 0]) (simp add: count_offer_def)
next
  case (Inr x)
  obtain r it' where x: "x = (r, it')" by (cases x)
  show ?thesis
  proof (cases "read_member get_bool ''campaign_social'' it'")
    case (Inl e)
    then show ?thesis using Inr x
      by (intro exI [of _ "if r then 0 else 1"] exI [of _ "if r then 1 else 0"] exI [of _ 0])
        (simp add: count_offer_def Let_def)
  next
    case s: (Inr y)
    then show ?thesis using Inr x
      by (intro exI [of _ "if r then 0 else 1"] exI [of _ "if r then 1 else 0"] exI [of _ "if fst y then 1 else 0"])
        (simp add: count_offer_def Let_def split: prod.splits)
  qed
qed

lemma process_offers_bounds:
  "\<exists>k r s. fst (process_offers fl rd its n docs) = n\<lparr>offer_processed := offer_processed n + word_of_nat k,
      retargeting_processed := retargeting_processed n + word_of_nat r,
      social_processed := social_processed n + word_of_nat s\<rparr> \<and> s \<le> k + r \<and> k + r \<le> length its"
proof (induction its arbitrary: n docs)
  case Nil
  show ?case by (intro exI [of _ 0]) simp
next
  case (Cons it its)
  show ?case
  proof (cases "offer_document fl rd it")
    case (Inl e)
    then show ?thesis by (intro exI [of _ 0]) simp
  next
    case (Inr x)
    obtain d it' where x: "x = (d, it')" by (cases x)
    obtain n1 err where c: "count_offer it' n = (n1, err)" by fastforce
    obtain k r s where b: "n1 = n\<lparr>offer_processed := offer_processed n + word_of_nat k,
        retargeting_processed := retargeting_processed n + word_of_nat r,
        social_processed := social_processed n + word_of_nat s\<rparr>" "s \<le> k + r" "k + r \<le> 1"
      using count_offer_bounds [of it' n] c by auto
    show ?thesis
    proof (cases err)
      case (Some e)
      then show ?thesis using Inr x c b
        by (intro exI [of _ k] exI [of _ r] exI [of _ s]) simp
    next
      case None
      obtain k' r' s' where "fst (process_offers fl rd its n1 (docs @ [d])) =
          n1\<lparr>offer_processed := offer_processed n1 + word_of_nat k',
            retargeting_processed := retargeting_processed n1 + word_of_nat r',
            social_processed := social_processed n1 + word_of_nat s'\<rparr>" "s' \<le> k' + r'" "k' + r' \<le> length its"
        using Cons.IH [of n1 "docs @ [d]"] by blast
      then show ?thesis using None Inr x c b
        by (intro exI [of _ "k + k'"] exI [of _ "r + r'"] exI [of _ "s + s'"]) (simp add: add.assoc)
    qed
  qed
qed

lemma save_results_bounds:
  "\<exists>k r s. fst (ProcessSaveResults fl ins ok t p n coll) =
      n\<lparr>request_processed := request_processed n + 1,
        offer_processed := offer_processed n + word_of_nat k,
        retargeting_processed := retargeting_processed n + word_of_nat r,
        social_processed := social_processed n + word_of_nat s\<rparr>
    \<and> s \<le> k + r \<and> k + r \<le> length (json_range (p_offers p))"
proof (cases "request_data_of fl t p")
  case (Inl e)
  then show ?thesis by (intro exI [of _ 0]) (simp add: ProcessSaveResults_def Let_def)
next
  case (Inr rd)
  let ?r = "process_offers fl rd (json_range (p_offers p)) (n\<lparr>request_processed := request_processed n + 1\<rparr>) []"
  have "fst (ProcessSaveResults fl ins ok t p n coll) = fst ?r"
    using Inr by (auto simp: ProcessSaveResults_def Let_def split: prod.splits sum.splits)
  then show ?thesis using process_offers_bounds [of fl rd "json_range (p_offers p)"
      "n\<lparr>request_processed := request_processed n + 1\<rparr>" "[]"] by auto
qed

text \<open>
  Property C9: all or nothing: one offer that cannot be recorded, for instance one whose
  \<open>retargeting\<close> is missing or a text, makes the whole request store no document at all; the
  exception is reported, and the request is counted nevertheless.
\<close>

theorem save_results_all_or_nothing:
  assumes "it \<in> set (json_range (p_offers p))" "\<not> recordable it"
  shows "\<exists>n' e. ProcessSaveResults fl ins ok t p n coll = (n', coll, Some e)
    \<and> request_processed n' = request_processed n + 1"
proof -
  have "\<exists>n' e. ProcessSaveResults fl ins ok t p n coll = (n', coll, Some e)"
  proof (cases "request_data_of fl t p")
    case (Inl e)
    then show ?thesis by (simp add: ProcessSaveResults_def Let_def)
  next
    case (Inr rd)
    obtain n' e where "process_offers fl rd (json_range (p_offers p)) (n\<lparr>request_processed := request_processed n + 1\<rparr>) []
        = (n', Inl e)"
      using process_offers_bad assms by blast
    then show ?thesis using Inr by (simp add: ProcessSaveResults_def Let_def)
  qed
  moreover have "request_processed (fst (ProcessSaveResults fl ins ok t p n coll)) = request_processed n + 1"
    using save_results_bounds [of fl ins ok t p n coll] by auto
  ultimately show ?thesis by auto
qed

theorem save_results_all_or_nothing_witness:
  "\<exists>n' e. ProcessSaveResults int_dbl (\<lambda>c d. (c @ d, None)) True
     \<lparr>local_seconds = 0, universal_seconds = 0, now_ms = 0\<rparr>
     ((Params_new 0 False)\<lparr>p_offers := JArray [JObject [(''retargeting'', JString ''yes'')]]\<rparr>)
     zero_counters [] = (n', [], Some e) \<and> request_processed n' = request_processed zero_counters + 1"
  by (rule save_results_all_or_nothing [of "JObject [(''retargeting'', JString ''yes'')]"])
    (simp_all add: json_range_def recordable_def field_def member_def is_boolean_def)

text \<open>
  The counters under every outcome, exceptions included: a call counts one request, at
  most as many offers as the request has, and never more social offers than offers; the arithmetic
  is that of 64-bit words.
\<close>

theorem save_results_counters:
  "\<exists>k r s. fst (ProcessSaveResults fl ins ok t p n coll) =
      n\<lparr>request_processed := request_processed n + 1,
        offer_processed := offer_processed n + word_of_nat k,
        retargeting_processed := retargeting_processed n + word_of_nat r,
        social_processed := social_processed n + word_of_nat s\<rparr>
    \<and> s \<le> k + r \<and> k + r \<le> length (json_range (p_offers p))"
  by (rule save_results_bounds)

section \<open>What is recorded\<close>

text \<open>
  The form of a document of an impression: its keys in their order with the kinds of their values, and the
  values that are the same in all.
\<close>

fun bson_kind :: "bson \<Rightarrow> string" where
  "bson_kind (B_string s) = ''string''"
| "bson_kind (B_int64 n) = ''int64''"
| "bson_kind (B_bool b) = ''bool''"
| "bson_kind (B_date t) = ''date''"
| "bson_kind (B_document d) = ''document''"

definition impression :: "document \<Rightarrow> bool" where
  "impression d \<longleftrightarrow>
     map (\<lambda>e. (fst e, bson_kind (snd e))) d =
       [(''dt'', ''date''), (''id'', ''string''), (''id_int'', ''int64''), (''title'', ''string''),
        (''inf'', ''string''), (''inf_int'', ''int64''), (''ip'', ''string''), (''cookie'', ''string''),
        (''social'', ''bool''), (''token'', ''string''), (''type'', ''string''), (''isOnClick'', ''bool''),
        (''campaignId'', ''string''), (''account_id'', ''string''), (''campaignId_int'', ''int64''),
        (''campaignTitle'', ''string''), (''project'', ''string''), (''country'', ''string''),
        (''region'', ''string''), (''retargeting'', ''string''), (''keywords'', ''document''),
        (''branch'', ''string''), (''conformity'', ''string''), (''matching'', ''string''),
        (''test'', ''bool''), (''request'', ''string'')]
     \<and> (''type'', B_string ''teaser'') \<in> set d \<and> (''conformity'', B_string ''place'') \<in> set d
     \<and> (''isOnClick'', B_bool True) \<in> set d"

lemma offer_document_impression: "offer_document fl rd it = Inr (d, it') \<Longrightarrow> impression d"
  by (auto simp: offer_document_def impression_def res_simps)

lemma process_offers_impressions:
  "process_offers fl rd its n docs = (n', Inr docs') \<Longrightarrow> \<forall>d\<in>set docs. impression d \<Longrightarrow>
    \<forall>d\<in>set docs'. impression d"
proof (induction its arbitrary: n docs)
  case (Cons it its)
  from Cons.prems(1) obtain d it' n1 where d: "offer_document fl rd it = Inr (d, it')"
    "process_offers fl rd its n1 (docs @ [d]) = (n', Inr docs')"
    by (auto split: sum.splits prod.splits option.splits)
  then show ?case using Cons.IH [OF d(2)] Cons.prems(2) offer_document_impression [OF d(1)] by auto
qed simp

text \<open>
  An ordered insertion into a capped collection: a beginning of the documents is added, all of them if
  there is no exception, and the oldest ones may go.
\<close>

definition ordered_insert :: "insert_many \<Rightarrow> bool" where
  "ordered_insert ins \<longleftrightarrow> (\<forall>coll docs. \<exists>j k. fst (ins coll docs) = drop k (coll @ take j docs))"

lemma save_results_impressions:
  assumes "ordered_insert ins"
  shows "\<exists>docs k. fst (snd (ProcessSaveResults fl ins ok t p n coll)) = drop k (coll @ docs) \<and> (\<forall>d\<in>set docs. impression d)"
proof -
  have none: ?thesis if "fst (snd (ProcessSaveResults fl ins ok t p n coll)) = coll"
    by (rule exI [of _ "[]"], rule exI [of _ 0]) (use that in simp)
  show ?thesis
  proof (cases "request_data_of fl t p")
    case (Inl e)
    then show ?thesis by (intro none) (simp add: ProcessSaveResults_def Let_def)
  next
    case (Inr rd)
    obtain n' r where r: "process_offers fl rd (json_range (p_offers p)) (n\<lparr>request_processed := request_processed n + 1\<rparr>) []
        = (n', r)" by fastforce
    show ?thesis
    proof (cases "\<exists>docs. r = Inr docs \<and> ok")
      case True
      then obtain docs where docs: "r = Inr docs" ok by blast
      obtain j k where "fst (ins coll docs) = drop k (coll @ take j docs)"
        using assms unfolding ordered_insert_def by blast
      moreover have "\<forall>d\<in>set (take j docs). impression d"
        using process_offers_impressions [of fl rd] r docs(1) by (auto dest: in_set_takeD)
      ultimately show ?thesis using Inr r docs by (auto simp: ProcessSaveResults_def Let_def)
    next
      case False
      then show ?thesis using Inr r
        by (intro none) (auto simp: ProcessSaveResults_def Let_def split: sum.splits)
    qed
  qed
qed

end
