(* ===== verification/Status.thy ===== *)
theory Status
  imports Config
begin

text \<open>
  \<open>src/BaseCore.cpp\<close>: the status page with its rates of requests, computed in 32- and 64-bit
  arithmetic, and \<open>src/CpuStat.cpp\<close>: the sampling of the process's processor use. Times are
  milliseconds; the printing of times and of \<open>double\<close> values is a parameter. Text outside ASCII is
  kept in its UTF-8 bytes.
\<close>

section \<open>Processor use\<close>

text \<open>\<open>struct meterage\<close>; all members are 64 bits wide.\<close>

record meterage =
  utime_ticks :: u64
  cutime_ticks :: u64
  stime_ticks :: u64
  cstime_ticks :: u64
  m_vsize :: u64
  m_rss :: u64
  cpu_total_time :: u64

definition zero_meterage :: meterage where
  "zero_meterage = \<lparr>utime_ticks = 0, cutime_ticks = 0, stime_ticks = 0, cstime_ticks = 0, m_vsize = 0,
     m_rss = 0, cpu_total_time = 0\<rparr>"

text \<open>
  What the two files under \<open>/proc\<close> give: whether they can be opened and the numbers that \<open>fscanf\<close>
  stores, \<open>None\<close> for \<open>EOF\<close>. The pages come as a number of pages.
\<close>

record proc_files =
  pid_stat :: "(u64 \<times> u64 \<times> u64 \<times> u64 \<times> u64 \<times> u64) option option"
  cpu_stat :: "u64 list option option"
  page_size :: u64

text \<open>
  \<open>getUsage\<close>: the result and the structure. A second file that cannot be opened is passed to
  \<open>fclose\<close> as a null pointer.
\<close>

datatype usage_end = Crash_fclose_null | Usage bool meterage

definition getUsage :: "proc_files \<Rightarrow> meterage \<Rightarrow> usage_end" where
  "getUsage pf m =
     (case pid_stat pf of
        None \<Rightarrow> Usage False m
      | Some pid_line \<Rightarrow>
          (case cpu_stat pf of
             None \<Rightarrow> Crash_fclose_null
           | Some cpu_line \<Rightarrow>
               (let m = zero_meterage in
                case pid_line of
                  None \<Rightarrow> Usage False m
                | Some (ut, stk, cu, cs, vsz, pages) \<Rightarrow>
                    (let m = m\<lparr>utime_ticks := ut, stime_ticks := stk, cutime_ticks := cu, cstime_ticks := cs,
                           m_vsize := vsz, m_rss := pages * page_size pf\<rparr> in
                     case cpu_line of
                       None \<Rightarrow> Usage False m
                     | Some ts \<Rightarrow> Usage True (m\<lparr>cpu_total_time := foldl (+) (cpu_total_time m) (take 10 ts)\<rparr>)))))"

text \<open>
  The ticks the process used between two samples, the numerators of \<open>cpu_user\<close> and \<open>cpu_sys\<close>.
\<close>

definition user_ticks_diff :: "meterage \<Rightarrow> meterage \<Rightarrow> u64" where
  "user_ticks_diff cur prev =
     (utime_ticks cur + cutime_ticks cur) - (utime_ticks prev + cutime_ticks prev)"

definition sys_ticks_diff :: "meterage \<Rightarrow> meterage \<Rightarrow> u64" where
  "sys_ticks_diff cur prev =
     (stime_ticks cur + cstime_ticks cur) - (stime_ticks prev + cstime_ticks prev)"

definition total_time_diff :: "meterage \<Rightarrow> meterage \<Rightarrow> u64" where
  "total_time_diff cur prev = cpu_total_time cur - cpu_total_time prev"

text \<open>
  \<open>cpuUsage\<close>: the statics \<open>cpu_user\<close>, \<open>cpu_sys\<close> and \<open>rss\<close> and the member \<open>last_usage\<close>. \<open>per_mille\<close> is
  the division of two numbers as \<open>double\<close>, times 1000. The result of \<open>getUsage\<close> is not looked at: where
  it fails early, \<open>cur_usage\<close> keeps the indeterminate contents \<open>garbage\<close>.
\<close>

record 'd cpu_state =
  cpu_user :: 'd
  cpu_sys :: 'd
  cpu_rss :: u64
  last_usage :: meterage

definition cpuUsage ::
  "(u64 \<Rightarrow> u64 \<Rightarrow> 'd) \<Rightarrow> meterage \<Rightarrow> proc_files \<Rightarrow> 'd cpu_state \<Rightarrow> 'd cpu_state option" where
  "cpuUsage per_mille garbage pf st =
     (case getUsage pf garbage of
        Crash_fclose_null \<Rightarrow> None
      | Usage ok cur_usage \<Rightarrow>
          (let d = total_time_diff cur_usage (last_usage st) in
           Some \<lparr>cpu_user = per_mille (user_ticks_diff cur_usage (last_usage st)) d,
                 cpu_sys = per_mille (sys_ticks_diff cur_usage (last_usage st)) d,
                 cpu_rss = m_rss cur_usage,
                 last_usage = cur_usage\<rparr>))"

text \<open>\<open>freeMem\<close>: the share of free memory in percent, in 64-bit arithmetic, as an \<open>int\<close>.\<close>

definition freeMem :: "(u64 \<times> u64) option \<Rightarrow> int" where
  "freeMem info =
     (case info of
        None \<Rightarrow> - 1
      | Some (freeram, totalram) \<Rightarrow> sint (ucast (freeram * 100 div totalram) :: 32 word))"

section \<open>The rates of the status page\<close>

text \<open>
  The state between two calls: the start of the service and the time of the last access, a static
  variable that is unset at first.
\<close>

record base_core =
  time_service_started :: int
  last_time_accessed :: "int option"

definition BaseCore_new :: "int \<Rightarrow> base_core" where
  "BaseCore_new local_ms = \<lparr>time_service_started = local_ms, last_time_accessed = None\<rparr>"

text \<open>An \<open>int\<close> takes the low 32 bits of a number of milliseconds.\<close>

definition int_of_ms :: "int \<Rightarrow> 32 word" where
  "int_of_ms ms = word_of_int ms"

text \<open>
  A rate: the count times 1000 divided by the milliseconds. The \<open>int\<close> is converted to
  \<open>unsigned long\<close>, by sign extension; the quotient is stored in an \<open>int\<close>.
\<close>

definition rate :: "u64 \<Rightarrow> 32 word \<Rightarrow> 32 word" where
  "rate count ms = (if ms \<noteq> 0 then ucast (count * 1000 div scast ms) else 0)"

text \<open>What the page shows, and the state and the counters afterwards.\<close>

record status_page =
  sp_requests :: u64
  sp_current :: "32 word"
  sp_average :: "32 word"
  sp_offers :: u64
  sp_social :: u64
  sp_retargeting :: u64
  sp_server_name :: string
  sp_server_ip :: string
  sp_children :: int
  sp_log_db :: string
  sp_log_url :: string

definition unknown_name :: string where
  "unknown_name = map char_of [208 :: nat, 189, 208, 181, 208, 184, 208, 183, 208, 178, 208, 181,
     209, 129, 209, 130, 208, 189, 208, 190]"

definition BaseCore_Status ::
  "config \<Rightarrow> int \<Rightarrow> string \<Rightarrow> base_core \<times> counters \<Rightarrow> status_page \<times> base_core \<times> counters" where
  "BaseCore_Status c now server_name st =
     (let b = fst st; n = snd st;
          accessed = (case last_time_accessed b of None \<Rightarrow> time_service_started b | Some t \<Rightarrow> t);
          since_last = int_of_ms (now - accessed);
          since_start = int_of_ms (now - time_service_started b);
          current = rate (request_processed n - last_time_request n) since_last;
          average = rate (request_processed n) since_start;
          b = b\<lparr>last_time_accessed := Some now\<rparr>;
          n = n\<lparr>last_time_request := request_processed n\<rparr>
      in (\<lparr>sp_requests = request_processed n, sp_current = current, sp_average = average,
           sp_offers = offer_processed n, sp_social = social_processed n,
           sp_retargeting = retargeting_processed n,
           sp_server_name = (if server_name = [] then server_name else unknown_name),
           sp_server_ip = server_ip c, sp_children = server_children c,
           sp_log_db = mongo_log_db c,
           sp_log_url = (if mongo_log_url c = [] then '' no '' else mongo_log_url c)\<rparr>, b, n))"

section \<open>The text of the page\<close>

text \<open>
  What the libraries print: the two times, the \<open>double\<close> values of the processor's use; and the
  resident size. Words outside ASCII are given by their bytes.
\<close>

record status_env =
  st_local_time :: string
  st_started :: string
  st_cpu_user :: string
  st_cpu_sys :: string
  st_rss :: u64

definition bytes :: "nat list \<Rightarrow> string" where
  "bytes bs = map char_of bs"

definition status_html :: "status_env \<Rightarrow> status_page \<Rightarrow> string" where
  "status_html env p =
     ''<html>'' @ ''<head>'' @ ''<meta http-equiv='' @ [CHR 0x22] @ ''Content-Type'' @ [CHR 0x22]
     @ '' content='' @ [CHR 0x22] @ ''text/html; charset=utf-8'' @ [CHR 0x22] @ ''/>''
     @ ''<style type='' @ [CHR 0x22] @ ''text/css'' @ [CHR 0x22] @ ''>''
     @ ''body { font-family: Arial, Helvetica, sans-serif; }'' @ ''h1, h2, h3 {font-family: ''
     @ [CHR 0x22] @ ''georgia'' @ [CHR 0x22] @ '', serif; font-weight: 400;}''
     @ ''table { border-collapse: collapse; border: 1px solid gray; }''
     @ ''td { border: 1px dotted gray; padding: 5px; font-size: 10pt; }''
     @ ''th {border: 1px solid gray; padding: 8px; font-size: 10pt; }'' @ ''</style>'' @ ''</head>''
     @ ''<body>'' @ ''<h1>''
     @ bytes [208, 161, 208, 190, 209, 129, 209, 130, 208, 190, 209, 143, 208, 189, 208, 184, 208, 181]
     @ '' '' @ bytes [209, 129, 208, 187, 209, 131, 208, 182, 208, 177, 209, 139]
     @ '' Yottos GetMyAd Worker Logger</h1>'' @ ''<table>'' @ ''<tr>'' @ ''<td>''
     @ bytes [208, 158, 208, 177, 209, 128, 208, 176, 208, 177, 208, 190, 209, 130, 208, 176, 208, 189,
       208, 190] @ '' ''
     @ bytes [208, 183, 208, 176, 208, 191, 209, 128, 208, 190, 209, 129, 208, 190, 208, 178]
     @ '':</td><td><b>'' @ string_of_nat (unat (sp_requests p)) @ ''</b> (''
     @ string_of_int (sint (sp_current p)) @ ''/'' @ bytes [209, 129, 208, 181, 208, 186] @ '', ''
     @ '' '' @ bytes [208, 178] @ '' ''
     @ bytes [209, 129, 209, 128, 208, 181, 208, 180, 208, 189, 208, 181, 208, 188] @ '' ''
     @ string_of_int (sint (sp_average p)) @ ''/'' @ bytes [209, 129, 208, 181, 208, 186] @ '') ''
     @ ''</td></tr>'' @ ''<tr><td>'' @ bytes [208, 158, 208, 177, 209, 137, 208, 181, 208, 181] @ '' ''
     @ bytes [208, 186, 208, 190, 208, 187] @ ''-'' @ bytes [208, 178, 208, 190] @ '' ''
     @ bytes [208, 191, 208, 190, 208, 186, 208, 176, 208, 183, 208, 190, 208, 178] @ '':</td><td><b>''
     @ string_of_nat (unat (sp_offers p)) @ ''</b> ('' @ string_of_nat (unat (sp_social p)) @ '' ''
     @ bytes [208, 184, 208, 183] @ '' '' @ bytes [208, 189, 208, 184, 209, 133] @ '' ''
     @ bytes [209, 129, 208, 190, 209, 134, 208, 184, 208, 176, 208, 187, 209, 140, 208, 189, 208, 176,
       209, 143] @ '' '' @ bytes [209, 128, 208, 181, 208, 186, 208, 187, 208, 176, 208, 188, 208, 176]
     @ '') '' @ ''</td></tr>'' @ ''<tr><td>'' @ bytes [208, 158, 208, 177, 209, 137, 208, 181, 208, 181]
     @ '' '' @ bytes [208, 186, 208, 190, 208, 187] @ ''-'' @ bytes [208, 178, 208, 190] @ '' ''
     @ bytes [209, 128, 208, 181, 209, 130, 208, 176, 209, 128, 208, 179, 208, 181, 209, 130, 208, 184,
       208, 189, 208, 179, 208, 190, 208, 178, 209, 139, 209, 133] @ '' ''
     @ bytes [208, 191, 208, 190, 208, 186, 208, 176, 208, 183, 208, 190, 208, 178] @ '':</td><td><b>''
     @ string_of_nat (unat (sp_retargeting p)) @ ''</b></td></tr>'' @ ''<tr><td>''
     @ bytes [208, 152, 208, 188, 209, 143] @ '' ''
     @ bytes [209, 129, 208, 181, 209, 128, 208, 178, 208, 181, 209, 128, 208, 176] @ '': </td> <td>''
     @ sp_server_name p @ ''</td></tr>'' @ ''<tr><td>IP ''
     @ bytes [209, 129, 208, 181, 209, 128, 208, 178, 208, 181, 209, 128, 208, 176] @ '': </td> <td>''
     @ sp_server_ip p @ ''</td></tr>'' @ ''<tr><td>''
     @ bytes [208, 162, 208, 181, 208, 186, 209, 131, 209, 137, 208, 181, 208, 181] @ '' ''
     @ bytes [208, 178, 209, 128, 208, 181, 208, 188, 209, 143] @ '': </td> <td>'' @ st_local_time env
     @ ''</td></tr>'' @ ''<tr><td>'' @ bytes [208, 146, 209, 128, 208, 181, 208, 188, 209, 143] @ '' ''
     @ bytes [208, 183, 208, 176, 208, 191, 209, 131, 209, 129, 208, 186, 208, 176] @ '':</td> <td>''
     @ st_started env @ ''</td></tr>'' @ ''<tr><td>''
     @ bytes [208, 154, 208, 190, 208, 187, 208, 184, 209, 135, 208, 181, 209, 129, 209, 130, 208, 178,
       208, 190] @ '' '' @ bytes [208, 189, 208, 184, 209, 130, 208, 190, 208, 186] @ '': </td> <td>''
     @ string_of_int (sp_children p) @ ''</td></tr>'' @ ''<tr><td>CPU user: </td> <td>''
     @ st_cpu_user env @ ''</td></tr>'' @ ''<tr><td>CPU sys: </td> <td>'' @ st_cpu_sys env
     @ ''</td></tr>'' @ ''<tr><td>RAM: </td> <td>'' @ string_of_nat (unat (st_rss env)) @ ''</td></tr>''
     @ ''<tr><td>'' @ bytes [208, 145, 208, 176, 208, 183, 208, 176] @ '' ''
     @ bytes [208, 180, 208, 176, 208, 189, 208, 189, 209, 139, 209, 133] @ '' ''
     @ bytes [208, 182, 209, 131, 209, 128, 208, 189, 208, 176, 208, 187, 208, 184, 209, 128, 208, 190,
       208, 178, 208, 176, 208, 189, 208, 184, 209, 143] @ '': </td> <td>'' @ sp_log_db p
     @ ''</br>replica set = '' @ sp_log_url p @ ''</td></tr>'' @ ''</table>'' @ ''</body>''
     @ ''</html>''"

definition BaseCore_Status_text ::
  "status_env \<Rightarrow> config \<Rightarrow> int \<Rightarrow> string \<Rightarrow> base_core \<times> counters \<Rightarrow> string \<times> base_core \<times> counters" where
  "BaseCore_Status_text env c now server_name st =
     apfst (status_html env) (BaseCore_Status c now server_name st)"

section \<open>Properties\<close>

lemma sint_int_of_ms: "- (2 ^ 31) \<le> ms \<Longrightarrow> ms < 2 ^ 31 \<Longrightarrow> sint (int_of_ms ms) = ms"
  unfolding int_of_ms_def sint_sbintrunc' by (rule signed_take_bit_int_eq_self) simp_all

lemma scast_int_of_ms:
  "- (2 ^ 31) \<le> ms \<Longrightarrow> ms < 2 ^ 31 \<Longrightarrow> (scast (int_of_ms ms) :: u64) = word_of_int ms"
  by (metis scast_eq sint_int_of_ms)

lemma rate_eq:
  assumes "ms \<noteq> 0" "- (2 ^ 31) \<le> ms" "ms < 2 ^ 31"
  shows "rate count (int_of_ms ms) = ucast (count * 1000 div word_of_int ms)"
proof -
  have "int_of_ms ms \<noteq> 0" using sint_int_of_ms [OF assms(2,3)] assms(1) by auto
  then show ?thesis by (simp add: rate_def scast_int_of_ms [OF assms(2,3)])
qed

lemma unat_times_1000: "unat count * 1000 < 2 ^ 64 \<Longrightarrow> unat (count * 1000) = unat count * 1000" for count :: u64
  by (simp add: unat_mult_lem [THEN iffD1])

lemma rate_32_bits:
  assumes "0 < ms" "ms < 2 ^ 31" "unat count * 1000 < 2 ^ 64" "unat count * 1000 div nat ms < 2 ^ 31"
  shows "sint (rate count (int_of_ms ms)) = int (unat count * 1000 div nat ms)"
proof -
  let ?q = "count * 1000 div word_of_int ms :: u64"
  have ms: "unat (word_of_int ms :: u64) = nat ms"
    using assms(1,2) by (simp add: unat_eq_nat_uint uint_word_of_int)
  have q: "unat ?q = unat count * 1000 div nat ms"
    by (simp add: unat_div ms unat_times_1000 [OF assms(3)])
  have "rate count (int_of_ms ms) = ucast ?q" using assms(1,2) by (intro rate_eq) auto
  also have "\<dots> = word_of_int (int (unat ?q))"
    by (simp only: ucast_eq uint_nat)
  finally have "sint (rate count (int_of_ms ms)) = signed_take_bit 31 (int (unat ?q))"
    by (simp only: sint_sbintrunc') simp
  also have "\<dots> = int (unat ?q)" using assms(4) q by (intro signed_take_bit_int_eq_self) simp_all
  finally show ?thesis by (simp add: q)
qed

text \<open>
  A rate of the page is exact while it fits: for less than 2^31 milliseconds it is the
  requests per second, rounded down, if the product with 1000 fits 64 bits and the quotient 31.
\<close>

theorem rate_exact:
  assumes "0 < ms" "ms < 2 ^ 31" "unat count * 1000 < 2 ^ 64" "unat count * 1000 div nat ms < 2 ^ 31"
  shows "sint (rate count (int_of_ms ms)) = int (unat count * 1000 div nat ms)"
  using assms by (rule rate_32_bits)

theorem rate_exact_witness: "sint (rate 50 (int_of_ms 2000)) = 25"
  using rate_exact [of 2000 50] by simp

text \<open>The part of the page with the number of requests and the two rates, of the interval and of all time.\<close>

definition requests_shown :: "nat \<Rightarrow> nat \<Rightarrow> nat \<Rightarrow> string" where
  "requests_shown requests current average =
     '':</td><td><b>'' @ string_of_nat requests @ ''</b> (''
     @ string_of_nat current @ ''/'' @ bytes [209, 129, 208, 181, 208, 186] @ '', ''
     @ '' '' @ bytes [208, 178] @ '' ''
     @ bytes [209, 129, 209, 128, 208, 181, 208, 180, 208, 189, 208, 181, 208, 188] @ '' ''
     @ string_of_nat average @ ''/'' @ bytes [209, 129, 208, 181, 208, 186] @ '') ''"

lemma has_substr_here: "s = t @ r \<Longrightarrow> has_substr t s"
  by (metis append_Nil has_substr_iff)

lemma has_substr_right: "has_substr t s \<Longrightarrow> has_substr t (r @ s)"
  by (metis append.assoc has_substr_iff)

lemma status_html_requests:
  assumes "sint (sp_current p) = int cur" "sint (sp_average p) = int avg"
  shows "has_substr (requests_shown (unat (sp_requests p)) cur avg) (status_html env p)"
proof -
  have n: "string_of_int (int k) = string_of_nat k" for k by (simp add: string_of_int_def)
  show ?thesis
    unfolding status_html_def requests_shown_def assms n
    by ((rule has_substr_here, (simp only: append_assoc; fail)) | rule has_substr_right)+
qed

text \<open>
  Property C40: the rates of the page are exact while they fit. Between the times of the last look (or the
  start of the service) and of this one the page shows the requests of that interval per second, and next
  to it the requests since the start per second, both rounded down, and the number of all requests; if both
  intervals are shorter than 2^31 milliseconds and not empty, the products with 1000 fit 64 bits and the
  quotients 31. This look begins the next interval.
\<close>

theorem status_page_rates:
  assumes "BaseCore_Status_text env c now name (b, n) = (html, b', n')"
    and "accessed = (case last_time_accessed b of None \<Rightarrow> time_service_started b | Some t \<Rightarrow> t)"
    and "0 < now - accessed" "now - accessed < 2 ^ 31"
    and "0 < now - time_service_started b" "now - time_service_started b < 2 ^ 31"
    and "unat (last_time_request n) + k = unat (request_processed n)" "unat (request_processed n) * 1000 < 2 ^ 64"
    and "k * 1000 div nat (now - accessed) < 2 ^ 31"
    and "unat (request_processed n) * 1000 div nat (now - time_service_started b) < 2 ^ 31"
  shows "has_substr (requests_shown (unat (request_processed n)) (k * 1000 div nat (now - accessed))
        (unat (request_processed n) * 1000 div nat (now - time_service_started b))) html
    \<and> last_time_accessed b' = Some now \<and> time_service_started b' = time_service_started b
    \<and> n' = n\<lparr>last_time_request := request_processed n\<rparr>"
proof -
  have "k = unat (request_processed n) - unat (last_time_request n)" using assms(7) by simp
  then have k: "unat (request_processed n - last_time_request n) = k"
    using assms(7) by (simp add: unat_sub word_le_nat_alt)
  obtain page where page: "BaseCore_Status c now name (b, n) = (page, b', n')" "html = status_html env page"
    using assms(1) by (cases "BaseCore_Status c now name (b, n)") (auto simp: BaseCore_Status_text_def)
  then have p: "sp_current page = rate (request_processed n - last_time_request n) (int_of_ms (now - accessed))"
    "sp_average page = rate (request_processed n) (int_of_ms (now - time_service_started b))"
    "sp_requests page = request_processed n"
    and st: "b' = b\<lparr>last_time_accessed := Some now\<rparr>" "n' = n\<lparr>last_time_request := request_processed n\<rparr>"
    by (auto simp: BaseCore_Status_def Let_def assms(2))
  have "sint (sp_current page) = int (k * 1000 div nat (now - accessed))"
    unfolding p k [symmetric] by (rule rate_32_bits) (use assms k in auto)
  moreover have "sint (sp_average page) = int (unat (request_processed n) * 1000 div nat (now - time_service_started b))"
    unfolding p by (rule rate_32_bits) (use assms in auto)
  ultimately show ?thesis using status_html_requests [of page] p(3) page(2) st by simp
qed

theorem status_page_rates_witness:
  "has_substr (requests_shown 50 15 10)
     (fst (BaseCore_Status_text
        \<lparr>st_local_time = [], st_started = [], st_cpu_user = [], st_cpu_sys = [], st_rss = 0\<rparr> blank_config 5000 []
        ((BaseCore_new 0)\<lparr>last_time_accessed := Some 3000\<rparr>,
         zero_counters\<lparr>request_processed := 50, last_time_request := 20\<rparr>)))"
proof -
  let ?env = "\<lparr>st_local_time = [], st_started = [], st_cpu_user = [], st_cpu_sys = [], st_rss = 0\<rparr>"
  let ?b = "(BaseCore_new 0)\<lparr>last_time_accessed := Some 3000\<rparr>"
  let ?n = "zero_counters\<lparr>request_processed := 50, last_time_request := 20\<rparr>"
  obtain html b' n' where r: "BaseCore_Status_text ?env blank_config 5000 [] (?b, ?n) = (html, b', n')"
    by (metis prod_cases3)
  from status_page_rates [OF r, of 3000 30] r show ?thesis by (simp add: BaseCore_new_def)
qed

text \<open>
  The time since the start is kept in a 32-bit \<open>int\<close>: in the second 2^31 milliseconds
  of the service's life (from the 25th to the 49th day) it is negative, as an unsigned divisor larger
  than every product, and the average rate on the page is 0.
\<close>

theorem rate_after_24_days:
  assumes "2 ^ 31 \<le> ms" "ms < 2 ^ 32" "unat count * 1000 < 2 ^ 63"
  shows "rate count (int_of_ms ms) = 0"
proof -
  have same: "int_of_ms ms = int_of_ms (ms - 2 ^ 32)" by (simp add: int_of_ms_def)
  have "rate count (int_of_ms (ms - 2 ^ 32)) = ucast (count * 1000 div word_of_int (ms - 2 ^ 32))"
    using assms(1,2) by (intro rate_eq) auto
  moreover have "count * 1000 div word_of_int (ms - 2 ^ 32) = (0 :: u64)"
  proof -
    have "uint (word_of_int (ms - 2 ^ 32) :: u64) = ms - 2 ^ 32 + 2 ^ 64"
    proof -
      have "(ms - 2 ^ 32) mod 2 ^ 64 = (ms - 2 ^ 32 + 2 ^ 64) mod 2 ^ 64"
        by (simp only: mod_add_self2)
      also have "\<dots> = ms - 2 ^ 32 + 2 ^ 64" using assms(1,2) by (intro mod_pos_pos_trivial) auto
      finally show ?thesis by (simp only: uint_word_of_int) (simp add: take_bit_eq_mod)
    qed
    then have "2 ^ 63 \<le> unat (word_of_int (ms - 2 ^ 32) :: u64)"
      using assms(1) by (simp add: unat_eq_nat_uint)
    moreover have "unat (count * 1000) = unat count * 1000"
      using assms(3) by (intro unat_times_1000) simp
    ultimately have "unat (count * 1000) div unat (word_of_int (ms - 2 ^ 32) :: u64) = 0"
      using assms(3) by simp
    then show ?thesis by (simp only: word_unat_eq_iff unat_div) simp
  qed
  ultimately show ?thesis by (simp add: same)
qed

theorem rate_after_24_days_witness: "rate 5000000 (int_of_ms (25 * 86400000)) = 0"
  using rate_after_24_days [of "25 * 86400000" 5000000] by simp

text \<open>
  The page never shows the server's name: the field is empty for an empty name and the
  word for \<open>unknown\<close> for every other.
\<close>

theorem status_server_name:
  "sp_server_name (fst (BaseCore_Status c now name st)) = (if name = [] then [] else unknown_name)
   \<and> (sp_server_name (fst (BaseCore_Status c now name st)) = name \<longleftrightarrow> name = [] \<or> name = unknown_name)"
  by (auto simp: BaseCore_Status_def Let_def)

text \<open>
  A look at the page starts a new interval: the next look, some milliseconds later,
  rates exactly the requests of the interval between the two.
\<close>

theorem status_interval:
  assumes "BaseCore_Status c now name st = (page, b, n)" "0 < ms" "ms < 2 ^ 31" "k * 1000 < 2 ^ 64"
    "k * 1000 div nat ms < 2 ^ 31"
  shows "sint (sp_current (fst (BaseCore_Status c (now + ms) name'
      (b, n\<lparr>request_processed := request_processed n + word_of_nat k\<rparr>)))) = int (k * 1000 div nat ms)"
proof -
  have b: "last_time_accessed b = Some now" "last_time_request n = request_processed n"
    using assms(1) by (auto simp: BaseCore_Status_def Let_def)
  have "unat (word_of_nat k :: u64) = k" using assms(4) by (simp add: unat_of_nat)
  then have "sint (rate (word_of_nat k) (int_of_ms ms)) = int (k * 1000 div nat ms)"
    using rate_32_bits [of ms "word_of_nat k"] assms by simp
  then show ?thesis using b by (simp add: BaseCore_Status_def Let_def)
qed

theorem status_interval_witness:
  "\<exists>page b n. BaseCore_Status blank_config 5000 [] (BaseCore_new 0, zero_counters) = (page, b, n)
    \<and> sint (sp_current (fst (BaseCore_Status blank_config 7000 []
      (b, n\<lparr>request_processed := request_processed n + 50\<rparr>)))) = 25"
proof -
  obtain page b n where r: "BaseCore_Status blank_config 5000 [] (BaseCore_new 0, zero_counters) = (page, b, n)"
    by (cases "BaseCore_Status blank_config 5000 [] (BaseCore_new 0, zero_counters)")
  from status_interval [OF r, of 2000 50 "[]"] r show ?thesis by auto
qed

text \<open>
  A sample is complete or reported as failed, and the function does not return when
  only \<open>/proc/stat\<close> cannot be opened. \<open>cpuUsage\<close> takes every sample, also a failed one: without the
  process's file its figures come from indeterminate memory.
\<close>

theorem getUsage_cases:
  "(getUsage pf m = Crash_fclose_null \<longleftrightarrow> pid_stat pf \<noteq> None \<and> cpu_stat pf = None)
   \<and> ((\<exists>m'. getUsage pf m = Usage True m') \<longleftrightarrow> (\<exists>l ts. pid_stat pf = Some (Some l) \<and> cpu_stat pf = Some (Some ts)))
   \<and> map_option cpu_rss (cpuUsage per_mille m (pf\<lparr>pid_stat := None\<rparr>) st) = Some (m_rss m)"
  by (auto simp: getUsage_def cpuUsage_def Let_def split: option.splits prod.splits)

end
