(* ===== verification/CgiService.thy ===== *)
theory CgiService
  imports Core Cookies UrlParser Status
begin

text \<open>
  \<open>src/CgiService.cpp\<close>: the FastCGI front end. One request is processed by \<open>ProcessRequest\<close>: it reads
  the environment and the body, extracts the visitor's cookie, answers an AJAX request through \<open>Core\<close>
  and records it afterwards, and shows the status page. \<open>Serve\<close> is the loop of a thread. Where the
  code has no defined behaviour, a request and the loop have the value \<open>None\<close>.
\<close>

section \<open>The FastCGI library\<close>

text \<open>
  A request as the library hands it over: the error state of its stream, its parameters, its standard
  input, and what \<open>FCGX_GetStr\<close> leaves in memory behind the buffer.
\<close>

record cgi_request =
  rq_error :: int
  rq_param :: "string \<Rightarrow> string option"
  rq_stdin :: string
  rq_memory :: string

text \<open>The output stream, and whether the request was finished.\<close>

record cgi_out =
  out_text :: string
  out_finished :: bool

definition no_output :: cgi_out where
  "no_output = \<lparr>out_text = [], out_finished = False\<rparr>"

definition crlf :: string where
  "crlf = [CHR 0x0D, CHR 0x0A]"

text \<open>What goes to the log: the place, and the exception it reports.\<close>

datatype cgi_log =
    Stream_error
  | Query_not_set
  | Bad_content_length
  | Address_not_set
  | Script_not_set
  | While_params_parsed log_entry
  | As_format string
  | While_saving exn string
  | While_processing exn string

section \<open>Response\<close>

definition Response_content :: "cgi_request \<Rightarrow> string \<Rightarrow> string \<Rightarrow> string \<Rightarrow> cgi_out \<Rightarrow> cgi_out \<times> cgi_log list" where
  "Response_content req content contentType cookie out =
     (if content = [] then (out, [])
      else if rq_error req \<noteq> 0 then (out, [Stream_error])
      else (\<lparr>out_text = out_text out
               @ ''Status: 200 OK'' @ crlf
               @ ''Content-type: '' @ cstr contentType @ crlf
               @ ''Set-Cookie: '' @ cstr cookie @ crlf
               @ ''Pragma: no-cache'' @ crlf
               @ ''Expires: Fri, 01 Jan 1990 00:00:00 GMT'' @ crlf
               @ ''Cache-Control: no-cache, must-revalidate, no-cache='' @ [CHR 0x22] @ ''Set-Cookie''
               @ [CHR 0x22] @ '', private'' @ crlf
               @ crlf
               @ cstr content @ crlf,
             out_finished = True\<rparr>, []))"

text \<open>
  \<open>FCGX_Accept_r\<close> gives every request that it accepts an output stream, so the test of \<open>req->out\<close>
  holds for the requests of \<open>ProcessRequest\<close>.
\<close>

definition Response_status :: "cgi_request \<Rightarrow> nat \<Rightarrow> cgi_out \<Rightarrow> cgi_out \<times> cgi_log list" where
  "Response_status req status out =
     (if rq_error req \<noteq> 0 then (out, [Stream_error])
      else (\<lparr>out_text = out_text out
               @ ''Status: '' @ string_of_nat status @ '' OK'' @ crlf
               @ ''Content-type: application/json'' @ crlf
               @ crlf @ crlf,
             out_finished = True\<rparr>, []))"

section \<open>Reading the request\<close>

definition STDIN_MAX :: nat where "STDIN_MAX = 6000000"

text \<open>
  The number of bytes to read: \<open>strtol\<close> converted to \<open>unsigned long\<close> and bounded. A text that goes on
  after the number is logged.
\<close>

definition content_length :: "string \<Rightarrow> nat \<times> cgi_log list" where
  "content_length s =
     (let r = strtol10 (cstr s);
          n = unat (word_of_int (fst r) :: u64)
      in (if STDIN_MAX < n then STDIN_MAX else n, if snd r \<noteq> [] then [Bad_content_length] else []))"

text \<open>
  The buffer is filled with blanks and then with the bytes that arrive. \<open>std::string (content)\<close> reads
  on to the first NUL, which may lie behind the buffer; \<open>resize\<close> cuts the text or fills it with NULs.
\<close>

definition read_content :: "cgi_request \<Rightarrow> nat \<Rightarrow> string" where
  "read_content req n =
     (let content = take n (rq_stdin req) @ replicate (n - length (rq_stdin req)) CHR '' '';
          postq = cstr (content @ rq_memory req)
      in take n postq @ replicate (n - length postq) NUL)"

definition read_body :: "cgi_request \<Rightarrow> string \<times> cgi_log list" where
  "read_body req =
     (case rq_param req ''CONTENT_LENGTH'' of
        None \<Rightarrow> ([], [])
      | Some s \<Rightarrow>
          (let (n, logs) = content_length s
           in (if 0 < n then read_content req n else [], logs)))"

text \<open>\<open>boost::split\<close> at a character: one more piece than there are separators.\<close>

fun split_at :: "char \<Rightarrow> string \<Rightarrow> string list" where
  "split_at c [] = [[]]"
| "split_at c (x # xs) =
     (if x = c then [] # split_at c xs
      else (case split_at c xs of p # ps \<Rightarrow> (x # p) # ps | [] \<Rightarrow> [[x]]))"

definition cookie_piece :: "string \<Rightarrow> string \<Rightarrow> string \<Rightarrow> string" where
  "cookie_piece name s cookie_value =
     (if has_substr name s then
        (let name_value = split_at CHR ''='' s
         in if length name_value = 2 then name_value ! 1 else cookie_value)
      else cookie_value)"

definition extract_cookie :: "string \<Rightarrow> string option \<Rightarrow> string" where
  "extract_cookie name header =
     (case header of None \<Rightarrow> [] | Some resp \<Rightarrow> fold (cookie_piece name) (split_at CHR '';'' resp) [])"

text \<open>
  Whether a request is an AJAX request, by its header \<open>HTTP_X_REQUESTED_WITH\<close>. Without the header
  \<open>Log::err\<close> is called with the null pointer as its format, which has no defined behaviour.
\<close>

definition is_ajax :: "string option \<Rightarrow> bool option" where
  "is_ajax header =
     (case header of None \<Rightarrow> None | Some x \<Rightarrow> Some (map c_tolower x = ''xmlhttprequest''))"

section \<open>Processing a request\<close>

text \<open>
  The libraries of the program, and what the outside world is at the time of one request: the clocks,
  the memory the test mode starts with, the database client (or the exception of \<open>acquire\<close>), and a
  point in time one year ahead.
\<close>

record ('d, 'p) libs =
  lib_double :: "'d dbl_lib"
  lib_boost :: boost_lib
  lib_time :: "'p time_lib"
  lib_insert :: insert_many

record 'p moment =
  at_time :: int
  at_local :: int
  at_clock :: clock
  at_millis :: int
  at_garbage :: bool
  at_client :: "exn + bool"
  at_year_ahead :: 'p
  at_status :: status_env

text \<open>What the service keeps between requests.\<close>

record service =
  sv_server_name :: string
  sv_base :: base_core
  sv_counters :: counters
  sv_collection :: "document list"

text \<open>The parameters of a request: the chain of setters and \<open>parse\<close>.\<close>

definition request_params ::
  "('d, 'p) libs \<Rightarrow> 'p moment \<Rightarrow> string \<Rightarrow> string \<Rightarrow> string \<Rightarrow> ('d params \<times> cgi_log list) res" where
  "request_params lib m query postq cookie_value =
     res_bind (set_cookie_id (lib_boost lib) (at_time m) cookie_value
                 (set_post postq (set_get query (Params_new (at_local m) (at_garbage m)))))
       (\<lambda>p. let (p, l) = set_json (lib_double lib) postq p;
                (p, l') = parse_params p
            in Inr (p, map While_params_parsed (l @ l')))"

definition visitor_cookie :: "('d, 'p) libs \<Rightarrow> 'p moment \<Rightarrow> config \<Rightarrow> 'd params \<Rightarrow> string" where
  "visitor_cookie lib m c p =
     Cookie_to_string (Cookie_nvc (cookie_name c) (getCookieId p)
       (Credentials_ape (Authority_string (cookie_domain c)) (Path_string (cookie_path c))
          (Expires_ptime (lib_time lib) (at_year_ahead m))))"

text \<open>After the answer: \<open>pool.acquire\<close> and \<open>ProcessSaveResults\<close>, whose exceptions are logged.\<close>

definition save_request ::
  "('d, 'p) libs \<Rightarrow> 'p moment \<Rightarrow> 'd params \<Rightarrow> service \<Rightarrow> service \<times> exn option" where
  "save_request lib m p sv =
     (case at_client m of
        Inl e \<Rightarrow> (sv, Some e)
      | Inr ok \<Rightarrow>
          (let (n, coll, err) = ProcessSaveResults (lib_double lib) (lib_insert lib) ok (at_clock m) p
                 (sv_counters sv) (sv_collection sv)
           in (sv\<lparr>sv_counters := n, sv_collection := coll\<rparr>, err)))"

definition process_ajax ::
  "('d, 'p) libs \<Rightarrow> config \<Rightarrow> cgi_request \<Rightarrow> 'p moment \<Rightarrow> string \<Rightarrow> string \<Rightarrow> string
   \<Rightarrow> 'd core \<times> service \<Rightarrow> cgi_out \<times> cgi_log list \<times> 'd core \<times> service" where
  "process_ajax lib c req m query postq cookie_value st =
     (case res_bind (request_params lib m query postq cookie_value)
             (\<lambda>(p, logs). res_bind (core_Process (lib_double lib) (fst st))
               (\<lambda>(result, core). Inr (p, logs, result, core))) of
        Inl e \<Rightarrow>
          (let (out, logs) = Response_status req 503 no_output
           in (out, While_processing e query # logs, st))
      | Inr (p, logs, result, core) \<Rightarrow>
          (let line = visitor_cookie lib m c p;
               (out, logs') = Response_content req result ''application/json'' line no_output;
               (sv, err) = save_request lib m p (snd st)
           in (out, logs @ logs' @ (case err of None \<Rightarrow> []
                 | Some e \<Rightarrow> [As_format line, As_format result, While_saving e query]), core, sv)))"

definition process_page ::
  "config \<Rightarrow> cgi_request \<Rightarrow> 'p moment \<Rightarrow> string \<Rightarrow> service \<Rightarrow> cgi_out \<times> cgi_log list \<times> service" where
  "process_page c req m query sv =
     (if param (UrlParser_new query) ''show'' = ''status'' then
        (let name = (if sv_server_name sv = []
                     then (case rq_param req ''SERVER_NAME'' of Some s \<Rightarrow> s | None \<Rightarrow> sv_server_name sv)
                     else sv_server_name sv);
             (html, b, n) = BaseCore_Status_text (at_status m) c (at_millis m) name (sv_base sv, sv_counters sv);
             (out, logs) = Response_content req html ''text/html'' [] no_output
         in (out, logs, sv\<lparr>sv_server_name := name, sv_base := b, sv_counters := n\<rparr>))
      else (let (out, logs) = Response_status req 200 no_output in (out, logs, sv)))"

definition ProcessRequest ::
  "('d, 'p) libs \<Rightarrow> config \<Rightarrow> cgi_request \<Rightarrow> 'p moment \<Rightarrow> 'd core \<times> service
   \<Rightarrow> (cgi_out \<times> cgi_log list \<times> 'd core \<times> service) option" where
  "ProcessRequest lib c req m st =
     (if rq_error req \<noteq> 0 then Some (no_output, [Stream_error], st)
      else
        let (query, logs) = (case rq_param req ''QUERY_STRING'' of
               None \<Rightarrow> ([], [Query_not_set]) | Some s \<Rightarrow> (s, []));
            (postq, logs') = read_body req;
            logs = logs @ logs'
        in case rq_param req ''REMOTE_ADDR'' of
             None \<Rightarrow> Some (no_output, logs @ [Address_not_set], st)
           | Some ip \<Rightarrow>
         (case rq_param req ''SCRIPT_NAME'' of
             None \<Rightarrow> Some (no_output, logs @ [Script_not_set], st)
           | Some script_name \<Rightarrow>
         (case is_ajax (rq_param req ''HTTP_X_REQUESTED_WITH'') of
             None \<Rightarrow> None
           | Some ajax \<Rightarrow>
               (let cookie_value = extract_cookie (cookie_name c) (rq_param req ''HTTP_COOKIE'')
                in if ajax then
                     (let (out, logs', st) = process_ajax lib c req m query postq cookie_value st
                      in Some (out, logs @ logs', st))
                   else
                     (let (out, logs', sv) = process_page c req m query (snd st)
                      in Some (out, logs @ logs', fst st, sv))))))"

section \<open>The loop of a thread, and the start of the service\<close>

text \<open>
  \<open>Serve\<close> on the requests it accepts, until the library refuses one: the core is replaced after the
  request with number 10000000. The number is a signed \<open>int\<close>, whose last increment is at 2147483647
  and has no defined result.
\<close>

fun serve ::
  "('d, 'p) libs \<Rightarrow> config \<Rightarrow> (cgi_request \<times> 'p moment) list \<Rightarrow> int \<Rightarrow> 'd core \<times> service
   \<Rightarrow> (cgi_out list \<times> 'd core \<times> service) option" where
  "serve lib c [] count_req st = Some ([], st)"
| "serve lib c ((req, m) # rs) count_req st =
     (case ProcessRequest lib c req m st of
        None \<Rightarrow> None
      | Some (out, logs, core, sv) \<Rightarrow>
          (let core = (if count_req = 10000000 then Core_new else core)
           in if count_req = 2147483647 then None
              else case serve lib c rs (count_req + 1) (core, sv) of
                     None \<Rightarrow> None
                   | Some (outs, st) \<Rightarrow> Some (out # outs, st)))"

definition Serve ::
  "('d, 'p) libs \<Rightarrow> config \<Rightarrow> bool \<Rightarrow> (cgi_request \<times> 'p moment) list \<Rightarrow> service
   \<Rightarrow> (cgi_out list \<times> service) option" where
  "Serve lib c init_ok rs sv =
     (if init_ok then map_option (\<lambda>(outs, core, sv). (outs, sv)) (serve lib c rs 0 (Core_new, sv))
      else Some ([], sv))"

text \<open>\<open>CheckLogDatabase\<close>: the collections of a database with their options.\<close>

record collection_options =
  capped :: bool
  max_documents :: int
  max_size :: int

definition CheckLogDatabase ::
  "config \<Rightarrow> (string \<rightharpoonup> collection_options) \<Rightarrow> (string \<rightharpoonup> collection_options)" where
  "CheckLogDatabase c db =
     (if mongo_log_collection_impression c \<notin> dom db
      then db(mongo_log_collection_impression c \<mapsto>
             \<lparr>capped = True, max_documents = 4000000, max_size = 2147483647\<rparr>)
      else db)"

text \<open>
  The constructor: the database is checked, the socket opened with a queue of four requests per
  thread, then the threads are created. \<open>open_socket\<close> gives a negative number and \<open>create_thread\<close> a
  nonzero one on failure.
\<close>

datatype service_start = Socket_failed | Thread_failed nat | Started nat

fun start_threads :: "(nat \<Rightarrow> int) \<Rightarrow> nat \<Rightarrow> nat \<Rightarrow> service_start" where
  "start_threads create_thread i 0 = Started i"
| "start_threads create_thread i (Suc n) =
     (if create_thread i \<noteq> 0 then Thread_failed i else start_threads create_thread (Suc i) n)"

definition CgiService_new ::
  "config \<Rightarrow> (string \<Rightarrow> int \<Rightarrow> int) \<Rightarrow> (nat \<Rightarrow> int) \<Rightarrow> (string \<rightharpoonup> collection_options)
   \<Rightarrow> (string \<rightharpoonup> collection_options) \<times> service_start" where
  "CgiService_new c open_socket create_thread db =
     (CheckLogDatabase c db,
      if open_socket (server_socket_path c) (server_children c * 4) < 0 then Socket_failed
      else start_threads create_thread 0 (nat (server_children c)))"

section \<open>Signals\<close>

text \<open>
  What the process does on a signal, by its number (\<open>SIGHUP\<close> is 1 and \<open>SIGPIPE\<close> 13): the constructor
  installs the handler for both, and every thread that starts to serve has \<open>SIGPIPE\<close> ignored. The
  handler only writes to the log.
\<close>

datatype disposition = Sig_default | Sig_ignore | Sig_handler

definition install_handlers :: "(nat \<Rightarrow> disposition) \<Rightarrow> nat \<Rightarrow> disposition" where
  "install_handlers d = (let d = d(13 := Sig_ignore); d = d(1 := Sig_handler) in d(13 := Sig_handler))"

definition serve_signals :: "(nat \<Rightarrow> disposition) \<Rightarrow> nat \<Rightarrow> disposition" where
  "serve_signals d = d(13 := Sig_ignore)"

definition SignalHandler :: "nat \<Rightarrow> nat \<Rightarrow> string list" where
  "SignalHandler signum tid =
     (if signum = 1 then [''CgiService: sig hup'']
      else if signum = 13 then [''CgiService: sig pipe sig='' @ string_of_nat signum @ '' tid='' @ string_of_nat tid]
      else [])"

text \<open>
  Once a thread serves, the handler is called for \<open>SIGHUP\<close> only, with its one message; its branch for
  \<open>SIGPIPE\<close> is not reached.
\<close>

lemma serve_signals_again [simp]: "serve_signals (serve_signals d) = serve_signals d"
  by (simp add: serve_signals_def)

theorem pipe_branch_dead:
  "((serve_signals ^^ Suc n) (install_handlers (\<lambda>_. Sig_default)) signum = Sig_handler \<longleftrightarrow> signum = 1)
   \<and> SignalHandler 1 tid = [''CgiService: sig hup'']"
proof -
  have "(serve_signals ^^ Suc n) d = serve_signals d" for d
    by (induction n) simp_all
  then show ?thesis by (simp add: serve_signals_def install_handlers_def SignalHandler_def)
qed

end
