(* ===== verification/CgiLaws.thy ===== *)
theory CgiLaws
  imports CgiService
begin

text \<open>
  What the FastCGI front end guarantees: the body it reads, the cookie it extracts, which requests are
  answered and how, what an answer and its recording change, and what holds over every sequence of
  requests of a thread. The components it calls enter through their own lemmas.
\<close>

section \<open>The body\<close>

lemma read_content_bytes:
  "read_content req n =
    (let content = take n (rq_stdin req) @ replicate (n - length (rq_stdin req)) CHR '' '' in
     cstr content @ replicate (n - length (cstr content)) NUL)"
proof -
  define content where "content = take n (rq_stdin req) @ replicate (n - length (rq_stdin req)) CHR '' ''"
  have len: "length content = n" by (simp add: content_def)
  show ?thesis
  proof (cases "NUL \<in> set content")
    case True
    then have c: "cstr (content @ rq_memory req) = cstr content" by (simp add: cstr_append)
    have "length (cstr content) \<le> n" using length_cstr_le [of content] len by simp
    then show ?thesis using c by (simp add: read_content_def Let_def flip: content_def)
  next
    case False
    then show ?thesis using len by (simp add: read_content_def Let_def cstr_append flip: content_def)
  qed
qed

lemma length_read_content: "length (read_content req n) = n"
proof -
  have "length (cstr (take n (rq_stdin req) @ replicate (n - length (rq_stdin req)) CHR '' '')) \<le> n"
    using length_cstr_le [of "take n (rq_stdin req) @ replicate (n - length (rq_stdin req)) CHR '' ''"] by simp
  then show ?thesis unfolding read_content_bytes Let_def length_append length_replicate by (rule le_add_diff_inverse)
qed

lemma read_content_memory: "read_content (req\<lparr>rq_memory := m\<rparr>) n = read_content req n"
  by (simp add: read_content_bytes)

lemma content_length_le: "fst (content_length s) \<le> STDIN_MAX"
  by (simp add: content_length_def Let_def)

section \<open>The visitor's cookie\<close>

lemma split_at_none: "c \<notin> set s \<Longrightarrow> split_at c s = [s]"
  by (induction s) auto

lemma split_at_append: "c \<notin> set s \<Longrightarrow> split_at c (s @ c # t) = s # split_at c t"
  by (induction s) auto

text \<open>The header a browser sends: its cookies with a separator between them.\<close>

fun join :: "char \<Rightarrow> string list \<Rightarrow> string" where
  "join c [] = []"
| "join c [s] = s"
| "join c (s # t # ss) = s @ c # join c (t # ss)"

lemma split_at_join:
  "\<forall>s\<in>set ss. c \<notin> set s \<Longrightarrow> ss \<noteq> [] \<Longrightarrow> split_at c (join c ss) = ss"
  by (induction c ss rule: join.induct) (simp_all add: split_at_none split_at_append)

lemma fold_other_pieces:
  "\<forall>s\<in>set ss. \<not> has_substr name s \<Longrightarrow> fold (cookie_piece name) ss v = v"
  by (induction ss arbitrary: v) (simp_all add: cookie_piece_def)

lemma cookie_piece_pair:
  assumes "has_substr name (n @ ''='' @ v)" "CHR ''='' \<notin> set n" "CHR ''='' \<notin> set v"
  shows "cookie_piece name (n @ ''='' @ v) old = v"
  using assms by (simp add: cookie_piece_def split_at_append split_at_none)

lemma extract_cookie_joined:
  assumes "\<forall>s\<in>set before \<union> set after. CHR '';'' \<notin> set s" "\<forall>s\<in>set after. \<not> has_substr name s"
    and "has_substr name (n @ ''='' @ v)" "CHR '';'' \<notin> set (n @ v)" "CHR ''='' \<notin> set (n @ v)"
  shows "extract_cookie name (Some (join CHR '';'' (before @ [n @ ''='' @ v] @ after))) = v"
proof -
  have "split_at CHR '';'' (join CHR '';'' (before @ [n @ ''='' @ v] @ after)) = before @ [n @ ''='' @ v] @ after"
    using assms(1,4) by (intro split_at_join) auto
  then show ?thesis using assms(2,3,5)
    by (simp add: extract_cookie_def fold_other_pieces cookie_piece_pair del: append.simps append_assoc)
qed

lemma has_substr_self: "has_substr s (a @ s @ b)"
  unfolding has_substr_iff by blast

section \<open>The parameters of a request\<close>

lemma take_member_cookie_id:
  "(\<And>v q. p_cookie_id (assign v q) = p_cookie_id q) \<Longrightarrow>
    p_cookie_id (fst (take_member site key right_type assign st)) = p_cookie_id (fst st)"
  by (auto simp: take_member_def Let_def split: sum.splits)

lemma parse_params_cookie_id: "p_cookie_id (fst (parse_params p)) = p_cookie_id p"
  by (simp add: parse_params_def Let_def take_member_cookie_id split: sum.splits)

lemma set_json_cookie_id: "p_cookie_id (fst (set_json fl s p)) = p_cookie_id p"
  by (simp add: set_json_def split: sum.splits)

text \<open>The key of a visitor: the digits of the cookie, or the time of the first request.\<close>

definition visitor_id :: "int \<Rightarrow> string \<Rightarrow> string" where
  "visitor_id now cookie = (if cookie = [] then string_of_nat (nat now) else filter c_isdigit cookie)"

lemma visitor_id_digits: "x \<in> set (visitor_id now cookie) \<Longrightarrow> c_isdigit x"
  using string_of_nat_digits by (auto simp: visitor_id_def split: if_splits)

definition keeps_digits :: "boost_lib \<Rightarrow> bool" where
  "keeps_digits bl \<longleftrightarrow> strips_nondigits bl \<and> trims_space_only bl"

lemma request_params_cases:
  fixes lib :: "('d, 'p) libs"
  assumes "keeps_digits (lib_boost lib)" "0 \<le> at_time m"
  shows "(\<exists>e. request_params lib m query postq cookie = Inl e)
    \<or> (\<exists>p logs. request_params lib m query postq cookie = Inr (p, logs) \<and> p_cookie_id p = visitor_id (at_time m) cookie)"
proof (cases "set_cookie_id (lib_boost lib) (at_time m) cookie
    (set_post postq (set_get query (Params_new (at_local m) (at_garbage m)))) :: 'd params res")
  case (Inl e)
  then show ?thesis by (simp add: request_params_def)
next
  case (Inr p0)
  have id: "p_cookie_id p0 = visitor_id (at_time m) cookie"
    using visitor_key [OF _ _ assms(2) Inr] assms(1) by (simp add: keeps_digits_def visitor_id_def)
  obtain p1 l1 where p1: "set_json (lib_double lib) postq p0 = (p1, l1)" by fastforce
  obtain p2 l2 where p2: "parse_params p1 = (p2, l2)" by fastforce
  have "p_cookie_id p2 = p_cookie_id p0"
    using set_json_cookie_id [of "lib_double lib" postq p0] parse_params_cookie_id [of p1] p1 p2 by simp
  then show ?thesis using Inr p1 p2 id by (simp add: request_params_def)
qed

lemma request_params_ok:
  "u32regex_replace (lib_boost lib) cookie ''[^0-9]'' [] = Inr d \<Longrightarrow>
    \<exists>r. request_params lib m query postq cookie = Inr r"
  by (simp add: request_params_def set_cookie_id_def Let_def split: prod.splits)

lemma request_params_throws:
  "cookie \<noteq> [] \<Longrightarrow> u32regex_replace (lib_boost lib) cookie ''[^0-9]'' [] = Inl e \<Longrightarrow>
    request_params lib m query postq cookie = Inl e"
  by (simp add: request_params_def set_cookie_id_def)

lemma visitor_cookie_line:
  "visitor_cookie lib m c p = cookie_name c @ ''='' @ p_cookie_id p @ ''; Path='' @ cookie_path c
     @ ''; Version=1; Max-Age=31536000; Domain='' @ cookie_domain c @ ''; HttpOnly;''"
  by (simp add: visitor_cookie_def Cookie_to_string_def Cookie_nvc_def Credentials_copy_def Credentials_ape_def
      Credentials_to_string_def authority.copy_id cpath.copy_id Authority_string_def Path_string_def
      Authority_call_def Path_call_def getCookieId_def)

section \<open>Answers\<close>

definition answerable :: "cgi_request \<Rightarrow> bool" where
  "answerable req \<longleftrightarrow> rq_error req = 0 \<and> rq_param req ''REMOTE_ADDR'' \<noteq> None \<and> rq_param req ''SCRIPT_NAME'' \<noteq> None"

definition ajax_request :: "cgi_request \<Rightarrow> bool" where
  "ajax_request req \<longleftrightarrow> answerable req \<and> is_ajax (rq_param req ''HTTP_X_REQUESTED_WITH'') = Some True"

text \<open>The requests whose processing the language defines: an answerable one must have the header.\<close>

definition defined_request :: "cgi_request \<Rightarrow> bool" where
  "defined_request req \<longleftrightarrow> (answerable req \<longrightarrow> rq_param req ''HTTP_X_REQUESTED_WITH'' \<noteq> None)"

definition query_of_request :: "cgi_request \<Rightarrow> string" where
  "query_of_request req = (case rq_param req ''QUERY_STRING'' of None \<Rightarrow> [] | Some s \<Rightarrow> s)"

definition cookie_of_request :: "config \<Rightarrow> cgi_request \<Rightarrow> string" where
  "cookie_of_request c req = extract_cookie (cookie_name c) (rq_param req ''HTTP_COOKIE'')"

lemma ProcessRequest_not_answerable:
  "\<not> answerable req \<Longrightarrow> \<exists>log. ProcessRequest lib c req m st = Some (no_output, log, st)"
  by (auto simp: ProcessRequest_def answerable_def Let_def split: option.splits prod.splits)

lemma ProcessRequest_undefined: "\<not> defined_request req \<Longrightarrow> ProcessRequest lib c req m st = None"
  by (auto simp: ProcessRequest_def defined_request_def answerable_def is_ajax_def Let_def
      split: option.splits prod.splits)

lemma ProcessRequest_ajax:
  assumes "ajax_request req"
  obtains out l st' logs
  where "process_ajax lib c req m (query_of_request req) (fst (read_body req)) (cookie_of_request c req) st = (out, l, st')"
    "ProcessRequest lib c req m st = Some (out, logs @ l, st')"
proof -
  obtain out l st' where r:
    "process_ajax lib c req m (query_of_request req) (fst (read_body req)) (cookie_of_request c req) st = (out, l, st')"
    by (metis prod_cases3)
  moreover have "\<exists>logs. ProcessRequest lib c req m st = Some (out, logs @ l, st')"
    using assms r by (auto simp: ProcessRequest_def ajax_request_def answerable_def query_of_request_def
        cookie_of_request_def Let_def split: option.splits prod.splits)
  ultimately show thesis using that by blast
qed

lemma ProcessRequest_page:
  assumes "answerable req" "defined_request req" "\<not> ajax_request req"
  obtains out l sv logs where "process_page c req m (query_of_request req) (snd st) = (out, l, sv)"
    "ProcessRequest lib c req m st = Some (out, logs @ l, fst st, sv)"
proof -
  obtain out l sv where r: "process_page c req m (query_of_request req) (snd st) = (out, l, sv)"
    by (metis prod_cases3)
  moreover have "\<exists>logs. ProcessRequest lib c req m st = Some (out, logs @ l, fst st, sv)"
    using assms r by (auto simp: ProcessRequest_def ajax_request_def defined_request_def answerable_def
        query_of_request_def is_ajax_def Let_def split: option.splits prod.splits)
  ultimately show thesis using that by blast
qed

lemma ajax_defined: "ajax_request req \<Longrightarrow> defined_request req"
  by (auto simp: ajax_request_def defined_request_def is_ajax_def split: option.splits)

lemma request_kinds:
  obtains (silent) "\<not> answerable req" "defined_request req" | (undefined_call) "\<not> defined_request req"
  | (ajax) "ajax_request req" "defined_request req" | (page) "answerable req" "defined_request req" "\<not> ajax_request req"
  using ajax_defined [of req] unfolding defined_request_def by blast

lemma status_html_nonempty: "status_html env p \<noteq> []"
  by (simp add: status_html_def)

lemma Response_content_finished:
  "rq_error req = 0 \<Longrightarrow> content \<noteq> [] \<Longrightarrow> out_finished (fst (Response_content req content t k out))"
  by (simp add: Response_content_def)

lemma Response_status_finished: "rq_error req = 0 \<Longrightarrow> out_finished (fst (Response_status req n out))"
  by (simp add: Response_status_def)

lemma Status_text_nonempty: "BaseCore_Status_text env c now n st = (html, r) \<Longrightarrow> html \<noteq> []"
  by (auto simp: BaseCore_Status_text_def status_html_nonempty apfst_def map_prod_def split: prod.splits)

lemma process_page_finished:
  "rq_error req = 0 \<Longrightarrow> out_finished (fst (process_page c req m query sv))"
  using Response_status_finished [of req 200 no_output]
  by (auto simp: process_page_def Let_def Response_content_def dest!: Status_text_nonempty split: prod.splits)

lemma process_ajax_ok:
  assumes "core_inv core" "request_params lib m query postq cookie = Inr (p, logs)"
  shows "\<exists>logs'. process_ajax lib c req m query postq cookie (core, sv) =
    (fst (Response_content req ok_answer ''application/json'' (visitor_cookie lib m c p) no_output), logs',
     core\<lparr>retJson := JObject [(''status'', JString ''OK'')]\<rparr>, fst (save_request lib m p sv))"
  using core_Process_inv [OF assms(1), of "lib_double lib"] assms(2)
  by (auto simp: process_ajax_def Let_def split: prod.splits)

lemma process_ajax_fails:
  "request_params lib m query postq cookie = Inl e \<Longrightarrow>
    process_ajax lib c req m query postq cookie st =
      (fst (Response_status req 503 no_output),
       While_processing e query # snd (Response_status req 503 no_output), st)"
  by (auto simp: process_ajax_def Let_def split: prod.splits)

section \<open>Reachable states of the service\<close>

text \<open>A thread processes requests, and may get a new core between two of them.\<close>

inductive service_step ::
  "('d, 'p) libs \<Rightarrow> config \<Rightarrow> 'd core \<times> service \<Rightarrow> 'd core \<times> service \<Rightarrow> bool" for lib c where
  request: "ProcessRequest lib c req m st = Some (out, log, st') \<Longrightarrow> service_step lib c st st'"
| renewal: "service_step lib c (core, sv) (Core_new, sv)"

inductive_cases service_stepE: "service_step lib c st st'"

lemma process_ajax_inv:
  assumes "core_inv (fst st)" "process_ajax lib c req m query postq cookie st = (out, log, st')"
  shows "core_inv (fst st')"
proof (cases "request_params lib m query postq cookie")
  case (Inl e)
  then show ?thesis using process_ajax_fails [OF Inl, of c req st] assms by auto
next
  case (Inr r)
  then show ?thesis using process_ajax_ok [of "fst st" lib m query postq cookie "fst r" "snd r" c req "snd st"] assms
    by (auto simp: core_inv_def)
qed

lemma ProcessRequest_core_inv:
  assumes "core_inv (fst st)" "ProcessRequest lib c req m st = Some (out, log, st')"
  shows "core_inv (fst st')"
proof (cases rule: request_kinds [of req])
  case silent
  then show ?thesis using ProcessRequest_not_answerable [OF silent(1), of lib c m st] assms by auto
next
  case undefined_call
  then show ?thesis using assms(2) by (simp add: ProcessRequest_undefined)
next
  case ajax
  show ?thesis by (rule ProcessRequest_ajax [OF ajax(1), of lib c m st])
      (metis assms process_ajax_inv prod.inject option.inject)
next
  case page
  show ?thesis by (rule ProcessRequest_page [OF page, of c m st lib]) (use assms in auto)
qed

interpretation service: invariant_system "\<lambda>st. core_inv (fst st)" "service_step lib c" "\<lambda>st. core_inv (fst st)"
  for lib c
proof
  show "core_inv (fst t)" if "core_inv (fst s)" "service_step lib c s t" for s t
    using that(2)
  proof cases
    case (request req m out log)
    then show ?thesis using ProcessRequest_core_inv that(1) by blast
  qed (simp add: core_inv_def Core_new_def)
qed

lemma Core_new_inv: "core_inv Core_new"
  by (simp add: core_inv_def Core_new_def)

lemma ajax_finished:
  assumes "core_inv (fst st)" "rq_error req = 0"
  shows "out_finished (fst (process_ajax lib c req m query postq cookie st))"
proof (cases "request_params lib m query postq cookie")
  case (Inl e)
  then show ?thesis using Response_status_finished [OF assms(2)] by (simp add: process_ajax_fails)
next
  case (Inr r)
  then show ?thesis
    using process_ajax_ok [of "fst st" lib m query postq cookie "fst r" "snd r" c req "snd st"] assms
      Response_content_finished [OF assms(2), of ok_answer] by (auto simp: ok_answer_def)
qed

lemma finished_iff:
  assumes "core_inv (fst st)"
  shows "map_option (out_finished \<circ> fst) (ProcessRequest lib c req m st) =
    (if defined_request req then Some (answerable req) else None)"
proof (cases rule: request_kinds [of req])
  case silent
  then show ?thesis using ProcessRequest_not_answerable [OF silent(1), of lib c m st] by (auto simp: no_output_def)
next
  case undefined_call
  then show ?thesis by (simp add: ProcessRequest_undefined)
next
  case ajax
  then have a: "answerable req" "rq_error req = 0" by (auto simp: ajax_request_def answerable_def)
  show ?thesis by (rule ProcessRequest_ajax [OF ajax(1), of lib c m st])
      (use a(1) ajax(2) ajax_finished [OF assms a(2), of lib c m] in \<open>auto dest!: arg_cong [of _ _ fst]\<close>)
next
  case page
  then have e: "rq_error req = 0" by (simp add: answerable_def)
  show ?thesis by (rule ProcessRequest_page [OF page, of c m st lib])
      (use page process_page_finished [OF e, of c m] in \<open>auto dest!: arg_cong [of _ _ fst]\<close>)
qed

lemma serve_run:
  assumes "core_inv (fst st)" "\<forall>r\<in>set rs. defined_request (fst r)" "n + int (length rs) \<le> 2147483647"
  shows "\<exists>outs st'. serve lib c rs n st = Some (outs, st') \<and> map out_finished outs = map (answerable \<circ> fst) rs"
  using assms
proof (induction rs arbitrary: n st)
  case (Cons r rs)
  obtain req m where [simp]: "r = (req, m)" by (cases r)
  have fin: "map_option (out_finished \<circ> fst) (ProcessRequest lib c req m st) = Some (answerable req)"
    using finished_iff [OF Cons.prems(1), of lib c req m] Cons.prems(2) by simp
  then obtain out log core sv where r: "ProcessRequest lib c req m st = Some (out, log, core, sv)"
    by (metis prod_cases4 map_option_eq_Some)
  let ?core = "if n = 10000000 then Core_new else core"
  have "core_inv core" using ProcessRequest_core_inv [OF Cons.prems(1) r] by simp
  then have "core_inv (fst (?core, sv))" by (simp add: Core_new_inv)
  then obtain outs st' where "serve lib c rs (n + 1) (?core, sv) = Some (outs, st')"
      "map out_finished outs = map (answerable \<circ> fst) rs"
    using Cons.IH [of "(?core, sv)" "n + 1"] Cons.prems(2,3) by auto
  then show ?case using Cons.prems(3) fin r by (simp add: Let_def)
qed simp

lemma serve_undefined:
  "\<exists>r\<in>set rs. \<not> defined_request (fst r) \<Longrightarrow> serve lib c rs n st = None"
proof (induction rs arbitrary: n st)
  case (Cons r rs)
  obtain req m where [simp]: "r = (req, m)" by (cases r)
  show ?case
  proof (cases "defined_request req")
    case True
    then show ?thesis using Cons by (auto simp: Let_def split: option.splits)
  qed (simp add: ProcessRequest_undefined)
qed simp

section \<open>The log of impressions\<close>

lemma save_impressions:
  assumes "ordered_insert (lib_insert lib)"
  shows "\<exists>docs k. sv_collection (fst (save_request lib m p sv)) = drop k (sv_collection sv @ docs)
    \<and> (\<forall>d\<in>set docs. impression d)"
proof (cases "at_client m")
  case (Inl e)
  then show ?thesis by (intro exI [of _ "[]"] exI [of _ 0]) (simp add: save_request_def)
next
  case (Inr ok)
  obtain n coll err where "ProcessSaveResults (lib_double lib) (lib_insert lib) ok (at_clock m) p
      (sv_counters sv) (sv_collection sv) = (n, coll, err)" by (metis prod_cases3)
  then show ?thesis
    using save_results_impressions [OF assms, of "lib_double lib" ok "at_clock m" p "sv_counters sv" "sv_collection sv"] Inr
    by (simp add: save_request_def del: drop_append)
qed

lemma save_counts_one:
  "request_processed (sv_counters (fst (save_request lib m p sv))) =
    request_processed (sv_counters sv) + (if isl (at_client m) then 0 else 1)"
proof (cases "at_client m")
  case (Inr ok)
  obtain k r s where "fst (ProcessSaveResults (lib_double lib) (lib_insert lib) ok (at_clock m) p
        (sv_counters sv) (sv_collection sv)) =
      (sv_counters sv)\<lparr>request_processed := request_processed (sv_counters sv) + 1,
        offer_processed := offer_processed (sv_counters sv) + word_of_nat k,
        retargeting_processed := retargeting_processed (sv_counters sv) + word_of_nat r,
        social_processed := social_processed (sv_counters sv) + word_of_nat s\<rparr>"
    using save_results_bounds by blast
  then show ?thesis using Inr by (auto simp: save_request_def Let_def split: prod.splits)
qed (simp add: save_request_def)

lemma page_keeps:
  assumes "process_page c req m query sv = (out, l, sv')"
  shows "sv_collection sv' = sv_collection sv" "request_processed (sv_counters sv') = request_processed (sv_counters sv)"
  using assms by (auto simp: process_page_def BaseCore_Status_text_def BaseCore_Status_def Let_def
      split: prod.splits if_splits)

lemma ajax_state:
  assumes "core_inv (fst st)" "process_ajax lib c req m query postq cookie st = (out, l, st')"
  obtains (failed) "snd st' = snd st" | (saved) p where "snd st' = fst (save_request lib m p (snd st))"
proof (cases "request_params lib m query postq cookie")
  case (Inl e)
  then show ?thesis using process_ajax_fails [OF Inl, of c req st] assms failed by auto
next
  case (Inr r)
  then show ?thesis
    using process_ajax_ok [of "fst st" lib m query postq cookie "fst r" "snd r" c req "snd st"] assms saved
    by auto
qed

lemma request_collection:
  assumes "core_inv (fst st)" "ProcessRequest lib c req m st = Some (out, log, st')"
  obtains (same) "sv_collection (snd st') = sv_collection (snd st)"
  | (saved) p where "snd st' = fst (save_request lib m p (snd st))"
proof (cases rule: request_kinds [of req])
  case silent
  then show ?thesis using ProcessRequest_not_answerable [OF silent(1), of lib c m st] assms same by auto
next
  case undefined_call
  then show ?thesis using assms(2) by (simp add: ProcessRequest_undefined)
next
  case ajax
  obtain out' l st2 logs where r:
    "process_ajax lib c req m (query_of_request req) (fst (read_body req)) (cookie_of_request c req) st = (out', l, st2)"
    "ProcessRequest lib c req m st = Some (out', logs @ l, st2)"
    using ProcessRequest_ajax [OF ajax(1)] by metis
  then have "st2 = st'" using assms(2) by simp
  then show ?thesis using ajax_state [OF assms(1) r(1)] same saved by metis
next
  case page
  obtain out' l sv logs where r: "process_page c req m (query_of_request req) (snd st) = (out', l, sv)"
    "ProcessRequest lib c req m st = Some (out', logs @ l, fst st, sv)"
    using ProcessRequest_page [OF page] by metis
  then show ?thesis using page_keeps(1) [OF r(1)] assms(2) same by auto
qed

lemma drop_append_both: "drop k (drop j xs @ ys) = drop (min j (length xs) + k) (xs @ ys)"
  by (cases "j \<le> length xs") (simp_all add: add.commute)

section \<open>A service for the concrete instances\<close>

definition sample_libs :: "(int, int) libs" where
  "sample_libs = \<lparr>lib_double = int_dbl, lib_boost = plain_boost,
     lib_time = \<lparr>time_from_string = (\<lambda>s. Inr 0), from_time_t = (\<lambda>t. t), mk_ptime = (\<lambda>d t. Inr 0),
       format_time = (\<lambda>f t. string_of_int t)\<rparr>,
     lib_insert = (\<lambda>coll docs. (drop (length (coll @ docs) - 4000000) (coll @ docs), None))\<rparr>"

definition sample_moment :: "int moment" where
  "sample_moment = \<lparr>at_time = 1500000000, at_local = 0,
     at_clock = \<lparr>local_seconds = 0, universal_seconds = 0, now_ms = 0\<rparr>, at_millis = 0, at_garbage = False,
     at_client = Inl (Foreign_exn ''pool''), at_year_ahead = 0,
     at_status = \<lparr>st_local_time = [], st_started = [], st_cpu_user = [], st_cpu_sys = [], st_rss = 0\<rparr>\<rparr>"

definition sample_config :: config where
  "sample_config = blank_config\<lparr>cookie_name := ''id'', cookie_path := ''/''\<rparr>"

definition sample_request :: cgi_request where
  "sample_request = \<lparr>rq_error = 0,
     rq_param = [''REMOTE_ADDR'' \<mapsto> ''10.0.0.1'', ''SCRIPT_NAME'' \<mapsto> ''/log'',
       ''HTTP_X_REQUESTED_WITH'' \<mapsto> ''XMLHttpRequest'', ''HTTP_COOKIE'' \<mapsto> ''a=b;id=42''],
     rq_stdin = ''{}'', rq_memory = []\<rparr>"

definition sample_service :: service where
  "sample_service = \<lparr>sv_server_name = [], sv_base = BaseCore_new 0, sv_counters = zero_counters,
     sv_collection = []\<rparr>"

lemma sample_laws:
  "keeps_digits (lib_boost sample_libs)" "0 \<le> at_time sample_moment" "ordered_insert (lib_insert sample_libs)"
  "ajax_request sample_request" "cookie_of_request sample_config sample_request = ''42''"
proof -
  show "keeps_digits (lib_boost sample_libs)"
    using plain_boost_laws by (simp add: keeps_digits_def sample_libs_def)
  show "ajax_request sample_request"
    by (simp add: ajax_request_def answerable_def is_ajax_def sample_request_def c_tolower_def in_range_def
        char_of_eq_iff)
  show "cookie_of_request sample_config sample_request = ''42''"
    by (simp add: cookie_of_request_def sample_config_def sample_request_def extract_cookie_def cookie_piece_def)
  have "\<exists>j k. drop (length (coll @ docs) - 4000000) (coll @ docs) = drop k (coll @ take j docs)" for coll docs :: "document list"
    by (rule exI [of _ "length docs"]) (simp only: take_all_iff [THEN iffD2, OF le_refl], blast)
  then show "ordered_insert (lib_insert sample_libs)"
    by (simp only: ordered_insert_def sample_libs_def libs.simps fst_conv) blast
qed (simp_all add: sample_moment_def)


lemmas sample_reached = rtranclp.rtrancl_refl [of "service_step sample_libs sample_config" "(Core_new, sample_service)"]

section \<open>Properties\<close>

text \<open>
  Property C1: the answer to an AJAX request, in every state a thread can reach: status 200, the text
  \<open>{"status":"OK"}\<close>, and the cookie of the visitor, whose key is made of the digits of the cookie that
  came with the request (or is the time, for a visitor without one). It does not depend on the body,
  the query, the clocks or the database.
\<close>

theorem ajax_answer:
  assumes "(service_step lib c)\<^sup>*\<^sup>* (Core_new, sv0) st" "ajax_request req"
    and "keeps_digits (lib_boost lib)" "0 \<le> at_time m"
    and "u32regex_replace (lib_boost lib) (cookie_of_request c req) ''[^0-9]'' [] = Inr d"
  shows "map_option fst (ProcessRequest lib c req m st) =
    Some (fst (Response_content req ok_answer ''application/json''
      (cookie_name c @ ''='' @ visitor_id (at_time m) (cookie_of_request c req) @ ''; Path='' @ cookie_path c
        @ ''; Version=1; Max-Age=31536000; Domain='' @ cookie_domain c @ ''; HttpOnly;'') no_output))"
proof -
  have inv: "core_inv (fst st)" using service.inv_reachable [OF _ assms(1)] by (simp add: Core_new_inv)
  obtain p logs where p: "request_params lib m (query_of_request req) (fst (read_body req)) (cookie_of_request c req)
      = Inr (p, logs)" "p_cookie_id p = visitor_id (at_time m) (cookie_of_request c req)"
    using request_params_cases [OF assms(3,4)] request_params_ok [OF assms(5)] by (metis sum.distinct(1))
  show ?thesis
    by (rule ProcessRequest_ajax [OF assms(2), of lib c m st])
      (use process_ajax_ok [OF inv p(1), of c req "snd st"] p(2) in \<open>auto simp: visitor_cookie_line\<close>)
qed

theorem ajax_answer_witness:
  "map_option fst (ProcessRequest sample_libs sample_config sample_request sample_moment (Core_new, sample_service)) =
    Some (fst (Response_content sample_request ok_answer ''application/json''
      ''id=42; Path=/; Version=1; Max-Age=31536000; Domain=; HttpOnly;'' no_output))"
proof -
  have d: "u32regex_replace (lib_boost sample_libs) ''42'' ''[^0-9]'' [] = Inr ''42''"
    by (simp add: sample_libs_def plain_boost_def c_isdigit_def in_range_def)
  show ?thesis
    using ajax_answer [OF sample_reached sample_laws(4,1,2), unfolded sample_laws(5), OF d]
    by (simp add: sample_config_def blank_config_def visitor_id_def c_isdigit_def in_range_def)
qed

text \<open>
  Property C11: an exception of the cookie's regular expression is answered with status 503 and an
  entry in the log, and nothing changes: no cookie is set, nothing is recorded or counted.
\<close>

theorem ajax_failure:
  assumes "ajax_request req" "cookie_of_request c req \<noteq> []"
    and "u32regex_replace (lib_boost lib) (cookie_of_request c req) ''[^0-9]'' [] = Inl e"
  shows "\<exists>logs logs'. ProcessRequest lib c req m st = Some
    (fst (Response_status req 503 no_output), logs @ While_processing e (query_of_request req) # logs', st)"
  by (rule ProcessRequest_ajax [OF assms(1), of lib c m st])
    (auto simp: process_ajax_fails [OF request_params_throws [OF assms(2,3)]])

theorem ajax_failure_witness:
  "\<exists>logs logs'. ProcessRequest (sample_libs\<lparr>lib_boost := plain_boost\<lparr>u32regex_replace := \<lambda>s t u. Inl (Foreign_exn s)\<rparr>\<rparr>)
     sample_config sample_request sample_moment (Core_new, sample_service) = Some
    (fst (Response_status sample_request 503 no_output),
     logs @ While_processing (Foreign_exn ''42'') (query_of_request sample_request) # logs', Core_new, sample_service)"
  by (rule ajax_failure [OF sample_laws(4)]) (simp_all add: sample_laws(5))

text \<open>
  Property C3: what happens after the answer cannot spoil it: for every outcome of acquiring a
  database client and of the insertion, exceptions included, the answer and the core are the same.
\<close>

theorem save_failure_isolated:
  "map_option (\<lambda>(out, logs, core, sv). (out, core))
      (ProcessRequest (lib\<lparr>lib_insert := ins\<rparr>) c req (m\<lparr>at_client := client\<rparr>) st)
    = map_option (\<lambda>(out, logs, core, sv). (out, core)) (ProcessRequest lib c req m st)"
proof -
  let ?l = "lib\<lparr>lib_insert := ins\<rparr>" and ?m = "m\<lparr>at_client := client\<rparr>"
  let ?answer = "\<lambda>r :: cgi_out \<times> cgi_log list \<times> 'a core \<times> service. (fst r, fst (snd (snd r)))"
  have params: "request_params ?l ?m q b k = request_params lib m q b k" for q b k by (simp add: request_params_def)
  have line: "visitor_cookie ?l ?m c p = visitor_cookie lib m c p" for p by (simp add: visitor_cookie_def)
  have ajax: "?answer (process_ajax ?l c req ?m q b k st) = ?answer (process_ajax lib c req m q b k st)" for q b k
    by (auto simp: process_ajax_def params line Let_def split: sum.splits prod.splits)
  have page: "process_page c req ?m q sv = process_page c req m q sv" for q sv by (simp add: process_page_def)
  show ?thesis
  proof (cases rule: request_kinds [of req])
    case silent
    show ?thesis
      using ProcessRequest_not_answerable [OF silent(1), of lib c m st]
        ProcessRequest_not_answerable [OF silent(1), of ?l c ?m st] by auto
  next
    case undefined_call
    then show ?thesis by (simp add: ProcessRequest_undefined)
  next
    case req: ajax
    show ?thesis
      by (rule ProcessRequest_ajax [OF req(1), of lib c m st], rule ProcessRequest_ajax [OF req(1), of ?l c ?m st])
        (use ajax [of "query_of_request req" "fst (read_body req)" "cookie_of_request c req"] in
          \<open>auto split: prod.splits\<close>)
  next
    case req: page
    show ?thesis
      by (rule ProcessRequest_page [OF req, of c m st lib], rule ProcessRequest_page [OF req, of c ?m st ?l])
        (use page in auto)
  qed
qed

text \<open>
  Property C2: which requests are answered: over every sequence of fewer than $2^{31}$ requests of a
  thread, from a new core on, exactly those whose stream is intact and that name the remote address and
  the script get a finished answer; an error in one of them does not stop the others. The one exception
  is an answerable request without the header \<open>HTTP_X_REQUESTED_WITH\<close>: the code then has no defined
  behaviour, and the sequence has no result.
\<close>

theorem serve_answers:
  assumes "length rs < 2 ^ 31"
  shows "map_option (\<lambda>r. map out_finished (fst r)) (Serve lib c True rs sv) =
    (if \<forall>r\<in>set rs. defined_request (fst r) then Some (map (answerable \<circ> fst) rs) else None)"
proof (cases "\<forall>r\<in>set rs. defined_request (fst r)")
  case True
  obtain outs st where "serve lib c rs 0 (Core_new, sv) = Some (outs, st)"
      "map out_finished outs = map (answerable \<circ> fst) rs"
    using serve_run [of "(Core_new, sv)" rs 0 lib c] assms True by (auto simp: Core_new_inv)
  then show ?thesis using True by (simp add: Serve_def split: prod.splits)
next
  case False
  then show ?thesis by (auto simp: Serve_def serve_undefined)
qed

theorem serve_answers_witness:
  "map_option (\<lambda>r. map out_finished (fst r)) (Serve sample_libs sample_config True
     [(sample_request, sample_moment), (sample_request\<lparr>rq_error := 1\<rparr>, sample_moment), (sample_request, sample_moment)]
     sample_service) = Some [True, False, True]
   \<and> map_option (\<lambda>r. map out_finished (fst r)) (Serve sample_libs sample_config True
     [(sample_request\<lparr>rq_param := [''REMOTE_ADDR'' \<mapsto> [], ''SCRIPT_NAME'' \<mapsto> []]\<rparr>, sample_moment)] sample_service) = None"
proof -
  have "answerable sample_request" "defined_request sample_request"
    using sample_laws(4) ajax_defined by (auto simp: ajax_request_def)
  then show ?thesis
    by (auto simp: serve_answers) (simp_all add: answerable_def defined_request_def)
qed

text \<open>
  The other requests get no output at all and leave the service as it is.
\<close>

theorem request_ignored:
  assumes "\<not> answerable req"
  shows "\<exists>log. ProcessRequest lib c req m st = Some (no_output, log, st)"
  using assms by (rule ProcessRequest_not_answerable)

theorem request_ignored_witness:
  "\<exists>log. ProcessRequest sample_libs sample_config (sample_request\<lparr>rq_param := Map.empty\<rparr>) sample_moment
     (Core_new, sample_service) = Some (no_output, log, Core_new, sample_service)"
  by (rule request_ignored) (simp add: answerable_def)

text \<open>
  Property C4: the log of impressions. In every state that a thread reaches, whatever the requests and
  the errors, the collection is an end of: what it was at the start, and behind it impressions, that is
  documents with the fixed fields of an impression, in their order and of their types. So nothing
  is ever changed, reordered or put in between, and a document leaves the log only when all older ones
  have left. The insertion is that of the library: ordered, of a part of the documents when it throws,
  into a collection that drops its oldest documents when it is full.
\<close>

theorem log_keeps_order:
  assumes "(service_step lib c)\<^sup>*\<^sup>* (Core_new, sv) st" "ordered_insert (lib_insert lib)"
  shows "\<exists>docs k. sv_collection (snd st) = drop k (sv_collection sv @ docs) \<and> (\<forall>d\<in>set docs. impression d)"
  using assms(1)
proof (induction rule: rtranclp_induct)
  case base
  show ?case by (intro exI [of _ "[]"] exI [of _ 0]) simp
next
  case (step st st')
  have inv: "core_inv (fst st)" using service.inv_reachable [OF _ step.hyps(1)] by (simp add: Core_new_inv)
  have "\<exists>docs k. sv_collection (snd st') = drop k (sv_collection (snd st) @ docs) \<and> (\<forall>d\<in>set docs. impression d)"
    using step.hyps(2)
  proof cases
    case (request req m out log)
    show ?thesis
    proof (cases rule: request_collection [OF inv request])
      case 1
      then show ?thesis by (intro exI [of _ "[]"] exI [of _ 0]) simp
    next
      case (2 p)
      then show ?thesis using save_impressions [OF assms(2)] by simp
    qed
  qed (intro exI [of _ "[]"] exI [of _ 0], simp)
  then obtain more k' where more: "sv_collection (snd st') = drop k' (sv_collection (snd st) @ more)"
    "\<forall>d\<in>set more. impression d" by blast
  obtain docs k where docs: "sv_collection (snd st) = drop k (sv_collection sv @ docs)"
    "\<forall>d\<in>set docs. impression d" using step.IH by blast
  have "\<forall>d\<in>set (docs @ more). impression d" using more(2) docs(2) by auto
  moreover have "sv_collection (snd st') = drop (min k (length (sv_collection sv @ docs)) + k') (sv_collection sv @ docs @ more)"
    unfolding more(1) docs(1) drop_append_both append_assoc by (rule refl)
  ultimately show ?case by blast
qed

theorem log_keeps_order_witness:
  "\<exists>out log st docs k. ProcessRequest sample_libs sample_config sample_request (sample_moment\<lparr>at_client := Inr True\<rparr>)
      (Core_new, sample_service) = Some (out, log, st)
    \<and> sv_collection (snd st) = drop k (sv_collection sample_service @ docs) \<and> (\<forall>d\<in>set docs. impression d)"
proof -
  let ?m = "sample_moment\<lparr>at_client := Inr True\<rparr>"
  obtain out log st where r: "ProcessRequest sample_libs sample_config sample_request ?m (Core_new, sample_service)
      = Some (out, log, st)"
    by (rule ProcessRequest_ajax [OF sample_laws(4), of sample_libs sample_config ?m "(Core_new, sample_service)"])
  then have "(service_step sample_libs sample_config)\<^sup>*\<^sup>* (Core_new, sample_service) st"
    by (intro r_into_rtranclp request)
  then show ?thesis using log_keeps_order [OF _ sample_laws(3), of sample_config sample_service st] r by blast
qed

text \<open>
  Property C10: a request is counted when its results are recorded, once, and not when it is answered:
  an AJAX request whose parameters could be set adds one to the counter if a database client could be
  had and nothing otherwise, and a page adds nothing. Only an answerable request without the header
  \<open>HTTP_X_REQUESTED_WITH\<close> has no defined result.
\<close>

theorem request_counted:
  assumes "(service_step lib c)\<^sup>*\<^sup>* (Core_new, sv0) st" "answerable req"
    and "u32regex_replace (lib_boost lib) (cookie_of_request c req) ''[^0-9]'' [] = Inr d"
  shows "map_option (\<lambda>(out, logs, core, sv). request_processed (sv_counters sv)) (ProcessRequest lib c req m st) =
    (if defined_request req
     then Some (request_processed (sv_counters (snd st)) + (if ajax_request req \<and> \<not> isl (at_client m) then 1 else 0))
     else None)"
proof (cases rule: request_kinds [of req])
  case silent
  then show ?thesis using assms(2) by simp
next
  case undefined_call
  then show ?thesis by (simp add: ProcessRequest_undefined)
next
  case ajax
  have inv: "core_inv (fst st)" using service.inv_reachable [OF _ assms(1)] by (simp add: Core_new_inv)
  obtain p logs where p: "request_params lib m (query_of_request req) (fst (read_body req)) (cookie_of_request c req)
      = Inr (p, logs)" using request_params_ok [OF assms(3)] by (metis prod.exhaust)
  show ?thesis
    by (rule ProcessRequest_ajax [OF ajax(1), of lib c m st])
      (use process_ajax_ok [OF inv p, of c req "snd st"] ajax in \<open>auto simp: save_counts_one\<close>)
next
  case page
  show ?thesis
    by (rule ProcessRequest_page [OF page, of c m st lib]) (use page_keeps(2) page in auto)
qed

theorem request_counted_witness:
  "map_option (\<lambda>(out, logs, core, sv). request_processed (sv_counters sv)) (ProcessRequest sample_libs sample_config
     sample_request (sample_moment\<lparr>at_client := Inr True\<rparr>) (Core_new, sample_service)) = Some 1"
proof -
  have "u32regex_replace (lib_boost sample_libs) (cookie_of_request sample_config sample_request) ''[^0-9]'' [] = Inr ''42''"
    by (simp add: sample_laws(5)) (simp add: sample_libs_def plain_boost_def c_isdigit_def in_range_def)
  moreover have "answerable sample_request" using sample_laws(4) by (simp add: ajax_request_def)
  ultimately show ?thesis
    using request_counted [OF sample_reached, of sample_request "''42''" "sample_moment\<lparr>at_client := Inr True\<rparr>"]
      sample_laws(4) ajax_defined [OF sample_laws(4)] by (simp add: sample_service_def zero_counters_def)
qed

text \<open>
  Property C5: the visitor keeps the key: a browser that stores the cookie line of an answer and sends
  the pair back, among cookies that do not contain the name, gives \<open>ProcessRequest\<close> the same key again.
\<close>

theorem visitor_cookie_returned:
  assumes "CHR '';'' \<notin> set (cookie_name c)" "CHR ''='' \<notin> set (cookie_name c)"
    and "\<forall>x\<in>set (getCookieId p). c_isdigit x" "set blank \<subseteq> {CHR '' ''}"
    and "\<forall>s\<in>set before \<union> set after. CHR '';'' \<notin> set s \<and> \<not> has_substr (cookie_name c) s"
    and "header_pair (visitor_cookie lib m c p) = (k, v)"
  shows "extract_cookie (cookie_name c) (Some (join CHR '';'' (before @ [blank @ k @ ''='' @ v] @ after))) = getCookieId p"
proof -
  have d: "CHR '';'' \<notin> set (getCookieId p)" "CHR ''='' \<notin> set (getCookieId p)"
    using assms(3) by (auto simp: c_isdigit_def in_range_def)
  have kv: "k = cookie_name c" "v = getCookieId p"
    using assms(6) header_pair_to_string [of "Cookie_nvc (cookie_name c) (getCookieId p)
        (Credentials_ape (Authority_string (cookie_domain c)) (Path_string (cookie_path c))
          (Expires_ptime (lib_time lib) (at_year_ahead m)))"] assms(1,2) d
    by (simp_all add: visitor_cookie_def Cookie_nvc_def)
  have "has_substr (cookie_name c) (blank @ cookie_name c @ ''='' @ getCookieId p)" by (rule has_substr_self)
  then have "extract_cookie (cookie_name c)
      (Some (join CHR '';'' (before @ [(blank @ k) @ ''='' @ v] @ after))) = getCookieId p"
    using assms(1,2,4,5) d by (subst extract_cookie_joined) (auto simp: kv)
  then show ?thesis by simp
qed

theorem visitor_cookie_returned_witness:
  "extract_cookie ''id'' (Some ''a=b; id=42;c=d'') = ''42''"
  using visitor_cookie_returned [of sample_config "(Params_new 0 False :: int params)\<lparr>p_cookie_id := ''42''\<rparr>" "'' ''"
      "[''a=b'']" "[''c=d'']" sample_libs sample_moment "''id''" "''42''"]
  by (simp add: sample_config_def blank_config_def getCookieId_def c_isdigit_def in_range_def
      visitor_cookie_line header_pair_def)

text \<open>
  The name is searched as a part of the text: a later cookie of any name that contains the
  configured one, or whose value does, replaces the visitor's key.
\<close>

theorem cookie_by_substring:
  assumes "\<forall>s\<in>set before. CHR '';'' \<notin> set s" "has_substr name (n @ ''='' @ v)"
    and "CHR '';'' \<notin> set (n @ v)" "CHR ''='' \<notin> set (n @ v)"
  shows "extract_cookie name (Some (join CHR '';'' (before @ [n @ ''='' @ v]))) = v"
  using extract_cookie_joined [of before "[]" name n v] assms by simp

theorem cookie_by_substring_witness: "extract_cookie ''id'' (Some ''id=42;x=id7'') = ''id7''"
  using cookie_by_substring [of "[''id=42'']" "''id''" "''x''" "''id7''"] by simp

text \<open>
  Property C31: the body. At most \<open>STDIN_MAX\<close> bytes are read; the text has exactly the length that is
  read, and what lies in memory behind the buffer, which is not terminated, does not show in it. A
  body without NUL characters that is long enough is taken as it is.
\<close>

theorem request_body:
  "fst (content_length s) \<le> STDIN_MAX
   \<and> length (read_content req n) = n
   \<and> read_content (req\<lparr>rq_memory := mem\<rparr>) n = read_content req n
   \<and> (n \<le> length (rq_stdin req) \<and> NUL \<notin> set (take n (rq_stdin req)) \<longrightarrow> read_content req n = take n (rq_stdin req))"
  by (simp add: content_length_le length_read_content read_content_memory) (simp add: read_content_bytes)

theorem request_body_witness: "read_content (sample_request\<lparr>rq_memory := ''xyz''\<rparr>) 2 = ''{}''"
  using request_body [of "''2''" "sample_request\<lparr>rq_memory := ''xyz''\<rparr>" 2 "''q''"]
  by (simp add: sample_request_def NUL_def)

end
