(* ===== verification/Threads.thy ===== *)
theory Threads
  imports Prelude
begin

text \<open>
  The threads of \<open>CgiService::Serve\<close> side by side: the mutex around the acceptance of a request, and
  the counter \<open>request_processed_\<close>, a global \<open>unsigned long\<close> without a lock, whose increment in
  \<open>Core::ProcessSaveResults\<close> reads the memory and writes it in a second step. The rest of a request
  does not touch what the threads share here.
\<close>

section \<open>The state\<close>

text \<open>Where a thread is: before the lock, in \<open>FCGX_Accept_r\<close>, behind it with its result, and so on.\<close>

datatype place =
    At_lock
  | In_accept
  | Accepted bool
  | In_request
  | Incrementing u64
  | Ended

text \<open>
  \<open>th_recorded\<close> is not in the program: it counts the increments that were carried out.
\<close>

record threads =
  th_place :: "nat \<Rightarrow> place"
  th_mutex :: "nat option"
  th_count :: u64
  th_recorded :: nat

definition threads_start :: threads where
  "threads_start = \<lparr>th_place = (\<lambda>i. At_lock), th_mutex = None, th_count = 0, th_recorded = 0\<rparr>"

definition goto :: "nat \<Rightarrow> place \<Rightarrow> threads \<Rightarrow> threads" where
  "goto i p s = s\<lparr>th_place := (th_place s)(i := p)\<rparr>"

section \<open>The steps of a thread\<close>

text \<open>
  \<open>Accept ok\<close>: the library returns a request, or refuses (a negative result), after which the thread
  leaves its loop. \<open>Leave\<close>: a request that records nothing is done.
\<close>

datatype action = Lock | Accept bool | Unlock | Read_counter | Write_counter | Leave

fun act :: "nat \<Rightarrow> action \<Rightarrow> threads \<Rightarrow> threads option" where
  "act i Lock s =
     (if th_place s i = At_lock \<and> th_mutex s = None then Some (goto i In_accept (s\<lparr>th_mutex := Some i\<rparr>)) else None)"
| "act i (Accept ok) s =
     (if th_place s i = In_accept then Some (goto i (Accepted ok) s) else None)"
| "act i Unlock s =
     (case th_place s i of
        Accepted ok \<Rightarrow> Some (goto i (if ok then In_request else Ended) (s\<lparr>th_mutex := None\<rparr>))
      | _ \<Rightarrow> None)"
| "act i Read_counter s =
     (if th_place s i = In_request then Some (goto i (Incrementing (th_count s)) s) else None)"
| "act i Write_counter s =
     (case th_place s i of
        Incrementing v \<Rightarrow> Some (goto i At_lock (s\<lparr>th_count := v + 1, th_recorded := th_recorded s + 1\<rparr>))
      | _ \<Rightarrow> None)"
| "act i Leave s = (if th_place s i = In_request then Some (goto i At_lock s) else None)"

text \<open>A step of \<open>n\<close> threads is a step of one of them; a schedule says which ones move and how.\<close>

inductive thread_step :: "nat \<Rightarrow> threads \<Rightarrow> threads \<Rightarrow> bool" for n where
  move: "i < n \<Longrightarrow> act i a s = Some t \<Longrightarrow> thread_step n s t"

inductive_cases thread_stepE: "thread_step n s t"

fun schedule :: "(nat \<times> action) list \<Rightarrow> threads \<Rightarrow> threads option" where
  "schedule [] s = Some s"
| "schedule ((i, a) # as) s = (case act i a s of None \<Rightarrow> None | Some t \<Rightarrow> schedule as t)"

lemma schedule_reaches:
  "schedule as s = Some t \<Longrightarrow> \<forall>x\<in>set as. fst x < n \<Longrightarrow> (thread_step n)\<^sup>*\<^sup>* s t"
  by (induction as s rule: schedule.induct)
    (auto split: option.splits intro: thread_step.move converse_rtranclp_into_rtranclp)

section \<open>Invariants\<close>

text \<open>The owner of the mutex is the thread between the lock and the unlock; only the \<open>n\<close> threads move.\<close>

definition inside :: "place \<Rightarrow> bool" where
  "inside p \<longleftrightarrow> (case p of In_accept \<Rightarrow> True | Accepted ok \<Rightarrow> True | _ \<Rightarrow> False)"

definition mutex_inv :: "nat \<Rightarrow> threads \<Rightarrow> bool" where
  "mutex_inv n s \<longleftrightarrow> (\<forall>i. inside (th_place s i) \<longleftrightarrow> th_mutex s = Some i)
     \<and> (\<forall>i. n \<le> i \<longrightarrow> th_place s i = At_lock)"

text \<open>No thread has read, and the memory does not hold, more than was counted.\<close>

definition count_inv :: "threads \<Rightarrow> bool" where
  "count_inv s \<longleftrightarrow> unat (th_count s) \<le> th_recorded s
     \<and> (\<forall>i v. th_place s i = Incrementing v \<longrightarrow> unat v \<le> th_recorded s)"

text \<open>With one thread, what was read is still what the memory holds.\<close>

definition alone_inv :: "threads \<Rightarrow> bool" where
  "alone_inv s \<longleftrightarrow> th_count s = of_nat (th_recorded s)
     \<and> (\<forall>v. th_place s 0 = Incrementing v \<longrightarrow> v = th_count s)"

lemma act_cases:
  assumes "act i a s = Some t"
  obtains (lock) "a = Lock" "th_place s i = At_lock" "th_mutex s = None"
      "t = goto i In_accept (s\<lparr>th_mutex := Some i\<rparr>)"
    | (accept) ok where "a = Accept ok" "th_place s i = In_accept" "t = goto i (Accepted ok) s"
    | (unlock) ok where "a = Unlock" "th_place s i = Accepted ok"
      "t = goto i (if ok then In_request else Ended) (s\<lparr>th_mutex := None\<rparr>)"
    | (load) "a = Read_counter" "th_place s i = In_request" "t = goto i (Incrementing (th_count s)) s"
    | (store) v where "a = Write_counter" "th_place s i = Incrementing v"
      "t = goto i At_lock (s\<lparr>th_count := v + 1, th_recorded := th_recorded s + 1\<rparr>)"
    | (leave) "a = Leave" "th_place s i = In_request" "t = goto i At_lock s"
  using assms by (cases a) (auto split: if_splits place.splits)

lemma mutex_inv_step: "mutex_inv n s \<Longrightarrow> thread_step n s t \<Longrightarrow> mutex_inv n t"
  by (erule thread_stepE, erule act_cases)
    (simp_all add: mutex_inv_def goto_def inside_def split: if_splits; metis option.inject place.simps)+

lemma unat_add_1_le: "unat (v + 1 :: u64) \<le> Suc (unat v)"
  using mod_less_eq_dividend [of "unat v + 1" "2 ^ 64"] by (simp add: unat_word_ariths)

lemma count_inv_step: "count_inv s \<Longrightarrow> thread_step n s t \<Longrightarrow> count_inv t"
  by (erule thread_stepE, erule act_cases)
    (auto simp: count_inv_def goto_def intro: le_SucI order_trans [OF unat_add_1_le] split: if_splits)

lemma alone_inv_step: "alone_inv s \<Longrightarrow> thread_step 1 s t \<Longrightarrow> alone_inv t"
  by (erule thread_stepE, erule act_cases) (auto simp: alone_inv_def goto_def split: if_splits)

lemma start_inv: "mutex_inv n threads_start" "count_inv threads_start" "alone_inv threads_start"
  by (simp_all add: threads_start_def mutex_inv_def count_inv_def alone_inv_def inside_def)

interpretation mutex: invariant_system "\<lambda>s. s = threads_start" "thread_step n" "mutex_inv n" for n
  by unfold_locales (auto intro: mutex_inv_step start_inv)

interpretation counting: invariant_system "\<lambda>s. s = threads_start" "thread_step n" count_inv for n
  by unfold_locales (auto intro: count_inv_step start_inv)

interpretation alone: invariant_system "\<lambda>s. s = threads_start" "thread_step 1" alone_inv
  by unfold_locales (blast intro: alone_inv_step start_inv)+

text \<open>A thread that is not at the lock and not at its end has a step of its own.\<close>

lemma can_move:
  assumes "th_place s i \<noteq> Ended" "th_place s i = At_lock \<longrightarrow> th_mutex s = None" "i < n"
  shows "\<exists>a t. act i a s = Some t"
proof (cases "th_place s i")
  case At_lock
  then have "act i Lock s \<noteq> None" using assms by simp
  then show ?thesis by blast
next
  case In_accept
  then have "act i (Accept True) s \<noteq> None" by simp
  then show ?thesis by blast
next
  case (Accepted ok)
  then have "act i Unlock s \<noteq> None" by simp
  then show ?thesis by blast
next
  case In_request
  then have "act i Leave s \<noteq> None" by simp
  then show ?thesis by blast
next
  case (Incrementing v)
  then have "act i Write_counter s \<noteq> None" by simp
  then show ?thesis by blast
qed (use assms in simp)

section \<open>Properties\<close>

text \<open>
  Requests are accepted one thread at a time, in every interleaving.
\<close>

theorem accept_exclusive:
  assumes "(thread_step n)\<^sup>*\<^sup>* threads_start s" "th_place s i = In_accept" "th_place s j = In_accept"
  shows "i = j"
proof -
  have "mutex_inv n s" using mutex.inv_reachable [OF refl assms(1)] .
  moreover have "inside (th_place s i)" "inside (th_place s j)" using assms(2,3) by (simp_all add: inside_def)
  ultimately show ?thesis by (simp add: mutex_inv_def)
qed

theorem accept_exclusive_witness:
  "\<exists>s. (thread_step 3)\<^sup>*\<^sup>* threads_start s \<and> th_place s 2 = In_accept \<and> (\<forall>j. th_place s j = In_accept \<longrightarrow> 2 = j)"
proof -
  let ?s = "goto 2 In_accept (threads_start\<lparr>th_mutex := Some 2\<rparr>)"
  have "schedule [(2, Lock)] threads_start = Some ?s" by (simp add: threads_start_def goto_def)
  then have r: "(thread_step 3)\<^sup>*\<^sup>* threads_start ?s" by (rule schedule_reaches) simp
  have "th_place ?s 2 = In_accept" by (simp add: goto_def)
  then show ?thesis using accept_exclusive [OF r] r by blast
qed

text \<open>
  Property C28: the threads never block each other for good: in every reachable state a thread that
  has not ended can move, or it waits for the mutex and its owner, another thread, can move.
\<close>

theorem threads_progress:
  assumes "(thread_step n)\<^sup>*\<^sup>* threads_start s" "i < n" "th_place s i \<noteq> Ended"
  shows "(\<exists>a t. act i a s = Some t) \<or>
    (\<exists>j a t. th_place s i = At_lock \<and> th_mutex s = Some j \<and> j \<noteq> i \<and> j < n \<and> act j a s = Some t)"
proof (cases "th_place s i = At_lock \<longrightarrow> th_mutex s = None")
  case True
  then show ?thesis using can_move [OF assms(3) _ assms(2)] by blast
next
  case False
  then obtain j where j: "th_place s i = At_lock" "th_mutex s = Some j" by auto
  have inv: "mutex_inv n s" using mutex.inv_reachable [OF refl assms(1)] .
  then have "inside (th_place s j)" using j(2) by (simp add: mutex_inv_def)
  then have p: "th_place s j \<noteq> Ended" "th_place s j \<noteq> At_lock" by (auto simp: inside_def)
  then have "j < n" using inv by (meson mutex_inv_def not_le)
  moreover have "j \<noteq> i" using p j by auto
  moreover have "\<exists>a t. act j a s = Some t" using can_move [of s j n] p \<open>j < n\<close> by blast
  ultimately show ?thesis using j by blast
qed

theorem threads_progress_witness:
  "(\<exists>a t. act 0 a threads_start = Some t) \<or>
    (\<exists>j a t. th_place threads_start 0 = At_lock \<and> th_mutex threads_start = Some j \<and> j \<noteq> 0 \<and> j < 2
      \<and> act j a threads_start = Some t)"
  by (rule threads_progress [of 2]) (simp_all add: threads_start_def)

text \<open>
  Property C29: the counter of requests never exceeds the number of recorded requests, whatever the
  interleaving; and with a single thread it is that number, modulo 2^64.
\<close>

theorem counter_bounds:
  assumes "(thread_step n)\<^sup>*\<^sup>* threads_start s"
  shows "unat (th_count s) \<le> th_recorded s \<and> (n = 1 \<longrightarrow> th_count s = of_nat (th_recorded s))"
proof
  show "unat (th_count s) \<le> th_recorded s"
    using counting.inv_reachable [OF refl assms] by (simp add: count_inv_def)
  show "n = 1 \<longrightarrow> th_count s = of_nat (th_recorded s)"
    using alone.inv_reachable [OF refl] assms by (auto simp: alone_inv_def)
qed

definition one_round :: "nat \<Rightarrow> (nat \<times> action) list" where
  "one_round i = [(i, Lock), (i, Accept True), (i, Unlock), (i, Read_counter), (i, Write_counter)]"

theorem counter_bounds_witness:
  "\<exists>s. (thread_step 1)\<^sup>*\<^sup>* threads_start s \<and> th_recorded s = 1 \<and> th_count s = of_nat (th_recorded s)"
proof -
  obtain s where s: "schedule (one_round 0) threads_start = Some s" "th_recorded s = 1"
    by (simp add: one_round_def threads_start_def goto_def)
  have r: "(thread_step 1)\<^sup>*\<^sup>* threads_start s" using s(1) by (rule schedule_reaches) (simp add: one_round_def)
  then show ?thesis using counter_bounds [OF r] s(2) by auto
qed

text \<open>
  With two threads recorded requests are lost from the counter, and it can go down: a
  thread that is stopped between its read and its write puts back an old value.
\<close>

theorem counter_goes_down:
  "\<exists>s t. (thread_step 2)\<^sup>*\<^sup>* threads_start s \<and> thread_step 2 s t
    \<and> th_recorded s = 2 \<and> th_count s = 2 \<and> th_recorded t = 3 \<and> th_count t = 1"
proof -
  let ?as = "[(0, Lock), (0, Accept True), (0, Unlock), (0, Read_counter)] @ one_round 1 @ one_round 1"
  obtain s t where s: "schedule ?as threads_start = Some s" "act 0 Write_counter s = Some t"
    "th_recorded s = 2 \<and> th_count s = 2 \<and> th_recorded t = 3 \<and> th_count t = 1"
    by (simp add: one_round_def threads_start_def goto_def)
  have "(thread_step 2)\<^sup>*\<^sup>* threads_start s" using s(1) by (rule schedule_reaches) (simp add: one_round_def)
  moreover have "thread_step 2 s t" by (rule thread_step.move [OF _ s(2)]) simp
  ultimately show ?thesis using s(3) by blast
qed

end
