(* ===== verification/LogStream.thy ===== *)
theory LogStream
  imports Prelude
begin

text \<open>
  \<open>src/Log.cpp\<close>: the stream buffer behind \<open>std::clog\<close>, which collects characters and passes them to
  \<open>syslog\<close> when it is flushed, and the reading of the process's memory from \<open>/proc/self/status\<close>.
\<close>

section \<open>The stream buffer\<close>

text \<open>\<open>syslog\<close> is the list of its entries: a priority and a text.\<close>

datatype LogPriority = Emerg | Alert | Crit | Err | Warning | Notice | Info | Debug

record log_state =
  lg_buffer :: string
  lg_priority :: LogPriority
  lg_entries :: "(LogPriority \<times> string) list"

definition Log_new :: log_state where
  "Log_new = \<lparr>lg_buffer = [], lg_priority = Debug, lg_entries = []\<rparr>"

definition log_sync :: "log_state \<Rightarrow> log_state" where
  "log_sync s =
     (if lg_buffer s \<noteq> [] then
        s\<lparr>lg_entries := lg_entries s @ [(lg_priority s, cstr (lg_buffer s))], lg_buffer := []\<rparr>
      else s)"

text \<open>\<open>overflow\<close>: \<open>None\<close> is the argument \<open>EOF\<close>.\<close>

definition log_overflow :: "char option \<Rightarrow> log_state \<Rightarrow> log_state" where
  "log_overflow c s = (case c of Some ch \<Rightarrow> s\<lparr>lg_buffer := lg_buffer s @ [ch]\<rparr> | None \<Rightarrow> log_sync s)"

text \<open>\<open>os << priority\<close>.\<close>

definition set_priority :: "LogPriority \<Rightarrow> log_state \<Rightarrow> log_state" where
  "set_priority p s = s\<lparr>lg_priority := p\<rparr>"

text \<open>What a program does with the stream: a character, the end-of-file argument, a flush, a priority.\<close>

datatype log_op = Put char | Put_eof | Flush | Priority LogPriority

fun log_step :: "log_op \<Rightarrow> log_state \<Rightarrow> log_state" where
  "log_step (Put c) s = log_overflow (Some c) s"
| "log_step Put_eof s = log_overflow None s"
| "log_step Flush s = log_sync s"
| "log_step (Priority p) s = set_priority p s"

fun written :: "log_op \<Rightarrow> string" where
  "written (Put c) = [c]"
| "written op = []"

section \<open>Messages\<close>

text \<open>
  The static functions \<open>err\<close>, \<open>warn\<close> and \<open>info\<close> write one entry; \<open>gdb\<close> writes nothing in a build without
  \<open>DEBUG\<close>. The variants with a format are given the formatted text; \<open>vsprintf\<close> puts it into a static
  buffer without a bound (\<open>None\<close>: it does not fit).
\<close>

definition BUFLEN :: nat where
  "BUFLEN = 1024 * 1024"

definition log_text :: "LogPriority \<Rightarrow> string \<Rightarrow> log_state \<Rightarrow> log_state" where
  "log_text p mes s = s\<lparr>lg_entries := lg_entries s @ [(p, cstr mes)]\<rparr>"

definition log_format :: "LogPriority \<Rightarrow> string \<Rightarrow> log_state \<Rightarrow> log_state option" where
  "log_format p formatted s = (if length formatted < BUFLEN then Some (log_text p formatted s) else None)"

definition Log_err :: "string \<Rightarrow> log_state \<Rightarrow> log_state" where
  "Log_err = log_text Err"

definition Log_warn :: "string \<Rightarrow> log_state \<Rightarrow> log_state" where
  "Log_warn = log_text Warning"

definition Log_info :: "string \<Rightarrow> log_state \<Rightarrow> log_state" where
  "Log_info = log_text Info"

definition Log_gdb :: "string \<Rightarrow> log_state \<Rightarrow> log_state" where
  "Log_gdb mes s = s"

text \<open>A message leaves the stream alone: what was collected is flushed as if it had not been written.\<close>

lemma message_frame:
  "lg_buffer (log_text p mes s) = lg_buffer s \<and> lg_priority (log_text p mes s) = lg_priority s"
  by (simp add: log_text_def)

section \<open>The size of the process\<close>

text \<open>
  \<open>parseLine\<close> on a line in a buffer of 128 characters: the pointer moves to the first digit, then a
  NUL is written \<open>strlen - 3\<close> characters behind the moved pointer. \<open>None\<close>: no digit before the end of
  the buffer, or the position lies outside of it.
\<close>

definition parseLine :: "string \<Rightarrow> int option" where
  "parseLine line =
     (let i = length (cstr line); k = length (takeWhile (\<lambda>c. \<not> c_isdigit c) line); pos = int k + int i - 3
      in if k = length line \<or> pos < 0 \<or> int (length line) \<le> pos then None
         else Some (atoi (drop k (line[nat pos := NUL]))))"

text \<open>
  \<open>memUsage\<close>: the lines that \<open>fgets\<close> puts into the buffer; a file that cannot be opened is read
  through a null pointer (\<open>None\<close>), as is a failure of \<open>parseLine\<close>.
\<close>

definition in_buffer :: "string \<Rightarrow> string" where
  "in_buffer s = take 128 (s @ replicate 128 NUL)"

fun read_usage :: "string list \<Rightarrow> int option" where
  "read_usage [] = Some (- 1)"
| "read_usage (line # ls) =
     (if take 7 line = ''VmSize:'' then parseLine (in_buffer line) else read_usage ls)"

definition memUsage :: "string list option \<Rightarrow> int option" where
  "memUsage file = (case file of None \<Rightarrow> None | Some ls \<Rightarrow> read_usage ls)"

section \<open>Properties\<close>

lemma log_step_text:
  assumes "NUL \<notin> set (lg_buffer s)" "NUL \<notin> set (written op)"
  shows "NUL \<notin> set (lg_buffer (log_step op s))
    \<and> concat (map snd (lg_entries (log_step op s))) @ lg_buffer (log_step op s) =
      (concat (map snd (lg_entries s)) @ lg_buffer s) @ written op
    \<and> ([] \<notin> snd ` set (lg_entries s) \<longrightarrow> [] \<notin> snd ` set (lg_entries (log_step op s)))"
  using assms by (cases op) (auto simp: log_overflow_def log_sync_def set_priority_def)

lemma log_run_text:
  assumes "NUL \<notin> set (lg_buffer s)" "\<forall>op\<in>set ops. NUL \<notin> set (written op)"
  shows "NUL \<notin> set (lg_buffer (fold log_step ops s))
    \<and> concat (map snd (lg_entries (fold log_step ops s))) @ lg_buffer (fold log_step ops s) =
      (concat (map snd (lg_entries s)) @ lg_buffer s) @ concat (map written ops)
    \<and> ([] \<notin> snd ` set (lg_entries s) \<longrightarrow> [] \<notin> snd ` set (lg_entries (fold log_step ops s)))"
  using assms
proof (induction ops arbitrary: s)
  case (Cons op ops)
  have "NUL \<notin> set (written op)" using Cons.prems(2) by simp
  note step = log_step_text [OF Cons.prems(1) this]
  then show ?case using Cons.IH [of "log_step op s"] Cons.prems(2) by simp
qed simp

text \<open>
  Property C27: the stream loses and repeats nothing: after any sequence of characters, flushes and
  priority changes, the texts passed to \<open>syslog\<close> followed by the buffer are the characters written
  (a NUL character would cut an entry), and no entry is empty.
\<close>

theorem log_stream_lossless:
  assumes "\<forall>op\<in>set ops. NUL \<notin> set (written op)"
  shows "concat (map snd (lg_entries (fold log_step ops Log_new))) @ lg_buffer (fold log_step ops Log_new)
      = concat (map written ops)
    \<and> (\<forall>e\<in>set (lg_entries (fold log_step ops Log_new)). snd e \<noteq> [])"
  using log_run_text [of Log_new ops] assms
  by (auto simp: Log_new_def image_iff)

theorem log_stream_lossless_witness:
  "concat (map snd (lg_entries (fold log_step [Put CHR ''a'', Flush, Put CHR ''b'', Put_eof] Log_new)))
    @ lg_buffer (fold log_step [Put CHR ''a'', Flush, Put CHR ''b'', Put_eof] Log_new) = ''ab''"
  using log_stream_lossless [of "[Put CHR ''a'', Flush, Put CHR ''b'', Put_eof]"]
  by (simp add: NUL_def)

lemma in_buffer_line: "length s < 128 \<Longrightarrow> in_buffer s = s @ replicate (128 - length s) NUL"
  by (simp add: in_buffer_def)

text \<open>
  The line of the kernel is read right although the write lands behind the text: for a
  label of at least three characters and a number below 2^31 in a line that is short enough for the
  position to stay inside the buffer, the result is the number.
\<close>

theorem parseLine_reads:
  assumes "ds \<noteq> []" "\<forall>c\<in>set ds. c_isdigit c" "nat_of_digits ds < 2 ^ 31"
    and "\<forall>c\<in>set pre. \<not> c_isdigit c \<and> c \<noteq> NUL" "3 \<le> length pre" "2 * length pre + length ds + 1 < 128"
  shows "parseLine (in_buffer (pre @ ds @ '' kB'' @ [CHR 0x0A])) = Some (int (nat_of_digits ds))"
proof -
  define line where "line = pre @ ds @ '' kB'' @ [CHR 0x0A]"
  define pad where "pad = replicate (128 - length line) NUL"
  have len: "length line = length pre + length ds + 4" by (simp add: line_def)
  then have "length line < 128" using assms(5,6) by simp
  then have buf: "in_buffer line = line @ pad" by (simp add: in_buffer_line pad_def)
  have no: "NUL \<notin> set line" using assms(2,4) c_isdigit_not_sign(4)
    by (auto simp: line_def NUL_def)
  have pad: "pad = NUL # replicate (127 - length line) NUL"
    using \<open>length line < 128\<close> by (simp add: pad_def flip: replicate_Suc)
  have cs: "cstr (line @ pad) = line" using no by (simp add: pad)
  obtain d es where d: "ds = d # es" "c_isdigit d" using assms(1,2) by (cases ds) auto
  have tw: "takeWhile (\<lambda>c. \<not> c_isdigit c) (line @ pad) = pre"
    using assms(4) d by (simp add: line_def takeWhile_append)
  let ?p = "2 * length pre + length ds + 1"
  have pos: "int (length pre) + int (length line) - 3 = int ?p" using assms(5) by (simp add: len)
  have "(line @ pad)[?p := NUL] = line @ pad"
  proof (rule list_update_same_conv [THEN iffD2])
    show "?p < length (line @ pad)" using assms(6) \<open>length line < 128\<close> by (simp add: pad_def)
    show "(line @ pad) ! ?p = NUL" using assms(5,6) len by (simp add: nth_append pad_def)
  qed
  then have "parseLine (line @ pad) = Some (atoi (drop (length pre) (line @ pad)))"
    unfolding parseLine_def Let_def cs tw pos nat_int
    using assms(6) \<open>length line < 128\<close> len by (simp add: pad_def)
  moreover have "drop (length pre) (line @ pad) = (ds @ '' kB'' @ [CHR 0x0A]) @ NUL # replicate (127 - length line) NUL"
    by (simp add: line_def pad)
  moreover have "NUL \<notin> set (ds @ '' kB'' @ [CHR 0x0A])" using no by (simp add: line_def)
  ultimately have "parseLine (line @ pad) = Some (atoi (ds @ '' kB'' @ [CHR 0x0A]))"
    by (simp add: atoi_def atol_def del: append_assoc)
  also have "atoi (ds @ '' kB'' @ [CHR 0x0A]) = int (nat_of_digits ds)"
    using assms(1-3) \<open>NUL \<notin> set (ds @ '' kB'' @ [CHR 0x0A])\<close>
    by (intro atoi_digits_then) (auto simp: c_isdigit_def in_range_def)
  finally show ?thesis using buf by (simp add: line_def)
qed

theorem parseLine_reads_witness:
  "memUsage (Some [''Name: w'' @ [CHR 0x0A], ''VmSize:   '' @ ''4242 kB'' @ [CHR 0x0A]]) = Some 4242"
  using parseLine_reads [of "''4242''" "''VmSize:   ''"]
  by (simp add: memUsage_def c_isdigit_def in_range_def nat_of_digits_def digit_val_def NUL_def)

end
