(* ===== verification/Server.thy ===== *)
theory Server
  imports Config
begin

text \<open>
  \<open>src/Server.cpp\<close>: how the program becomes a daemon. The constructor forks, gives up its privileges,
  takes the lock file, detaches itself and writes the file with its process id; the helper looks for
  a process by its name under \<open>/proc\<close>. The system calls are parameters.
\<close>

section \<open>The system\<close>

record creds =
  c_uid :: nat
  c_euid :: nat
  c_gid :: nat

text \<open>
  What the calls return: \<open>getppid\<close> before the fork, \<open>fork\<close>, and \<open>getppid\<close> and \<open>getpid\<close> in the child;
  the user and group of a name; the credentials after \<open>setuid\<close> and \<open>setgid\<close>, if they succeed; the entries of \<open>/proc\<close>, each with the first line of its
  \<open>cmdline\<close>; which files can be opened for writing; and whether the other calls succeed.
\<close>

record server_os =
  so_ppid :: int
  so_fork :: int
  so_parent :: int
  so_pid :: nat
  so_getpwnam :: "string \<Rightarrow> (nat \<times> nat) option"
  so_setuid :: "nat \<Rightarrow> creds \<Rightarrow> creds option"
  so_setgid :: "nat \<Rightarrow> creds \<Rightarrow> creds option"
  so_proc :: "(string \<times> string) list option"
  so_progname :: string
  so_open :: "string \<Rightarrow> bool"
  so_setsid :: bool
  so_chdir :: bool
  so_freopen :: "string \<Rightarrow> bool"

text \<open>The process: its credentials, the files by their names, and what the program changes of it.\<close>

datatype notice =
    Setting_user | Error_setuid | Error_setgid | Another_process | No_lock_file | No_session
  | No_chdir | No_stdio string | No_pid_file | Starting_done

record process =
  pr_creds :: creds
  pr_files :: "string \<rightharpoonup> string"
  pr_umask :: nat
  pr_cwd :: string
  pr_parent_told :: bool
  pr_syslog :: "notice list"

datatype server_end = Returned process | Parent_waits | Exited nat process | Crashed

definition log_notice :: "notice \<Rightarrow> process \<Rightarrow> process" where
  "log_notice n p = p\<lparr>pr_syslog := pr_syslog p @ [n]\<rparr>"

section \<open>Looking for a process\<close>

text \<open>The name of a process: its command up to the first NUL, from the last slash on.\<close>

definition command_name :: "string \<Rightarrow> string" where
  "command_name cmdLine =
     (let s = (case find_first_of cmdLine NUL 0 of Some i \<Rightarrow> substr cmdLine 0 i | None \<Rightarrow> cmdLine)
      in case find_last_of s CHR ''/'' of Some i \<Rightarrow> drop (i + 1) s | None \<Rightarrow> s)"

fun find_process :: "nat \<Rightarrow> string \<Rightarrow> (string \<times> string) list \<Rightarrow> int" where
  "find_process self procName [] = - 1"
| "find_process self procName ((d_name, cmdLine) # ds) =
     (let n = atoi d_name in
      if 0 < n \<and> cmdLine \<noteq> [] \<and> procName = command_name cmdLine \<and> n \<noteq> int self then n
      else find_process self procName ds)"

text \<open>\<open>None\<close>: without \<open>/proc\<close> a null pointer is closed.\<close>

definition getProcIdByName :: "server_os \<Rightarrow> string \<Rightarrow> int option" where
  "getProcIdByName os procName =
     (case so_proc os of None \<Rightarrow> None | Some ds \<Rightarrow> Some (find_process (so_pid os) procName ds))"

section \<open>The process id file\<close>

text \<open>\<open>(int) log10 (p)\<close> for a positive number.\<close>

fun ilog10 :: "nat \<Rightarrow> nat" where
  "ilog10 n = (if n < 10 then 0 else Suc (ilog10 (n div 10)))"

declare ilog10.simps [simp del]

text \<open>The buffer: \<open>snprintf\<close> writes at most \<open>len - 1\<close> characters and a NUL; the rest stays zero.\<close>

definition pid_buffer :: "nat \<Rightarrow> string" where
  "pid_buffer p =
     (let len = ilog10 p + 2; s = take (len - 1) (string_of_nat p)
      in s @ NUL # replicate (len - 1 - length s) NUL)"

text \<open>A file that is not truncated keeps what lies behind the written part.\<close>

definition write_front :: "string \<Rightarrow> string option \<Rightarrow> string" where
  "write_front b old = b @ drop (length b) (case old of None \<Rightarrow> [] | Some s \<Rightarrow> s)"

definition writePid :: "server_os \<Rightarrow> string \<Rightarrow> process \<Rightarrow> server_end" where
  "writePid os pidFileName p =
     (if pidFileName \<noteq> [] then
        (if \<not> so_open os pidFileName then Exited 1 (log_notice No_pid_file p)
         else Returned (p\<lparr>pr_files := (pr_files p)(pidFileName \<mapsto>
                write_front (pid_buffer (so_pid os)) (pr_files p pidFileName))\<rparr>))
      else Returned p)"

section \<open>The parts of the constructor\<close>

definition drop_privileges :: "server_os \<Rightarrow> config \<Rightarrow> process \<Rightarrow> process" where
  "drop_privileges os c p =
     (if c_uid (pr_creds p) = 0 \<or> c_euid (pr_creds p) = 0 then
        (case so_getpwnam os (user_name c) of
           None \<Rightarrow> p
         | Some (uid, gid) \<Rightarrow>
             (let p = log_notice Setting_user p;
                  p = (case so_setuid os uid (pr_creds p) of
                         Some cr \<Rightarrow> p\<lparr>pr_creds := cr\<rparr> | None \<Rightarrow> log_notice Error_setuid p)
              in case so_setgid os gid (pr_creds p) of
                   Some cr \<Rightarrow> p\<lparr>pr_creds := cr\<rparr> | None \<Rightarrow> log_notice Error_setgid p))
      else p)"

text \<open>The lock file: it is created, but neither locked nor written.\<close>

definition take_lock :: "server_os \<Rightarrow> string \<Rightarrow> process \<Rightarrow> server_end" where
  "take_lock os lock p =
     (if lock = [] then Returned p
      else
        let open_lock = (\<lambda>p. if so_open os lock
              then Returned (p\<lparr>pr_files := (pr_files p)(lock \<mapsto> (case pr_files p lock of Some s \<Rightarrow> s | None \<Rightarrow> []))\<rparr>)
              else Exited 1 (log_notice No_lock_file p))
        in if pr_files p lock \<noteq> None then
             (let p = log_notice Another_process p in
              case getProcIdByName os (so_progname os) of
                None \<Rightarrow> Crashed
              | Some n \<Rightarrow> if 0 < n then Exited 1 p else open_lock (p\<lparr>pr_files := (pr_files p)(lock := None)\<rparr>))
           else open_lock p)"

definition reopen :: "server_os \<Rightarrow> string \<Rightarrow> process \<Rightarrow> process" where
  "reopen os stream p = (if so_freopen os stream then p else log_notice (No_stdio stream) p)"

definition detach :: "server_os \<Rightarrow> process \<Rightarrow> process" where
  "detach os p =
     (let p = p\<lparr>pr_umask := 7\<rparr>;
          p = (if so_setsid os then p else log_notice No_session p);
          p = (if so_chdir os then p\<lparr>pr_cwd := ''/''\<rparr> else log_notice No_chdir p);
          p = reopen os ''stderr'' (reopen os ''stdout'' (reopen os ''stdin'' p))
      in p\<lparr>pr_parent_told := True\<rparr>)"

definition Server_new :: "server_os \<Rightarrow> config \<Rightarrow> string \<Rightarrow> string \<Rightarrow> process \<Rightarrow> server_end" where
  "Server_new os c lockFileName pidFileName p =
     (if so_ppid os = 1 then Returned p
      else if so_fork os < 0 then Exited 1 p
      else if 0 < so_fork os then Parent_waits
      else case take_lock os lockFileName (drop_privileges os c p) of
        Returned p \<Rightarrow>
          (case writePid os pidFileName (detach os p) of
             Returned p \<Rightarrow> Returned (log_notice Starting_done p)
           | r \<Rightarrow> r)
      | r \<Rightarrow> r)"

text \<open>
  The parent waits two seconds for the first signal; the handler ends it, and \<open>None\<close> stands for a
  signal without this handler, after which \<open>pause\<close> returns.
\<close>

datatype signal = SIGALRM | SIGUSR1 | SIGCHLD

definition child_handler :: "signal \<Rightarrow> nat" where
  "child_handler signum = (case signum of SIGALRM \<Rightarrow> 1 | SIGUSR1 \<Rightarrow> 0 | SIGCHLD \<Rightarrow> 1)"

definition parent_exit :: "signal option \<Rightarrow> nat" where
  "parent_exit s = (case s of Some signum \<Rightarrow> child_handler signum | None \<Rightarrow> 1)"

text \<open>
  The signals for the parent in the order in which they come: that of the child that has detached
  itself, that of the child's end, and the alarm after two seconds, which comes first if the child is
  slow. The first one ends the parent.
\<close>

definition child_signals :: "server_end \<Rightarrow> signal list" where
  "child_signals child =
     (case child of
        Returned p \<Rightarrow> (if pr_parent_told p then [SIGUSR1] else [])
      | Exited n p \<Rightarrow> (if pr_parent_told p then [SIGUSR1] else []) @ [SIGCHLD]
      | Crashed \<Rightarrow> [SIGCHLD]
      | Parent_waits \<Rightarrow> [])"

definition parent_status :: "bool \<Rightarrow> server_end \<Rightarrow> nat" where
  "parent_status alarm_first child =
     parent_exit (Some (hd (if alarm_first then SIGALRM # child_signals child else child_signals child @ [SIGALRM])))"

section \<open>Lemmas\<close>

lemma length_string_of_nat: "length (string_of_nat n) = ilog10 n + 1"
  by (induction n rule: ilog10.induct) (subst ilog10.simps, subst string_of_nat.simps, simp)

lemma pid_buffer_eq: "pid_buffer p = string_of_nat p @ [NUL]"
  by (simp add: pid_buffer_def Let_def length_string_of_nat)

lemma string_of_nat_no_NUL: "NUL \<notin> set (string_of_nat n)"
  using string_of_nat_digits c_isdigit_not_sign(4) by blast

lemma cstr_pid_file: "cstr (write_front (pid_buffer p) old) = string_of_nat p"
  by (simp add: write_front_def pid_buffer_eq string_of_nat_no_NUL)

definition other_process :: "nat \<Rightarrow> string \<Rightarrow> string \<times> string \<Rightarrow> bool" where
  "other_process self name d \<longleftrightarrow>
     0 < atoi (fst d) \<and> atoi (fst d) \<noteq> int self \<and> snd d \<noteq> [] \<and> command_name (snd d) = name"

lemma find_process_find:
  "find_process self name ds = (case find (other_process self name) ds of None \<Rightarrow> - 1 | Some d \<Rightarrow> atoi (fst d))"
  by (induction self name ds rule: find_process.induct) (auto simp: other_process_def Let_def)

lemma find_process_positive:
  "0 < find_process self name ds \<longleftrightarrow> (\<exists>d\<in>set ds. other_process self name d)"
  by (induction self name ds rule: find_process.induct) (auto simp: other_process_def Let_def)

text \<open>A process and a system for the concrete instances.\<close>

definition plain_process :: process where
  "plain_process = \<lparr>pr_creds = \<lparr>c_uid = 0, c_euid = 0, c_gid = 0\<rparr>, pr_files = Map.empty, pr_umask = 0,
     pr_cwd = [], pr_parent_told = False, pr_syslog = []\<rparr>"

text \<open>A system with the rules of Unix for user ids: \<open>setuid\<close> of the superuser sets both user ids.\<close>

definition unix_ids :: "server_os \<Rightarrow> bool" where
  "unix_ids os \<longleftrightarrow>
     (\<forall>u c. c_euid c = 0 \<longrightarrow> so_setuid os u c = Some (c\<lparr>c_uid := u, c_euid := u\<rparr>))
     \<and> (\<forall>g c. c_euid c \<noteq> 0 \<and> g \<noteq> c_gid c \<longrightarrow> so_setgid os g c = None)"

definition sample_os :: server_os where
  "sample_os = \<lparr>so_ppid = 500, so_fork = 0, so_parent = 700, so_pid = 4711, so_getpwnam = (\<lambda>n. Some (33, 33)),
     so_setuid = (\<lambda>u c. if c_euid c = 0 then Some (c\<lparr>c_uid := u, c_euid := u\<rparr>) else None),
     so_setgid = (\<lambda>g c. if c_euid c = 0 \<or> g = c_gid c then Some (c\<lparr>c_gid := g\<rparr>) else None),
     so_proc = Some [(''self'', ''x''), (''700'', ''/usr/bin/worker'' @ [NUL] @ ''-c'')],
     so_progname = ''worker'', so_open = (\<lambda>f. True), so_setsid = True, so_chdir = True,
     so_freopen = (\<lambda>f. True)\<rparr>"

section \<open>Properties\<close>

text \<open>
  The search for a process returns the first entry of \<open>/proc\<close> with a positive number, the
  given name and another process id, and -1 exactly when there is none.
\<close>

theorem getProcIdByName_finds:
  "getProcIdByName os name =
    map_option (\<lambda>ds. case find (other_process (so_pid os) name) ds of None \<Rightarrow> - 1 | Some d \<Rightarrow> atoi (fst d)) (so_proc os)"
  by (simp add: getProcIdByName_def find_process_find split: option.splits)

text \<open>
  Property C14: a lock file that is left over stops every later start. The parent waits while the child
  looks for another process of the same name, and the parent is one: the child ends with status 1, the
  files are as before, the lock file among them, and the parent ends with status 1, too, whether the
  end of the child or the alarm comes first.
\<close>

theorem stale_lock_blocks:
  assumes "so_ppid os \<noteq> 1" "so_fork os = 0" "lock \<noteq> []" "pr_files p lock = Some s" "\<not> pr_parent_told p"
    and "so_proc os = Some ds" "d \<in> set ds" "atoi (fst d) = so_parent os" "0 < so_parent os"
    and "so_parent os \<noteq> int (so_pid os)" "snd d \<noteq> []" "command_name (snd d) = so_progname os"
  shows "\<exists>p'. Server_new os c lock pid p = Exited 1 p' \<and> pr_files p' = pr_files p
    \<and> \<not> pr_parent_told p' \<and> parent_status alarm_first (Server_new os c lock pid p) = 1"
proof -
  have "other_process (so_pid os) (so_progname os) d" using assms(8-12) by (simp add: other_process_def)
  then have "0 < find_process (so_pid os) (so_progname os) ds" using assms(7) find_process_positive by blast
  moreover have "pr_files (drop_privileges os c p) = pr_files p"
    "pr_parent_told (drop_privileges os c p) = pr_parent_told p"
    by (auto simp: drop_privileges_def log_notice_def Let_def split: option.splits)
  ultimately show ?thesis using assms(1-6)
    by (simp add: Server_new_def take_lock_def getProcIdByName_def log_notice_def parent_status_def
        child_signals_def parent_exit_def child_handler_def)
qed

theorem stale_lock_blocks_witness:
  "\<exists>p'. Server_new sample_os blank_config ''/l'' [] (plain_process\<lparr>pr_files := [''/l'' \<mapsto> []]\<rparr>) = Exited 1 p'
     \<and> parent_status False (Server_new sample_os blank_config ''/l'' [] (plain_process\<lparr>pr_files := [''/l'' \<mapsto> []]\<rparr>)) = 1"
proof -
  let ?d = "(''700'', ''/usr/bin/worker'' @ [NUL] @ ''-c'')"
  have "atoi (fst ?d) = 700" "command_name (snd ?d) = ''worker''" by code_simp+
  then show ?thesis
    using stale_lock_blocks [of sample_os "''/l''" "plain_process\<lparr>pr_files := [''/l'' \<mapsto> []]\<rparr>" "[]"
        "[(''self'', ''x''), ?d]" ?d blank_config "[]"]
    by (force simp: sample_os_def plain_process_def)
qed

text \<open>
  Whatever the file held before, and although it is not truncated, what a reader of the
  process id file takes as its text is the number of the process.
\<close>

theorem writePid_readable:
  assumes "pidFileName \<noteq> []" "writePid os pidFileName p = Returned p'" "so_pid os < 2 ^ 31"
  shows "\<exists>s. pr_files p' pidFileName = Some s \<and> cstr s = string_of_nat (so_pid os) \<and> atoi s = int (so_pid os)"
proof -
  let ?s = "write_front (pid_buffer (so_pid os)) (pr_files p pidFileName)"
  have f: "pr_files p' pidFileName = Some ?s"
    using assms(1,2) by (auto simp: writePid_def split: if_splits)
  have "atoi (string_of_nat (so_pid os) @ []) = int (nat_of_digits (string_of_nat (so_pid os)))"
    using assms(3) string_of_nat_digits by (intro atoi_digits_then) (auto simp: string_of_nat_no_NUL)
  moreover have "atoi ?s = atoi (string_of_nat (so_pid os))"
    by (simp add: atoi_def atol_def cstr_pid_file string_of_nat_no_NUL)
  ultimately show ?thesis using f cstr_pid_file by simp
qed

theorem writePid_readable_witness:
  "atoi (the (pr_files (case writePid sample_os ''/p'' (plain_process\<lparr>pr_files := [''/p'' \<mapsto> ''1234567'']\<rparr>) of
     Returned p' \<Rightarrow> p') ''/p'')) = 4711"
proof -
  obtain p' where r: "writePid sample_os ''/p'' (plain_process\<lparr>pr_files := [''/p'' \<mapsto> ''1234567'']\<rparr>) = Returned p'"
    by (simp add: writePid_def sample_os_def)
  from writePid_readable [OF _ r] r show ?thesis by (auto simp: sample_os_def)
qed

text \<open>
  The group is not given up: started by the superuser for a user with another user id
  and group, the process ends up with that user and still in its old group, because \<open>setgid\<close> comes
  after \<open>setuid\<close>; the failure is logged and ignored.
\<close>

theorem group_kept:
  assumes "unix_ids os" "c_euid (pr_creds p) = 0" "so_getpwnam os (user_name c) = Some (u, g)"
    and "u \<noteq> 0" "g \<noteq> c_gid (pr_creds p)"
  shows "pr_creds (drop_privileges os c p) = \<lparr>c_uid = u, c_euid = u, c_gid = c_gid (pr_creds p)\<rparr>
    \<and> pr_syslog (drop_privileges os c p) = pr_syslog p @ [Setting_user, Error_setgid]"
proof -
  have "so_setuid os u (pr_creds p) = Some ((pr_creds p)\<lparr>c_uid := u, c_euid := u\<rparr>)"
    "so_setgid os g ((pr_creds p)\<lparr>c_uid := u, c_euid := u\<rparr>) = None"
    using assms by (auto simp: unix_ids_def)
  then show ?thesis using assms(2,3) by (simp add: drop_privileges_def log_notice_def)
qed

theorem group_kept_witness:
  "c_gid (pr_creds (drop_privileges sample_os blank_config plain_process)) = 0"
  using group_kept [of sample_os plain_process blank_config 33 33]
  by (auto simp: unix_ids_def sample_os_def plain_process_def)

end
