(* ===== verification/Databases.thy ===== *)
theory Databases
  imports Prelude
begin

text \<open>
  \<open>src/DB.cpp\<close>, \<open>include/DB.h\<close>: the registry of database connections. The registry maps names to
  pointers; a name that is registered again keeps its object, whose members are overwritten, so that
  objects of the class \<open>DB\<close> made before see the new settings. The objects live in an explicit store.
\<close>

section \<open>State\<close>

record ConnectionOptions =
  co_database :: string
  co_server_host :: string
  co_replica_set :: string
  co_slave_ok :: bool

record ReplicaSetConnection =
  rs_replica_set :: string
  rs_connection_string :: string

text \<open>The store of the option objects, the next free address, and \<open>connection_options_map_\<close>.\<close>

record registry =
  rg_store :: "nat \<rightharpoonup> ConnectionOptions"
  rg_next :: nat
  rg_map :: "string \<rightharpoonup> nat"

definition no_databases :: registry where
  "no_databases = \<lparr>rg_store = Map.empty, rg_next = 0, rg_map = Map.empty\<rparr>"

section \<open>Registering\<close>

definition options_by_name :: "string \<Rightarrow> registry \<Rightarrow> nat option" where
  "options_by_name name r = rg_map r name"

definition add_database :: "string \<Rightarrow> string \<Rightarrow> string \<Rightarrow> string \<Rightarrow> bool \<Rightarrow> registry \<Rightarrow> registry" where
  "add_database name server_host database replica_set slave_ok r =
     (let (options, r) = (case options_by_name name r of
            None \<Rightarrow> (rg_next r, r\<lparr>rg_next := rg_next r + 1\<rparr>)
          | Some p \<Rightarrow> (p, r))
      in r\<lparr>rg_store := (rg_store r)(options \<mapsto> \<lparr>co_database = database, co_server_host = server_host,
             co_replica_set = replica_set, co_slave_ok = slave_ok\<rparr>),
           rg_map := (rg_map r)(name \<mapsto> options)\<rparr>)"

text \<open>The four public overloads.\<close>

definition addDatabase_host :: "string \<Rightarrow> string \<Rightarrow> string \<Rightarrow> bool \<Rightarrow> registry \<Rightarrow> registry" where
  "addDatabase_host name server_host database slave_ok = add_database name server_host database [] slave_ok"

definition addDatabase_set :: "string \<Rightarrow> ReplicaSetConnection \<Rightarrow> string \<Rightarrow> bool \<Rightarrow> registry \<Rightarrow> registry" where
  "addDatabase_set name c database slave_ok =
     add_database name (rs_connection_string c) database (rs_replica_set c) slave_ok"

definition addDatabase_default :: "string \<Rightarrow> string \<Rightarrow> bool \<Rightarrow> registry \<Rightarrow> registry" where
  "addDatabase_default server_host database slave_ok = add_database [] server_host database [] slave_ok"

definition addDatabase_default_set :: "ReplicaSetConnection \<Rightarrow> string \<Rightarrow> bool \<Rightarrow> registry \<Rightarrow> registry" where
  "addDatabase_default_set c database slave_ok =
     add_database [] (rs_connection_string c) database (rs_replica_set c) slave_ok"

section \<open>Opening\<close>

text \<open>
  An object of class \<open>DB\<close>: the pointer to its options and its pool, given by the address of the server
  that the pool connects to. Both branches of the constructor take the default address \<open>uri0\<close>. The
  exception is \<open>NotRegistered\<close>.
\<close>

record 'u db_object =
  db_options :: nat
  db_pool :: 'u

definition DB_new :: "'u \<Rightarrow> string \<Rightarrow> registry \<Rightarrow> 'u db_object res" where
  "DB_new uri0 name r =
     (case options_by_name name r of
        None \<Rightarrow> Inl (Foreign_exn (''Database '' @ (if name = [] then ''(default)'' else name)
                  @ '' is not registered! Use addDatabase() first.''))
      | Some p \<Rightarrow> Inr \<lparr>db_options = p,
          db_pool = (if map_option co_replica_set (rg_store r p) = Some [] then uri0 else uri0)\<rparr>)"

definition DB_options :: "registry \<Rightarrow> 'u db_object \<Rightarrow> ConnectionOptions" where
  "DB_options r db = the (rg_store r (db_options db))"

definition DB_database :: "registry \<Rightarrow> 'u db_object \<Rightarrow> string" where
  "DB_database r db = co_database (DB_options r db)"

definition DB_server_host :: "registry \<Rightarrow> 'u db_object \<Rightarrow> string" where
  "DB_server_host r db = co_server_host (DB_options r db)"

definition DB_replica_set :: "registry \<Rightarrow> 'u db_object \<Rightarrow> string" where
  "DB_replica_set r db = co_replica_set (DB_options r db)"

definition DB_slave_ok :: "registry \<Rightarrow> 'u db_object \<Rightarrow> bool" where
  "DB_slave_ok r db = co_slave_ok (DB_options r db)"

text \<open>
  \<open>db\<close>: the driver's \<open>acquire\<close> and \<open>release\<close> of a pool and \<open>operator[]\<close> of a client are parameters. The
  name is not used, the database is chosen by the character \<open>'s'\<close>, and the client goes back to the pool
  when the function returns, before the caller has the database.
\<close>

record ('u, 'c, 'd) pool_lib =
  pl_acquire :: "'u \<Rightarrow> 'c \<times> 'u"
  pl_release :: "'c \<Rightarrow> 'u \<Rightarrow> 'u"
  pl_index :: "'c \<Rightarrow> char \<Rightarrow> 'd"

definition DB_db :: "('u, 'c, 'd) pool_lib \<Rightarrow> string \<Rightarrow> 'u db_object \<Rightarrow> 'd \<times> 'u db_object" where
  "DB_db lib name db =
     (let (c, pool) = pl_acquire lib (db_pool db); d = pl_index lib c (CHR ''s'')
      in (d, db\<lparr>db_pool := pl_release lib c pool\<rparr>))"

text \<open>\<open>ConnectLogDatabase\<close>: every configured host is registered, under one name.\<close>

definition ConnectLogDatabase :: "string list \<Rightarrow> string \<Rightarrow> string \<Rightarrow> bool \<Rightarrow> registry \<Rightarrow> registry" where
  "ConnectLogDatabase log_host log_set log_db log_slave_ok r =
     fold (\<lambda>h. if log_set = [] then addDatabase_host ''log'' h log_db log_slave_ok
               else addDatabase_set ''log'' \<lparr>rs_replica_set = log_set, rs_connection_string = h\<rparr> log_db log_slave_ok)
       log_host r"

section \<open>The registry as a keyed store\<close>

text \<open>Distinct names have distinct objects, and every registered object is allocated.\<close>

definition registry_ok :: "registry \<Rightarrow> bool" where
  "registry_ok r \<longleftrightarrow> inj_on (rg_map r) (dom (rg_map r))
     \<and> (\<forall>name p. rg_map r name = Some p \<longrightarrow> p < rg_next r \<and> rg_store r p \<noteq> None)"

definition registered :: "registry \<Rightarrow> string \<Rightarrow> ConnectionOptions option" where
  "registered r name = (case options_by_name name r of None \<Rightarrow> None | Some p \<Rightarrow> rg_store r p)"

definition register :: "string \<Rightarrow> ConnectionOptions \<Rightarrow> registry \<Rightarrow> registry" where
  "register name o' = add_database name (co_server_host o') (co_database o') (co_replica_set o') (co_slave_ok o')"

lemma add_database_ok: "registry_ok r \<Longrightarrow> registry_ok (add_database name h d s b r)"
  by (auto simp: registry_ok_def add_database_def options_by_name_def inj_on_def dom_def Let_def less_Suc_eq
      split: option.splits) (metis less_irrefl option.inject)+

lemma registered_add_database:
  assumes "registry_ok r"
  shows "registered (add_database name h d s b r) = (registered r)(name \<mapsto>
    \<lparr>co_database = d, co_server_host = h, co_replica_set = s, co_slave_ok = b\<rparr>)"
proof
  fix n
  show "registered (add_database name h d s b r) n = ((registered r)(name \<mapsto>
      \<lparr>co_database = d, co_server_host = h, co_replica_set = s, co_slave_ok = b\<rparr>)) n"
  proof (cases "n = name")
    case True
    then show ?thesis
      by (auto simp: registered_def add_database_def options_by_name_def Let_def split: option.splits)
  next
    case False
    have "p \<noteq> q" if "rg_map r n = Some p" "rg_map r name = Some q" for p q
      using assms that False unfolding registry_ok_def inj_on_def by (metis domI)
    moreover have "p \<noteq> rg_next r" if "rg_map r n = Some p" for p
      using assms that unfolding registry_ok_def by auto
    ultimately show ?thesis using False
      by (auto simp: registered_def add_database_def options_by_name_def Let_def split: option.splits)
  qed
qed

lemma registered_object:
  "registered r name = Some o' \<Longrightarrow> \<exists>db. DB_new uri0 name r = Inr db \<and> DB_options r db = o' \<and> db_pool db = uri0"
  by (auto simp: registered_def DB_new_def DB_options_def split: option.splits)

lemma registered_none: "registry_ok r \<Longrightarrow> registered r name = None \<longleftrightarrow> rg_map r name = None"
  by (cases "rg_map r name") (auto simp: registered_def options_by_name_def registry_ok_def)

lemma DB_new_fails: "(\<exists>e. DB_new uri0 name r = Inl e) \<longleftrightarrow> rg_map r name = None"
  by (auto simp: DB_new_def options_by_name_def split: option.splits)

interpretation registry: keyed_store no_databases register registered registry_ok
proof
  show "registry_ok no_databases" by (simp add: no_databases_def registry_ok_def)
  show "registered no_databases k = None" for k
    by (simp add: no_databases_def registered_def options_by_name_def)
qed (simp_all add: register_def add_database_ok registered_add_database)

section \<open>Properties\<close>

text \<open>
  Property C15: the registry is a map in which the last registration of a name wins: after any sequence
  of registrations an object for a name has exactly the options registered last for it, and opening
  throws for a name without one. The pool has the default address, whatever the options.
\<close>

theorem registry_last_wins:
  "case map_of (rev kvs) name of
     None \<Rightarrow> \<exists>e. DB_new uri0 name (fold (\<lambda>(k, o'). register k o') kvs no_databases) = Inl e
   | Some o' \<Rightarrow> \<exists>db. DB_new uri0 name (fold (\<lambda>(k, o'). register k o') kvs no_databases) = Inr db
       \<and> DB_options (fold (\<lambda>(k, o'). register k o') kvs no_databases) db = o' \<and> db_pool db = uri0"
proof -
  let ?r = "fold (\<lambda>(k, o'). register k o') kvs no_databases"
  have look: "registered ?r name = map_of (rev kvs) name"
    using registry.look_last_wins [of kvs name] by (simp add: registry.ins_all_def)
  have ok: "registry_ok ?r"
    using registry.inv_ins_all [OF registry.inv_empty, of kvs] by (simp add: registry.ins_all_def)
  show ?thesis
  proof (cases "map_of (rev kvs) name")
    case None
    then have "rg_map ?r name = None"
      using look registered_none [OF ok] by simp
    then show ?thesis using None DB_new_fails [of uri0 name ?r] by simp
  next
    case (Some o')
    then show ?thesis using look registered_object [of ?r name o' uri0] by simp
  qed
qed

text \<open>
  Registering a name again changes the options of the objects that were opened before,
  while those opened for other names keep theirs.
\<close>

theorem database_objects_shared:
  assumes "registry_ok r" "DB_new uri0 name r = Inr db" "DB_new uri0 other r = Inr db'" "other \<noteq> name"
  shows "DB_options (add_database name h d s b r) db =
      \<lparr>co_database = d, co_server_host = h, co_replica_set = s, co_slave_ok = b\<rparr>
    \<and> DB_options (add_database name h d s b r) db' = DB_options r db'"
proof -
  have p: "rg_map r name = Some (db_options db)" "rg_map r other = Some (db_options db')"
    using assms(2,3) by (auto simp: DB_new_def options_by_name_def split: option.splits)
  then have "db_options db \<noteq> db_options db'"
    using assms(1,4) unfolding registry_ok_def inj_on_def by (metis domI)
  then show ?thesis using p by (simp add: DB_options_def add_database_def options_by_name_def)
qed

theorem database_objects_shared_witness:
  "\<exists>r db. DB_new (0 :: nat) ''log'' r = Inr db \<and> DB_server_host r db = ''h1''
    \<and> DB_server_host (addDatabase_host ''log'' ''h2'' ''d'' False r) db = ''h2''"
proof -
  let ?r = "addDatabase_host ''x'' ''h0'' ''d'' False (addDatabase_host ''log'' ''h1'' ''d'' False no_databases)"
  let ?db = "\<lparr>db_options = 0, db_pool = 0 :: nat\<rparr>" and ?db' = "\<lparr>db_options = Suc 0, db_pool = 0 :: nat\<rparr>"
  have ok: "registry_ok ?r"
    unfolding addDatabase_host_def using add_database_ok registry.inv_empty by blast
  have opened: "DB_new 0 ''log'' ?r = Inr ?db" "DB_new 0 ''x'' ?r = Inr ?db'" "DB_server_host ?r ?db = ''h1''"
    by (simp_all add: DB_new_def DB_server_host_def DB_options_def addDatabase_host_def add_database_def
        options_by_name_def no_databases_def)
  moreover have "DB_server_host (addDatabase_host ''log'' ''h2'' ''d'' False ?r) ?db = ''h2''"
    using database_objects_shared [OF ok opened(1,2), of "''h2''" "''d''" "[]" False]
    by (simp add: DB_server_host_def addDatabase_host_def [of "''log''" "''h2''"])
  ultimately show ?thesis by blast
qed

lemma ConnectLogDatabase_ok: "registry_ok r \<Longrightarrow> registry_ok (ConnectLogDatabase hs rset db ok r)"
  unfolding ConnectLogDatabase_def
  by (induction hs arbitrary: r) (simp_all add: addDatabase_host_def addDatabase_set_def add_database_ok)

text \<open>
  All hosts of the log database are registered under one name, so that only the last one
  is kept.
\<close>

theorem log_database_last_host:
  assumes "registry_ok r"
  shows "registered (ConnectLogDatabase (hs @ [h]) rset db ok r) ''log'' =
    Some \<lparr>co_database = db, co_server_host = h, co_replica_set = rset, co_slave_ok = ok\<rparr>"
proof -
  have "registry_ok (ConnectLogDatabase hs rset db ok r)"
    using assms by (rule ConnectLogDatabase_ok)
  moreover have "ConnectLogDatabase (hs @ [h]) rset db ok r =
      add_database ''log'' h db rset ok (ConnectLogDatabase hs rset db ok r)"
    by (simp add: ConnectLogDatabase_def addDatabase_host_def addDatabase_set_def)
  ultimately show ?thesis by (simp add: registered_add_database)
qed

theorem log_database_last_host_witness:
  "registered (ConnectLogDatabase [''h1'', ''h2''] [] ''d'' False no_databases) ''log'' =
    Some \<lparr>co_database = ''d'', co_server_host = ''h2'', co_replica_set = [], co_slave_ok = False\<rparr>"
  using log_database_last_host [OF registry.inv_empty, of "[''h1'']" "''h2''" "[]" "''d''" False] by simp

text \<open>
  \<open>db\<close> gives the same database for every name, and when it returns the client behind that database is
  free again: the next caller gets a database of the same client.
\<close>

theorem db_client_reused:
  assumes "\<And>u. (case pl_acquire lib u of (c, u') \<Rightarrow> pl_release lib c u') = u"
  shows "DB_db lib name db = DB_db lib other db \<and> snd (DB_db lib name db) = db
    \<and> fst (DB_db lib name (snd (DB_db lib other db))) = fst (DB_db lib name db)"
  using assms [of "db_pool db"] by (simp add: DB_db_def split: prod.splits)

theorem db_client_reused_witness:
  "let lib = \<lparr>pl_acquire = (\<lambda>n. (n, Suc n)), pl_release = (\<lambda>c n. n - 1), pl_index = (\<lambda>c s. (c, s))\<rparr>;
       db = \<lparr>db_options = 0, db_pool = 7\<rparr>
   in fst (DB_db lib ''x'' (snd (DB_db lib ''y'' db))) = (7, CHR ''s'')"
  using db_client_reused [of "\<lparr>pl_acquire = (\<lambda>n. (n, Suc n)), pl_release = (\<lambda>c n. n - 1),
      pl_index = (\<lambda>c s. (c, s))\<rparr>" "''x''" "\<lparr>db_options = 0, db_pool = 7\<rparr>" "''y''"]
  by (simp add: DB_db_def)

end
