(* ===== verification/MainProg.thy ===== *)
theory MainProg
  imports Server CgiService
begin

text \<open>
  \<open>src/main.cpp\<close>: the options of the command line, the order in which the parts are started, and what
  is printed; \<open>src/GeoIPTools.cpp\<close>: the lookups in the two databases.
\<close>

section \<open>Options\<close>

text \<open>What \<open>getopt\<close> returns until it is done; an unknown option, or one without its argument, is \<open>?\<close>.\<close>

datatype opt = Opt_c string | Opt_s string | Opt_p | Opt_t | Opt_unknown

record options =
  op_config :: string
  op_sock_path :: string
  op_print_pid :: bool
  op_test_config :: bool

definition default_options :: options where
  "default_options = \<lparr>op_config = ''config.xml'', op_sock_path = [], op_print_pid = False, op_test_config = False\<rparr>"

text \<open>\<open>None\<close>: the program prints its usage and exits with 1.\<close>

fun read_options :: "opt list \<Rightarrow> options \<Rightarrow> options option" where
  "read_options [] o' = Some o'"
| "read_options (Opt_c a # os) o' = read_options os (o'\<lparr>op_config := a\<rparr>)"
| "read_options (Opt_s a # os) o' = read_options os (o'\<lparr>op_sock_path := a\<rparr>)"
| "read_options (Opt_p # os) o' = read_options os (o'\<lparr>op_print_pid := True\<rparr>)"
| "read_options (Opt_t # os) o' = read_options os (o'\<lparr>op_test_config := True\<rparr>)"
| "read_options (Opt_unknown # os) o' = None"

section \<open>The program\<close>

text \<open>How the program ends or goes on; what it prints to the standard output is part of the exit.\<close>

datatype main_end =
    Main_exit nat string
  | Main_crash
  | Main_undefined
  | Main_parent
  | Main_daemon_failed nat
  | Main_service config

text \<open>
  \<open>main\<close>, in a build without \<open>DEBUG\<close>: the options, the configuration (whose result is not looked at),
  the two options that print and exit, the daemon, the socket path and the service. An exception that
  leaves \<open>main\<close> ends the process, as a null pointer does.
\<close>

definition main_run ::
  "os_lib \<Rightarrow> 'e xml_lib \<Rightarrow> server_os \<Rightarrow> string \<Rightarrow> opt list \<Rightarrow> config \<times> fs \<times> counters \<Rightarrow> process \<Rightarrow> main_end" where
  "main_run os x so argv0 args st p =
     (case read_options args default_options of
        None \<Rightarrow> Main_exit 1 (''Error found! '' @ argv0 @ '' -c config_file -s socket_path'' @ [CHR 0x0A])
      | Some o' \<Rightarrow>
          (case LoadConfig os x (op_config o') (Config_Instance (fst st) None, snd st) of
             Inl (Exit_1 mes) \<Rightarrow> Main_exit 1 []
           | Inl Null_pointer \<Rightarrow> Main_crash
           | Inl (Path_ended (Path_throws e)) \<Rightarrow> Main_crash
           | Inl (Path_ended Path_undefined) \<Rightarrow> Main_undefined
           | Inr (loaded, c, f, n) \<Rightarrow>
               (if op_test_config o' then Main_exit 0 (''Config: Ok'' @ [CHR 0x0A])
                else if op_print_pid o' then Main_exit 0 (pid_file c @ [CHR 0x0A])
                else case Server_new so c (lock_file c) (pid_file c) p of
                  Crashed \<Rightarrow> Main_crash
                | Parent_waits \<Rightarrow> Main_parent
                | Exited n' p' \<Rightarrow> Main_daemon_failed n'
                | Returned p' \<Rightarrow>
                    Main_service (if 8 < length (op_sock_path o')
                      then c\<lparr>server_socket_path := op_sock_path o'\<rparr> else c))))"

section \<open>GeoIP\<close>

text \<open>
  The library, with an open database as a value; \<open>None\<close> is a null pointer. A record has the codes of
  its country and region and its city.
\<close>

record 'g geo_lib =
  geo_open :: "string \<Rightarrow> 'g option"
  geo_country :: "'g \<Rightarrow> string \<Rightarrow> string option"
  geo_record :: "'g \<Rightarrow> string \<Rightarrow> (string \<times> string \<times> string option) option"
  geo_region_name :: "string \<Rightarrow> string \<Rightarrow> string option"

record 'g geo_tools =
  mGeoCountry :: "'g option"
  mGeoCity :: "'g option"

definition GeoIPTools_new :: "'g geo_lib \<Rightarrow> config \<Rightarrow> 'g geo_tools" where
  "GeoIPTools_new lib c =
     \<lparr>mGeoCountry = geo_open lib (geocountry_path c), mGeoCity = geo_open lib (geocity_path c)\<rparr>"

definition GeoIPTools_Instance :: "'g geo_lib \<Rightarrow> config \<Rightarrow> 'g geo_tools option \<Rightarrow> 'g geo_tools" where
  "GeoIPTools_Instance lib c mInstance =
     (case mInstance of Some g \<Rightarrow> g | None \<Rightarrow> GeoIPTools_new lib c)"

definition country_code_by_addr :: "'g geo_lib \<Rightarrow> 'g geo_tools \<Rightarrow> string \<Rightarrow> string" where
  "country_code_by_addr lib g ip =
     (case mGeoCountry g of
        None \<Rightarrow> ''NOT FOUND''
      | Some db \<Rightarrow> (case geo_country lib db ip of Some country \<Rightarrow> country | None \<Rightarrow> ''NOT FOUND''))"

definition region_code_by_addr :: "'g geo_lib \<Rightarrow> 'g geo_tools \<Rightarrow> string \<Rightarrow> string" where
  "region_code_by_addr lib g ip =
     (case mGeoCity g of
        None \<Rightarrow> ''NOT FOUND''
      | Some db \<Rightarrow>
          (case geo_record lib db ip of
             None \<Rightarrow> ''NOT FOUND''
           | Some (country, region, city) \<Rightarrow>
               (case geo_region_name lib country region of
                  Some region_name \<Rightarrow> region_name
                | None \<Rightarrow> ''NOT FOUND'')))"

text \<open>A record without a city is a null pointer that a string is made of (\<open>None\<close>).\<close>

definition city_code_by_addr :: "'g geo_lib \<Rightarrow> 'g geo_tools \<Rightarrow> string \<Rightarrow> string option" where
  "city_code_by_addr lib g ip =
     (case mGeoCity g of
        None \<Rightarrow> Some ''NOT FOUND''
      | Some db \<Rightarrow>
          (case geo_record lib db ip of
             None \<Rightarrow> Some ''NOT FOUND''
           | Some (country, region, city) \<Rightarrow> city))"

section \<open>Properties\<close>

lemma read_options_last:
  "Opt_unknown \<notin> set args \<Longrightarrow> \<exists>o2. read_options args o1 = Some o2
    \<and> op_test_config o2 = (op_test_config o1 \<or> Opt_t \<in> set args)
    \<and> op_print_pid o2 = (op_print_pid o1 \<or> Opt_p \<in> set args)"
  by (induction args o1 rule: read_options.induct) auto

lemma read_options_unknown: "read_options args o1 = None \<longleftrightarrow> Opt_unknown \<in> set args"
  by (induction args o1 rule: read_options.induct) auto

text \<open>
  The test of the configuration says \<open>Config: Ok\<close> also when there is no configuration: for
  a name that is not a regular file, \<open>Load\<close> returns false, which nobody looks at.
\<close>

theorem test_config_says_ok:
  assumes "Opt_unknown \<notin> set args" "Opt_t \<in> set args"
    and "\<forall>i name. fst (snd st) name = Some i \<longrightarrow> ino_kind i \<noteq> Regular"
  shows "main_run os x so argv0 args st p = Main_exit 0 (''Config: Ok'' @ [CHR 0x0A])"
proof -
  obtain o2 where o2: "read_options args default_options = Some o2" "op_test_config o2"
    using read_options_last [OF assms(1), of default_options] assms(2) by auto
  have "getConfigDir os (fst (snd st)) name = []" for name
    using assms(3) by (auto simp: getConfigDir_def split: option.splits)
  then have "\<exists>c f n. LoadConfig os x (op_config o2) (Config_Instance (fst st) None, snd st) = Inr (False, c, f, n)"
    by (simp add: LoadConfig_def Config_Load_def Let_def)
  then show ?thesis using o2 by (auto simp: main_run_def)
qed

theorem test_config_says_ok_witness:
  "main_run plain_os bare_xml sample_os ''worker'' [Opt_c ''nofile'', Opt_t] (blank_config, Map.empty, zero_counters) plain_process
    = Main_exit 0 (''Config: Ok'' @ [CHR 0x0A])"
  by (rule test_config_says_ok) simp_all

text \<open>
  Property C13: the service is started only behind the daemon, whose constructor has returned, and without
  the two printing options and unknown ones; \<open>LoadConfig\<close> has returned then, but it may have returned false,
  which nobody looks at. The configuration is the one it left except for the socket path, which the
  option \<open>-s\<close> replaces when it has more than eight characters.
\<close>

theorem main_starts_service:
  assumes "main_run os x so argv0 args st p = Main_service c'"
  shows "Opt_unknown \<notin> set args \<and> Opt_t \<notin> set args \<and> Opt_p \<notin> set args
    \<and> (\<exists>o' b c f n p'. read_options args default_options = Some o'
        \<and> LoadConfig os x (op_config o') (Config_Instance (fst st) None, snd st) = Inr (b, c, f, n)
        \<and> Server_new so c (lock_file c) (pid_file c) p = Returned p'
        \<and> c' = (if 8 < length (op_sock_path o') then c\<lparr>server_socket_path := op_sock_path o'\<rparr> else c))"
proof -
  have u: "Opt_unknown \<notin> set args"
    using assms read_options_unknown [of args default_options]
    by (auto simp: main_run_def split: option.splits)
  obtain o2 where o2: "read_options args default_options = Some o2"
      "op_test_config o2 = (Opt_t \<in> set args)" "op_print_pid o2 = (Opt_p \<in> set args)"
    using read_options_last [OF u, of default_options] by (auto simp: default_options_def)
  show ?thesis using assms u o2
    by (auto simp: main_run_def split: sum.splits load_end.splits path_stop.splits prod.splits if_splits server_end.splits)
qed

theorem main_starts_service_witness:
  "\<exists>c'. main_run plain_os bare_xml (sample_os\<lparr>so_ppid := 1\<rparr>) ''worker'' [] (blank_config, Map.empty, zero_counters) plain_process
      = Main_service c' \<and> server_socket_path c' = []"
proof -
  obtain c' where r: "main_run plain_os bare_xml (sample_os\<lparr>so_ppid := 1\<rparr>) ''worker'' [] (blank_config, Map.empty, zero_counters)
      plain_process = Main_service c'"
    by (simp add: main_run_def default_options_def LoadConfig_def Config_Load_def getConfigDir_def
        Config_Instance_def Server_new_def sample_os_def)
  from main_starts_service [OF r] r show ?thesis
    by (auto simp: default_options_def LoadConfig_def Config_Load_def getConfigDir_def Config_Instance_def
        blank_config_def)
qed

text \<open>
  A lookup that fails for whatever reason (no database, no record, no name) gives the text
  \<open>NOT FOUND\<close>, so that without the databases every visitor is there; the only exception is a record
  without a city.
\<close>

theorem geo_not_found:
  "(mGeoCountry g = None \<or> geo_country lib (the (mGeoCountry g)) ip = None \<longrightarrow> country_code_by_addr lib g ip = ''NOT FOUND'')
   \<and> (mGeoCity g = None \<or> geo_record lib (the (mGeoCity g)) ip = None \<longrightarrow>
        region_code_by_addr lib g ip = ''NOT FOUND'' \<and> city_code_by_addr lib g ip = Some ''NOT FOUND'')"
  by (auto simp: country_code_by_addr_def region_code_by_addr_def city_code_by_addr_def split: option.splits)

theorem geo_not_found_witness:
  "country_code_by_addr \<lparr>geo_open = \<lambda>f. None, geo_country = \<lambda>d i. None, geo_record = \<lambda>(d :: nat) i. None,
     geo_region_name = \<lambda>c r. None\<rparr> \<lparr>mGeoCountry = None, mGeoCity = None\<rparr> ''10.0.0.1'' = ''NOT FOUND''"
  using geo_not_found [of "\<lparr>mGeoCountry = None, mGeoCity = None\<rparr>"
      "\<lparr>geo_open = \<lambda>f. None, geo_country = \<lambda>d i. None, geo_record = \<lambda>(d :: nat) i. None, geo_region_name = \<lambda>c r. None\<rparr>" "''10.0.0.1''"]
  by simp

end
