(* ===== verification/Spec2Isabelle.thy ===== *)
theory Spec2Isabelle
  imports Base64 UrlParser Cookies Offers JsonRoundtrip JsonBuffer JsonConvert JsonCompare JsonFlatten JsonContainer CborLaws Params BoostHelpers Config ConfigTime Core
    Status CgiLaws Threads LogStream Server Databases
    MainProg
begin

text \<open>
  A model of worker-log, the FastCGI service that records which offers were shown to a visitor.

  \<^bold>\<open>The program.\<close> \<open>main\<close> reads its options and the XML configuration, becomes a daemon (\<open>Server\<close>),
  and starts \<open>CgiService\<close>, whose threads accept requests. A request of the browser's script
  (\<open>HTTP_X_REQUESTED_WITH\<close>) carries a JSON document with the client, the parameters and the offers.
  \<open>CgiService\<close> reads the body and the visitor's cookie, puts both into \<open>Params\<close>, answers with what
  \<open>Core::Process\<close> returns and a new cookie, and only then calls \<open>Core::ProcessSaveResults\<close>, which
  writes one document per offer to the collection of impressions and counts them in the counters
  that the status page (\<open>BaseCore\<close>) shows. Another request gets that page if it asks for
  \<open>show=status\<close>, and an empty answer otherwise.

  \<^bold>\<open>Theories.\<close> One per part, in the order of the imports:

  \<^item> \<open>Prelude\<close>: bytes, C strings and the functions of the C and C++ libraries that the sources call
    (\<open>atoi\<close>, \<open>strtol\<close>, \<open>find\<close>, \<open>substr\<close>, case mapping), exceptions as values of a sum type, and the
    interfaces: \<open>codec\<close> (a round trip), \<open>keyed_store\<close> (insertion and lookup) and \<open>invariant_system\<close>
    (an invariant of a step relation), each interpreted on the parts that provide it.
  \<^item> \<open>Base64\<close> (\<open>src/base64.cpp\<close>): both directions with their buffers of three and four bytes and their
    lengths of 32 bits; the round trip of what these lengths can count, and the shape of the code.
  \<^item> \<open>UrlParser\<close> (\<open>src/UrlParser.cpp\<close>): the percent decoder as its state machine, and the query string.
  \<^item> \<open>Cookies\<close> (\<open>src/Cookie.cpp\<close>): the values a cookie is made of, and the header line.
  \<^item> \<open>Offers\<close> (\<open>src/Offer.cpp\<close>, \<open>src/EBranch.cpp\<close>): an offer and the branch it is shown for.
  \<^item> \<open>JsonValue\<close>, \<open>JsonCompare\<close>, \<open>JsonDump\<close>, \<open>JsonLexer\<close>, \<open>JsonStrings\<close>, \<open>JsonNumbers\<close>, \<open>JsonParser\<close>,
    \<open>JsonRoundtrip\<close> (\<open>include/json.h\<close>, with this repository's changes to the conversions): values and
    their operations, the comparison operators, the serializer, the lexer by the states of its
    generated automaton, the parser, and the facts on them: a text that was written is read back.
  \<^item> \<open>JsonFilter\<close>, \<open>JsonStream\<close> (\<open>include/json.h\<close>): the parser with its callback, its depth and the values
    that are discarded; the line buffer through which a stream is read, and the calls of the parser for
    pointers and ranges. That a lexer may be replaced by one with the same tokens is the interface
    \<open>lexer_simulation\<close>.
  \<^item> \<open>JsonAutomaton\<close>, \<open>JsonScan\<close>, \<open>JsonBuffer\<close> (\<open>include/json.h\<close>): the generated code of the scanner, label
    by label; first as an automaton on a text, equal to \<open>JsonLexer\<close>, then with its pointers into the line
    buffer and the places where that is filled; and the parser that takes its tokens from there, as it does
    for a stream.
  \<^item> \<open>JsonConvert\<close> (\<open>include/json.h\<close>): the conversions between C++ and JSON values. A C++ type is a value
    of the data type \<open>ctype\<close>, so that type traits, the conditions of the overloads and the choice of
    one are functions on it; pointers and references to what a value stores (\<open>stored_part\<close>); copies.
  \<^item> \<open>JsonPointer\<close>, \<open>JsonPatch\<close>, \<open>JsonPatchLaws\<close>, \<open>JsonFlatten\<close> (\<open>include/json.h\<close>): pointers and the ways to
    follow them, where a C++ reference to a part of a value is a function on that part whose result is
    put back into its place; patches, differences, flattening; and the facts on them, stated with
    values that have a hole (\<open>leads_to\<close>).
  \<^item> \<open>JsonIterator\<close>, \<open>JsonContainer\<close> (\<open>include/json.h\<close>): the iterators of values as the addresses and
    positions they hold, on a store of values, with references as places in it; what is erased and
    inserted at them; the constructors from lists and ranges. The loops forwards, backwards and
    over the wrapper with keys are one interface, \<open>cursor\<close>.
  \<^item> \<open>JsonBytes\<close>, \<open>MsgPack\<close>, \<open>MsgPackLaws\<close>, \<open>Cbor\<close>, \<open>CborLaws\<close> (\<open>include/json.h\<close>): the binary formats: the
    bytes of numbers, the two writers and readers, and the round trips. The loops of both readers
    are one interface, \<open>byte_reader\<close>.
  \<^item> \<open>Params\<close> (\<open>src/Params.cpp\<close>): the setters, \<open>parse\<close> and the getters.
  \<^item> \<open>BoostHelpers\<close>, \<open>Config\<close>, \<open>ConfigTime\<close> (\<open>src/BoostHelpers.cpp\<close>, \<open>src/Config.cpp\<close>): paths checked on
    a file system that is a map, with the exceptions of its library, the loading of every section of the configuration, and the reading
    of a time of day and of a file.
  \<^item> \<open>Core\<close> (\<open>src/Core.cpp\<close>): the answer and the recording, with the counters as 64-bit numbers.
  \<^item> \<open>Status\<close> (\<open>src/BaseCore.cpp\<close>, \<open>src/CpuStat.cpp\<close>): the status page and the CPU usage.
  \<^item> \<open>CgiService\<close>, \<open>CgiLaws\<close> (\<open>src/CgiService.cpp\<close>): the two \<open>Response\<close> functions, \<open>ProcessRequest\<close>, the
    loop of \<open>Serve\<close>, the preparation of the database, the start; and the facts on whole requests.
  \<^item> \<open>Threads\<close> (\<open>CgiService::Serve\<close>, \<open>Core.cpp\<close>): the interleavings of the threads at the mutex and at
    the counter of requests.
  \<^item> \<open>LogStream\<close> (\<open>src/Log.cpp\<close>): the buffer behind \<open>std::clog\<close>, the message functions, the memory size.
  \<^item> \<open>Server\<close> (\<open>src/Server.cpp\<close>): the constructor that makes a daemon of the process.
  \<^item> \<open>Databases\<close> (\<open>src/DB.cpp\<close>): the registry of connections, with its objects in a store.
  \<^item> \<open>MainProg\<close> (\<open>src/main.cpp\<close>, \<open>src/GeoIPTools.cpp\<close>): the command line, the order of the start, and
    the lookups of addresses.

  \<^bold>\<open>State and errors.\<close> A C++ object is a record, a method a function that returns the changed record.
  An exception, or an end of the program, is \<open>Inl\<close> or a constructor of its own; \<open>None\<close> stands for
  undefined behaviour (a null pointer, a position outside of a buffer). Integers of fixed width are
  words. Output and log are lists that grow; the collection of impressions is a capped one, so an
  insertion (\<open>ordered_insert\<close>) adds documents at the end, only a part of them if it throws, and may drop the
  oldest. A request's whole effect is \<open>ProcessRequest\<close>, which \<open>serve\<close> folds over the accepted requests;
  both are \<open>None\<close> where the code has no defined behaviour: for a request without
  \<open>HTTP_X_REQUESTED_WITH\<close>, whose processing calls the log with a null format, and when the number of
  requests of a thread overflows. What does not change from one
  request to the next is stated as an invariant of the step relation and proved by rule induction.

  \<^bold>\<open>What is shown.\<close> For the service: which answer and cookie a request gets, that every request of
  either kind is answered (where the behaviour is defined), that a failed recording never changes an answer,
  that the collection keeps its order and gets nothing but impressions at its end, that a request is counted
  once, which rates the status page shows, that the visitor's cookie returns, that one thread at a time
  accepts and none waits forever, and what is left of the counter when threads race. For the recording: one
  document per offer or none at all, with exact counters. For JSON: what is written is read back as
  the same value and compares equal to it, the lexer accepts exactly the strings and numbers of its
  grammar and reads integers exactly or rejects them, its generated code is that lexer and never leaves
  its buffer, the parser always returns, alike from memory and from a stream, and with a callback
  that accepts everything as without one, C++ values are converted and read back as they were, and the comparison
  is a linear order where there are no doubles and the unsigned numbers fit signed ones, and none beyond; the
  patch between two values leads from one to the other; both binary formats are read back, with null for
  a double that is not finite, and their readers return on every vector without leaving it; a loop over a value visits its elements and ends, and erasing and
  inserting at iterators is that of the positions in the sequence. For the other parts:
  round trips of the codes, equivalences of the state machines with plain specifications, the exact
  conditions of errors, and behaviours that differ from what comments or names promise.

  \<^bold>\<open>Fuel.\<close> The parser has fuel: \<open>json_parse\<close> gives twice the length of the text and three more, and
  \<open>parse_returns\<close> proves that this is enough for every text, since every call consumes a character
  or ends; the parser with a callback has the same fuel, that over the line buffer two more for the newline
  behind the text. The scanner (\<open>buffer_scan\<close>) has eight steps for
  each character to come and eight more: each label moves the cursor or goes to one of lower
  \<open>rank\<close> (\<open>togo\<close>). The loops over iterators (\<open>range_for\<close>) have, too: one more than the size of the value is
  enough, by \<open>iteration_visits_range\<close>. All other recursion has a termination proof; that of the binary readers rests on the fact,
  proved first on their domain, that a value that was read has moved the position forward.

  \<^bold>\<open>Parameters.\<close> Doubles (\<open>dbl_lib\<close>, and their bits: \<open>dbl_bits\<close>), the clock and the formatting of times, the regular expressions and
  conversions of Boost, TinyXML, the MongoDB driver (\<open>insert_many\<close>, the existing collections), the errors of the file system, GeoIP,
  and the system calls are arguments of the definitions, with a concrete instance in the witnesses.

  \<^bold>\<open>Not modelled.\<close> \<open>File.cpp\<close>, which is not built and does not match its header. The effect of a signal in
  the middle of a request. Of the threads of \<open>CgiService\<close>, \<open>Threads\<close> has the mutex and one
  counter, by steps on a sequentially consistent memory; a whole request is modelled for one thread,
  and the races on the static buffer of \<open>Log\<close> and on the server's name are left out. The \<open>DEBUG\<close> build. Of \<open>json.h\<close>: the
  allocation and freeing of memory, the conversions to sets and to maps with other keys than strings, user-defined
  conversions, and the const variants of the accessors; and which array iterators a
  reallocation invalidates.
\<close>

end
